(* ===== verification/Narjar_Prelude.thy ===== *)
theory Narjar_Prelude
  imports Main "HOL-Library.Word" "HOL-Library.List_Lexorder" "HOL-Library.Char_ord"
begin

section \<open>Shared vocabulary of the development\<close>

text \<open>
  The vocabulary every component uses: bytes and Rust results, the fixed-width arithmetic of
  Rust's \<open>u64\<close> written out on \<open>nat\<close>, little-endian encoding, a state-and-error monad for code
  that mutates \<open>self\<close> and returns a \<open>Result\<close>, and the string functions of the standard library
  (\<open>strip_prefix\<close>, \<open>split_once\<close>, \<open>split\<close>, \<open>parse::<u64>\<close>, decimal display) on byte strings.

  A Rust \<open>Result<T, E>\<close> is the sum \<open>'e + 'a\<close>; \<open>Err\<close> and \<open>Ok\<close> abbreviate its injections.  A
  \<open>u64\<close> or \<open>usize\<close> value is a \<open>nat\<close>; every operation that can leave the 64-bit range is one of
  the checked, saturating or wrapping functions below.  Bytes are 8-bit words.  A Rust \<open>str\<close> is
  its UTF-8 encoding, a \<open>string\<close> (HOL characters are bytes).
\<close>

subsection \<open>Bytes, results, integers\<close>

type_synonym byte = "8 word"

type_synonym bytes = "byte list"

abbreviation Ok :: "'a \<Rightarrow> 'e + 'a" where
  "Ok \<equiv> Inr"

abbreviation Err :: "'e \<Rightarrow> 'e + 'a" where
  "Err \<equiv> Inl"

named_theorems run_simps \<open>success and failure of monadic steps, as equivalences\<close>

named_theorems consume_simps \<open>what a successful reader step takes from its input\<close>

definition u64_max :: nat where
  "u64_max = 2 ^ 64 - 1"

definition checked_add_u64 :: "nat \<Rightarrow> nat \<Rightarrow> nat option" where
  "checked_add_u64 a b = (if a + b \<le> u64_max then Some (a + b) else None)"

definition saturating_add_u64 :: "nat \<Rightarrow> nat \<Rightarrow> nat" where
  "saturating_add_u64 a b = min (a + b) u64_max"

definition saturating_mul_u64 :: "nat \<Rightarrow> nat \<Rightarrow> nat" where
  "saturating_mul_u64 a b = min (a * b) u64_max"

text \<open>The bytes of an ASCII literal, \<open>b"..."\<close> in the source.\<close>

definition ascii :: "string \<Rightarrow> bytes" where
  "ascii s = map of_char s"

fun le_bytes :: "nat \<Rightarrow> nat \<Rightarrow> bytes" where
  "le_bytes 0 n = []"
| "le_bytes (Suc k) n = of_nat n # le_bytes k (n div 256)"

fun le_value :: "bytes \<Rightarrow> nat" where
  "le_value [] = 0"
| "le_value (b # bs) = unat b + 256 * le_value bs"

text \<open>\<open>u64::to_le_bytes\<close> and \<open>u64::from_le_bytes\<close>.\<close>

definition u64_to_le_bytes :: "nat \<Rightarrow> bytes" where
  "u64_to_le_bytes n = le_bytes 8 n"

definition u64_from_le_bytes :: "bytes \<Rightarrow> nat" where
  "u64_from_le_bytes bs = le_value bs"

subsection \<open>The state-and-error monad\<close>

text \<open>
  A method \<open>fn m(&mut self, ..) -> Result<T, E>\<close> whose receiver is discarded after an error is a
  function from the state to an error or a value with the next state.
\<close>

type_synonym ('s, 'e, 'a) step = "'s \<Rightarrow> 'e + 'a \<times> 's"

definition retS :: "'a \<Rightarrow> ('s, 'e, 'a) step" where
  "retS x = (\<lambda>s. Ok (x, s))"

definition failS :: "'e \<Rightarrow> ('s, 'e, 'a) step" where
  "failS e = (\<lambda>s. Err e)"

definition bindS :: "('s, 'e, 'a) step \<Rightarrow> ('a \<Rightarrow> ('s, 'e, 'b) step) \<Rightarrow> ('s, 'e, 'b) step" where
  "bindS m f = (\<lambda>s. case m s of Inl e \<Rightarrow> Err e | Inr (x, s') \<Rightarrow> f x s')"

text \<open>A method whose effects outlive an error: it returns a result and the next state.\<close>

type_synonym ('s, 'e, 'a) run = "'s \<Rightarrow> ('e + 'a) \<times> 's"

definition retW :: "'a \<Rightarrow> ('s, 'e, 'a) run" where
  "retW x = (\<lambda>w. (Ok x, w))"

definition failW :: "'e \<Rightarrow> ('s, 'e, 'a) run" where
  "failW e = (\<lambda>w. (Err e, w))"

definition bindW :: "('s, 'e, 'a) run \<Rightarrow> ('a \<Rightarrow> ('s, 'e, 'b) run) \<Rightarrow> ('s, 'e, 'b) run" where
  "bindW m f = (\<lambda>w. case m w of (Inl e, w') \<Rightarrow> (Err e, w') | (Inr x, w') \<Rightarrow> f x w')"

definition thenW :: "('s, 'e, unit) run \<Rightarrow> ('s, 'e, 'b) run \<Rightarrow> ('s, 'e, 'b) run" where
  "thenW m n = bindW m (\<lambda>_. n)"

text \<open>The operator \<open>?\<close> on a pure \<open>Result\<close>, and on a \<open>Result\<close> inside a method.\<close>

definition bindR :: "'e + 'a \<Rightarrow> ('a \<Rightarrow> 'e + 'b) \<Rightarrow> 'e + 'b" where
  "bindR r f = (case r of Inl e \<Rightarrow> Err e | Inr x \<Rightarrow> f x)"

definition liftS :: "'e + 'a \<Rightarrow> ('s, 'e, 'a) step" where
  "liftS r = (\<lambda>s. case r of Inl e \<Rightarrow> Err e | Inr x \<Rightarrow> Ok (x, s))"

definition getS :: "('s \<Rightarrow> 'a) \<Rightarrow> ('s, 'e, 'a) step" where
  "getS f = (\<lambda>s. Ok (f s, s))"

definition modifyS :: "('s \<Rightarrow> 's) \<Rightarrow> ('s, 'e, unit) step" where
  "modifyS f = (\<lambda>s. Ok ((), f s))"

text \<open>\<open>ok_or(e)\<close> on an \<open>Option\<close>.\<close>

definition ok_or :: "'e \<Rightarrow> 'a option \<Rightarrow> 'e + 'a" where
  "ok_or e x = (case x of None \<Rightarrow> Err e | Some v \<Rightarrow> Ok v)"

text \<open>\<open>map(f).transpose()\<close> on an \<open>Option\<close>, and \<open>map(f).collect::<Result<Vec<_>, _>>()\<close>.\<close>

definition traverse_option :: "('a \<Rightarrow> 'e + 'b) \<Rightarrow> 'a option \<Rightarrow> 'e + 'b option" where
  "traverse_option f x = (case x of None \<Rightarrow> Ok None | Some v \<Rightarrow> bindR (f v) (\<lambda>y. Ok (Some y)))"

fun traverse_list :: "('a \<Rightarrow> 'e + 'b) \<Rightarrow> 'a list \<Rightarrow> 'e + 'b list" where
  "traverse_list f [] = Ok []"
| "traverse_list f (x # xs) = bindR (f x) (\<lambda>y. bindR (traverse_list f xs) (\<lambda>ys. Ok (y # ys)))"

text \<open>\<open>try_fold\<close>.\<close>

fun try_fold :: "('b \<Rightarrow> 'a \<Rightarrow> 'e + 'b) \<Rightarrow> 'b \<Rightarrow> 'a list \<Rightarrow> 'e + 'b" where
  "try_fold f acc [] = Ok acc"
| "try_fold f acc (x # xs) = bindR (f acc x) (\<lambda>acc'. try_fold f acc' xs)"

subsection \<open>Lemmas: results and steps\<close>

lemma bindS_Inr_iff [run_simps]:
  "bindS m f s = Inr r \<longleftrightarrow> (\<exists>x s'. m s = Inr (x, s') \<and> f x s' = Inr r)"
  by (auto simp: bindS_def split: sum.splits prod.splits)

lemma bindS_Inl_iff:
  "bindS m f s = Inl e \<longleftrightarrow> m s = Inl e \<or> (\<exists>x s'. m s = Inr (x, s') \<and> f x s' = Inl e)"
  by (auto simp: bindS_def split: sum.splits prod.splits)

lemma bindS_ok: "m s = Inr (x, s') \<Longrightarrow> bindS m f s = f x s'"
  by (simp add: bindS_def)

lemma bindS_apply: "bindS m f s = (case m s of Inl e \<Rightarrow> Inl e | Inr (x, t) \<Rightarrow> f x t)"
  by (simp add: bindS_def)

lemma bindS_assoc: "bindS (bindS m f) g = bindS m (\<lambda>x. bindS (f x) g)"
  by (rule ext) (simp add: bindS_def split: sum.splits prod.splits)

lemma bindR_Inr_iff [run_simps]: "bindR r f = Inr y \<longleftrightarrow> (\<exists>x. r = Inr x \<and> f x = Inr y)"
  by (auto simp: bindR_def split: sum.splits)

lemma bindR_Inl_iff: "bindR r f = Inl e \<longleftrightarrow> r = Inl e \<or> (\<exists>x. r = Inr x \<and> f x = Inl e)"
  by (auto simp: bindR_def split: sum.splits)

lemma bindR_simps [simp]:
  "bindR (Inr x) f = f x"
  "bindR (Inl e) f = Inl e"
  by (simp_all add: bindR_def)

lemma retS_Inr_iff [run_simps]: "retS x s = Inr (y, s') \<longleftrightarrow> y = x \<and> s' = s"
  by (auto simp: retS_def)

lemma retS_apply [simp]: "retS x s = Inr (x, s)"
  by (simp add: retS_def)

lemma failS_apply [simp]: "failS e s = Inl e"
  by (simp add: failS_def)

lemma getS_apply [simp]: "getS f s = Inr (f s, s)"
  by (simp add: getS_def)

lemma modifyS_apply [simp]: "modifyS f s = Inr ((), f s)"
  by (simp add: modifyS_def)

lemma liftS_Inr_iff [run_simps]: "liftS r s = Inr (x, s') \<longleftrightarrow> r = Inr x \<and> s' = s"
  by (auto simp: liftS_def split: sum.splits)

lemma liftS_apply [simp]:
  "liftS (Inr x) s = Inr (x, s)"
  "liftS (Inl e) s = Inl e"
  by (simp_all add: liftS_def)

lemma ok_or_Inr_iff [run_simps]: "ok_or e x = Inr v \<longleftrightarrow> x = Some v"
  by (auto simp: ok_or_def split: option.splits)

lemma ok_or_simps [simp]:
  "ok_or e None = Inl e"
  "ok_or e (Some v) = Inr v"
  by (simp_all add: ok_or_def)

lemma traverse_option_simps [simp]:
  "traverse_option f None = Ok None"
  "traverse_option f (Some v) = bindR (f v) (\<lambda>y. Ok (Some y))"
  by (simp_all add: traverse_option_def)

lemma traverse_list_Inr_iff:
  "traverse_list f xs = Inr ys \<longleftrightarrow> list_all2 (\<lambda>x y. f x = Inr y) xs ys"
proof (induction xs arbitrary: ys)
  case Nil
  then show ?case by auto
next
  case (Cons x xs)
  show ?case by (auto simp: run_simps Cons.IH list_all2_Cons1)
qed

lemma traverse_list_map:
  "(\<And>x. x \<in> set xs \<Longrightarrow> f x = Inr (g x)) \<Longrightarrow> traverse_list f xs = Inr (map g xs)"
  by (induction xs) auto

lemma try_fold_append:
  "try_fold f acc (xs @ ys) = bindR (try_fold f acc xs) (\<lambda>acc'. try_fold f acc' ys)"
  by (induction xs arbitrary: acc) (auto simp: bindR_def split: sum.splits)

lemma try_fold_invariant:
  assumes "try_fold f acc xs = Inr r" and "P acc"
    and "\<And>a x a'. P a \<Longrightarrow> x \<in> set xs \<Longrightarrow> f a x = Inr a' \<Longrightarrow> P a'"
  shows "P r"
  using assms
proof (induction xs arbitrary: acc)
  case Nil
  then show ?case by simp
next
  case (Cons x xs)
  from Cons.prems(1) obtain a' where a': "f acc x = Inr a'" "try_fold f a' xs = Inr r"
    by (auto simp: run_simps)
  have "P a'"
    by (rule Cons.prems(3) [OF Cons.prems(2) _ a'(1)]) simp
  moreover have "\<And>a y b. P a \<Longrightarrow> y \<in> set xs \<Longrightarrow> f a y = Inr b \<Longrightarrow> P b"
    by (rule Cons.prems(3)) simp_all
  ultimately show ?case
    by (rule Cons.IH [OF a'(2)])
qed

subsection \<open>Lemmas: integers and little-endian bytes\<close>

lemma checked_add_u64_Some [run_simps]:
  "checked_add_u64 a b = Some c \<longleftrightarrow> c = a + b \<and> a + b \<le> u64_max"
  by (auto simp: checked_add_u64_def)

lemma checked_add_u64_None: "checked_add_u64 a b = None \<longleftrightarrow> u64_max < a + b"
  by (auto simp: checked_add_u64_def)

lemma saturating_add_u64_exact: "a + b \<le> u64_max \<Longrightarrow> saturating_add_u64 a b = a + b"
  by (simp add: saturating_add_u64_def)

lemma saturating_add_u64_le: "saturating_add_u64 a b \<le> u64_max"
  by (simp add: saturating_add_u64_def)

lemma length_le_bytes [simp]: "length (le_bytes k n) = k"
  by (induction k arbitrary: n) auto

lemma le_value_bound: "le_value bs < 256 ^ length bs"
proof (induction bs)
  case Nil
  then show ?case by simp
next
  case (Cons b bs)
  have "unat b < 256" using unsigned_less [of b, where ?'a=nat] by simp
  with Cons.IH show ?case by simp
qed

lemma le_value_le_bytes: "le_value (le_bytes k n) = n mod 256 ^ k"
proof (induction k arbitrary: n)
  case 0
  then show ?case by simp
next
  case (Suc k)
  have "unat (of_nat n :: byte) = n mod 256"
    by (simp add: unat_of_nat)
  then show ?case
    by (simp add: Suc.IH mod_mult2_eq)
qed

lemma le_bytes_le_value: "le_bytes (length bs) (le_value bs) = bs"
proof (induction bs)
  case Nil
  then show ?case by simp
next
  case (Cons b bs)
  have b: "unat b < 256" using unsigned_less [of b, where ?'a=nat] by simp
  have "(of_nat (unat b + 256 * le_value bs) :: byte) = b"
  proof -
    have "(of_nat (unat b + 256 * le_value bs) :: byte) = of_nat (unat b) + of_nat 256 * of_nat (le_value bs)"
      by (simp only: of_nat_add of_nat_mult)
    moreover have "(of_nat 256 :: byte) = 0"
      by simp
    ultimately show ?thesis by (simp only: mult_zero_left add_0_right of_nat_unat ucast_id)
  qed
  moreover have "(unat b + 256 * le_value bs) div 256 = le_value bs"
    using b by simp
  ultimately show ?case using Cons.IH by simp
qed

lemma length_u64_to_le_bytes [simp]: "length (u64_to_le_bytes n) = 8"
  by (simp add: u64_to_le_bytes_def)

lemma u64_from_to_le_bytes: "n \<le> u64_max \<Longrightarrow> u64_from_le_bytes (u64_to_le_bytes n) = n"
  by (simp add: u64_to_le_bytes_def u64_from_le_bytes_def le_value_le_bytes u64_max_def)

lemma u64_to_from_le_bytes: "length bs = 8 \<Longrightarrow> u64_to_le_bytes (u64_from_le_bytes bs) = bs"
  using le_bytes_le_value [of bs] by (simp add: u64_to_le_bytes_def u64_from_le_bytes_def)

lemma u64_from_le_bytes_le_max: "length bs = 8 \<Longrightarrow> u64_from_le_bytes bs \<le> u64_max"
  using le_value_bound [of bs] by (simp add: u64_from_le_bytes_def u64_max_def)

lemma length_ascii [simp]: "length (ascii s) = length s"
  by (simp add: ascii_def)

lemma inj_of_char_byte: "inj (of_char :: char \<Rightarrow> byte)"
proof (rule injI)
  fix c d :: char assume "(of_char c :: byte) = of_char d"
  then have "(of_nat (of_char c) :: byte) = of_nat (of_char d)" by (simp only: of_nat_of_char)
  then have "of_char c mod 256 = (of_char d mod 256 :: nat)"
    by (simp add: word_of_nat_eq_iff take_bit_eq_mod)
  then show "c = d" by simp
qed

lemma ascii_eq_iff [simp]: "ascii a = ascii b \<longleftrightarrow> a = b"
  unfolding ascii_def by (rule inj_map_eq_map [OF inj_of_char_byte])

lemma ascii_Nil [simp]: "ascii [] = []"
  by (simp add: ascii_def)

end
