(* ===== verification/Nar_Decode.thy ===== *)
theory Nar_Decode
  imports Narjar_Prelude
begin

section \<open>The bounded streaming NAR decoder\<close>

text \<open>
  The decoder of \<open>src/src/nar.rs\<close>.  Its reader is the list of results that successive calls of
  \<open>Read::read\<close> give (a short read, an interruption, a fault), so retrying interrupted reads and
  \<open>read_exact\<close> are modelled on it.  \<open>Sha256\<close> is the list of bytes it was updated with; the digest
  function itself is a parameter \<open>sha256\<close> of \<open>decode\<close>.  The event sink is a parameter too: a
  function from its state and an event to an error or its next state.  \<open>can_reserve n\<close> says
  whether a \<open>try_reserve\<close> of \<open>n\<close> elements succeeds.

  The iterator loops are recursive functions: \<open>stream_chunks\<close> counts the offset up to the file
  size, \<open>decode_loop\<close> ends because every directory step takes at least one length word from the
  reader (\<open>decode_directory_child_or_end_shorter\<close>).
\<close>

subsection \<open>Readers\<close>

datatype IoError = UnexpectedEof | OutOfMemory | InvalidData | NotFound | OtherIo string

datatype ReadStep = Data bytes | Interrupted | Fault IoError

type_synonym reader = "ReadStep list"

text \<open>One call of the underlying \<open>read\<close> with a buffer of \<open>n\<close> bytes (\<open>Data []\<close> is a read of zero
  bytes, which means end of file, as the empty list does).\<close>

datatype ReadOutcome = Got bytes | WasInterrupted | Failed IoError

fun raw_read :: "nat \<Rightarrow> reader \<Rightarrow> ReadOutcome \<times> reader" where
  "raw_read n [] = (Got [], [])"
| "raw_read n (Data bs # r) =
     (if length bs \<le> n then (Got bs, r) else (Got (take n bs), Data (drop n bs) # r))"
| "raw_read n (Interrupted # r) = (WasInterrupted, r)"
| "raw_read n (Fault e # r) = (Failed e, r)"

text \<open>\<open>InterruptedRetryReader::read\<close>: the loop ends because each interruption is one step.\<close>

function retry_read :: "nat \<Rightarrow> reader \<Rightarrow> IoError + bytes \<times> reader" where
  "retry_read n r =
     (case raw_read n r of
        (WasInterrupted, r') \<Rightarrow> retry_read n r'
      | (Got bs, r') \<Rightarrow> Ok (bs, r')
      | (Failed e, r') \<Rightarrow> Err e)"
  by pat_completeness auto

lemma raw_read_interrupted_shorter:
  "(WasInterrupted, r') = raw_read n r \<Longrightarrow> length r' < length r"
  by (cases "(n, r)" rule: raw_read.cases) (auto split: if_splits)

termination retry_read
  by (relation "measure (\<lambda>(n, r). length r)") (auto dest: raw_read_interrupted_shorter)

text \<open>\<open>Read::read_exact\<close> over it.\<close>

function read_exact :: "nat \<Rightarrow> reader \<Rightarrow> IoError + bytes \<times> reader" where
  "read_exact n r =
     (if n = 0 then Ok ([], r)
      else case retry_read n r of
             Inl e \<Rightarrow> Err e
           | Inr (bs, r') \<Rightarrow>
               (if bs = [] then Err UnexpectedEof
                else bindR (read_exact (n - length bs) r') (\<lambda>(cs, r''). Ok (bs @ cs, r''))))"
  by pat_completeness auto
termination
  by (relation "measure (\<lambda>(n, r). n)") auto

declare retry_read.simps [simp del] read_exact.simps [simp del]

subsection \<open>Data of the decoder\<close>

definition CHUNK_SIZE :: nat where
  "CHUNK_SIZE = 64 * 1024"

definition TOKEN_LIMIT :: nat where
  "TOKEN_LIMIT = 256"

text \<open>The supported targets are 64-bit.\<close>

definition usize_max :: nat where
  "usize_max = u64_max"

datatype RootKind = Directory | Regular | Symlink

record Limits =
  max_depth :: nat
  max_name_bytes :: nat
  max_symlink_target_bytes :: nat
  max_entries :: nat
  max_file_bytes :: nat
  max_total_bytes :: nat
  max_work :: nat

definition default_limits :: Limits where
  "default_limits =
     \<lparr>max_depth = 1024, max_name_bytes = 1024 * 1024, max_symlink_target_bytes = 1024 * 1024,
      max_entries = 10000000, max_file_bytes = 64 * 1024 * 1024 * 1024,
      max_total_bytes = 128 * 1024 * 1024 * 1024, max_work = 2 ^ 34\<rparr>"

text \<open>\<open>Invalid(String)\<close>: a fixed message, or the message of \<open>expect\<close> with its two tokens.\<close>

datatype InvalidMessage = Message string | ExpectedToken bytes bytes

datatype 'e DecodeError =
    Io IoError
  | Sink 'e
  | Invalid InvalidMessage
  | NonCanonical string
  | LimitExceeded string nat nat \<comment> \<open>what, limit, actual\<close>

datatype Event =
    EvBeginDirectory nat
  | EvEntry bytes
  | EvBeginFile bool nat nat \<comment> \<open>executable, size, offset\<close>
  | EvFileChunk bytes
  | EvEndFile
  | EvSymlink bytes
  | EvEndDirectory

record Counters =
  c_entries :: nat
  c_files :: nat
  c_symlinks :: nat

record DecodeSummary =
  ds_root :: RootKind
  ds_raw_size :: nat
  ds_raw_sha256 :: bytes
  ds_entries :: nat
  ds_files :: nat
  ds_symlinks :: nat

record DirectoryNames =
  previous :: bytes
  incoming :: bytes

datatype DirectoryEnd = EndRoot | EndEntry

record DirectoryFrame =
  names :: DirectoryNames
  frame_end :: DirectoryEnd

text \<open>The mutable state during a decode: the decoder's own fields, the counters and the sink.\<close>

record 's Decoder =
  reader :: reader
  digest :: bytes
  raw_bytes :: nat
  work :: nat
  symlink_target :: bytes
  counters :: Counters
  sink_state :: 's

text \<open>What stays fixed: the limits, the sink, the allocator's answers.\<close>

record ('s, 'e) decode_env =
  limits :: Limits
  sink :: "'s \<Rightarrow> Event \<Rightarrow> 'e + 's"
  can_reserve :: "nat \<Rightarrow> bool"

type_synonym ('s, 'e, 'a) dec = "('s Decoder, 'e DecodeError, 'a) step"

definition with_limits :: "reader \<Rightarrow> 's \<Rightarrow> 's Decoder" where
  "with_limits r k =
     \<lparr>reader = r, digest = [], raw_bytes = 0, work = 0, symlink_target = [],
      counters = \<lparr>c_entries = 0, c_files = 0, c_symlinks = 0\<rparr>, sink_state = k\<rparr>"

definition new_frame :: "DirectoryEnd \<Rightarrow> DirectoryFrame" where
  "new_frame e = \<lparr>names = \<lparr>previous = [], incoming = []\<rparr>, frame_end = e\<rparr>"

definition accept_ordered_name :: "DirectoryNames \<Rightarrow> 'e DecodeError + bytes \<times> DirectoryNames" where
  "accept_ordered_name ns =
     (if previous ns \<ge> incoming ns
      then Err (NonCanonical ''directory entries are not strictly ordered'')
      else Ok (incoming ns, \<lparr>previous = incoming ns, incoming = []\<rparr>))"

subsection \<open>Reading with limits\<close>

definition checked_raw_byte_count :: "nat \<Rightarrow> nat \<Rightarrow> Limits \<Rightarrow> 'e DecodeError + nat" where
  "checked_raw_byte_count raw requested l =
     (case checked_add_u64 raw requested of
        None \<Rightarrow> Err (LimitExceeded ''raw size'' (max_total_bytes l) u64_max)
      | Some nxt \<Rightarrow>
          (if nxt > max_total_bytes l
           then Err (LimitExceeded ''raw size'' (max_total_bytes l) nxt)
           else Ok nxt))"

definition read_hashed_limited_bytes :: "('s, 'e) decode_env \<Rightarrow> nat \<Rightarrow> ('s, 'e, bytes) dec" where
  "read_hashed_limited_bytes env n s =
     bindR (checked_raw_byte_count (raw_bytes s) n (limits env)) (\<lambda>nxt.
       case read_exact n (reader s) of
         Inl e \<Rightarrow> Err (Io e)
       | Inr (buffer, r) \<Rightarrow>
           Ok (buffer, s\<lparr>reader := r, digest := digest s @ buffer, raw_bytes := nxt\<rparr>))"

definition emit :: "('s, 'e) decode_env \<Rightarrow> Event \<Rightarrow> ('s, 'e, unit) dec" where
  "emit env ev s =
     (case sink env (sink_state s) ev of
        Inl e \<Rightarrow> Err (Sink e)
      | Inr k \<Rightarrow> Ok ((), s\<lparr>sink_state := k\<rparr>))"

definition bump_work :: "('s, 'e) decode_env \<Rightarrow> ('s, 'e, unit) dec" where
  "bump_work env s =
     (let w = saturating_add_u64 (work s) 1 in
      if w > max_work (limits env)
      then Err (LimitExceeded ''work'' (max_work (limits env)) w)
      else Ok ((), s\<lparr>work := w\<rparr>))"

definition read_raw :: "('s, 'e) decode_env \<Rightarrow> nat \<Rightarrow> ('s, 'e, bytes) dec" where
  "read_raw env n = read_hashed_limited_bytes env n"

definition read_u64 :: "('s, 'e) decode_env \<Rightarrow> ('s, 'e, nat) dec" where
  "read_u64 env = bindS (read_raw env 8) (\<lambda>bs. retS (u64_from_le_bytes bs))"

text \<open>The number of zero bytes after a string of the given length.\<close>

definition padding_len :: "nat \<Rightarrow> nat" where
  "padding_len n = (8 - n mod 8) mod 8"

definition read_bounded_string_length :: "('s, 'e) decode_env \<Rightarrow> nat \<Rightarrow> ('s, 'e, nat) dec" where
  "read_bounded_string_length env mx =
     bindS (read_u64 env) (\<lambda>len.
       if len > mx then failS (LimitExceeded ''string length'' mx len)
       else
         bindS (getS raw_bytes) (\<lambda>raw.
         bindS (liftS (checked_raw_byte_count raw (saturating_add_u64 len (padding_len len)) (limits env))) (\<lambda>_.
         if len \<le> usize_max then retS len
         else failS (Invalid (Message ''string does not fit in memory'')))))"

definition read_padding :: "('s, 'e) decode_env \<Rightarrow> nat \<Rightarrow> ('s, 'e, unit) dec" where
  "read_padding env len =
     (if padding_len len = 0 then retS ()
      else bindS (read_raw env (padding_len len)) (\<lambda>bs.
        if \<exists>b \<in> set bs. b \<noteq> 0 then failS (NonCanonical ''non-zero string padding'')
        else retS ()))"

definition read_control_token :: "('s, 'e) decode_env \<Rightarrow> ('s, 'e, bytes) dec" where
  "read_control_token env =
     bindS (read_bounded_string_length env TOKEN_LIMIT) (\<lambda>len.
     bindS (read_hashed_limited_bytes env len) (\<lambda>token.
     bindS (read_padding env len) (\<lambda>_.
     retS token)))"

definition expect :: "('s, 'e) decode_env \<Rightarrow> bytes \<Rightarrow> ('s, 'e, unit) dec" where
  "expect env expected =
     bindS (read_control_token env) (\<lambda>actual.
       if actual = expected then retS ()
       else failS (Invalid (ExpectedToken expected actual)))"

definition allocation_error :: "'e DecodeError" where
  "allocation_error = Io OutOfMemory"

text \<open>\<open>resize_metadata_buffer\<close> on a buffer of the given length: only the reservation can fail.\<close>

definition resize_metadata_buffer :: "('s, 'e) decode_env \<Rightarrow> nat \<Rightarrow> nat \<Rightarrow> 'e DecodeError + unit" where
  "resize_metadata_buffer env current len =
     (if can_reserve env (len - current) then Ok () else Err allocation_error)"

definition read_string_into ::
  "('s, 'e) decode_env \<Rightarrow> nat \<Rightarrow> bytes \<Rightarrow> ('s, 'e, bytes) dec" where
  "read_string_into env mx buffer =
     bindS (read_bounded_string_length env mx) (\<lambda>len.
     bindS (liftS (resize_metadata_buffer env (length buffer) len)) (\<lambda>_.
     bindS (read_raw env len) (\<lambda>bs.
     bindS (read_padding env len) (\<lambda>_.
     retS bs))))"

subsection \<open>Nodes\<close>

definition valid_entry_name :: "bytes \<Rightarrow> bool" where
  "valid_entry_name name \<longleftrightarrow>
     \<not> (name = [] \<or> name = ascii ''.'' \<or> name = ascii ''..'' \<or>
        of_char (CHR ''/'') \<in> set name \<or> 0 \<in> set name)"

definition validate_name :: "bytes \<Rightarrow> 'e DecodeError + unit" where
  "validate_name name =
     (if \<not> valid_entry_name name then Err (NonCanonical ''invalid directory entry name'') else Ok ())"

definition validate_symlink_target :: "bytes \<Rightarrow> string + unit" where
  "validate_symlink_target target =
     (if target = [] then Err ''symlink target is empty''
      else if 0 \<in> set target then Err ''symlink target contains NUL''
      else Ok ())"

definition read_node_kind :: "('s, 'e) decode_env \<Rightarrow> ('s, 'e, RootKind) dec" where
  "read_node_kind env =
     bindS (expect env (ascii ''('')) (\<lambda>_.
     bindS (expect env (ascii ''type'')) (\<lambda>_.
     bindS (read_control_token env) (\<lambda>token.
       if token = ascii ''directory'' then retS Directory
       else if token = ascii ''regular'' then retS Regular
       else if token = ascii ''symlink'' then retS Symlink
       else failS (Invalid (Message ''unknown NAR node type'')))))"

definition read_regular_file_executable_flag :: "('s, 'e) decode_env \<Rightarrow> ('s, 'e, bool) dec" where
  "read_regular_file_executable_flag env =
     bindS (read_control_token env) (\<lambda>field.
       if field = ascii ''contents'' then retS False
       else if field \<noteq> ascii ''executable''
       then failS (Invalid (Message ''regular contents expected''))
       else bindS (read_control_token env) (\<lambda>marker.
         if marker \<noteq> [] then failS (NonCanonical ''the executable marker must have an empty value'')
         else bindS (expect env (ascii ''contents'')) (\<lambda>_. retS True)))"

definition read_file_chunk :: "('s, 'e) decode_env \<Rightarrow> nat \<Rightarrow> ('s, 'e, unit) dec" where
  "read_file_chunk env len =
     bindS (read_hashed_limited_bytes env len) (\<lambda>chunk. emit env (EvFileChunk chunk))"

text \<open>\<open>(0..sz).step_by(CHUNK_SIZE).try_for_each(..)\<close> from a given offset.\<close>

function stream_chunks :: "('s, 'e) decode_env \<Rightarrow> nat \<Rightarrow> nat \<Rightarrow> ('s, 'e, unit) dec" where
  "stream_chunks env offset sz =
     (if offset < sz
      then bindS (read_file_chunk env (min (sz - offset) CHUNK_SIZE))
             (\<lambda>_. stream_chunks env (offset + CHUNK_SIZE) sz)
      else retS ())"
  by pat_completeness auto
termination
  by (relation "measure (\<lambda>(env, offset, sz). sz - offset)") (auto simp: CHUNK_SIZE_def)

declare stream_chunks.simps [simp del]

definition stream_file_contents :: "('s, 'e) decode_env \<Rightarrow> nat \<Rightarrow> ('s, 'e, unit) dec" where
  "stream_file_contents env sz =
     bindS (stream_chunks env 0 sz) (\<lambda>_. read_padding env sz)"

definition decode_regular_file_node :: "('s, 'e) decode_env \<Rightarrow> ('s, 'e, RootKind) dec" where
  "decode_regular_file_node env =
     bindS (read_regular_file_executable_flag env) (\<lambda>executable.
     bindS (read_u64 env) (\<lambda>sz.
       if sz > max_file_bytes (limits env)
       then failS (LimitExceeded ''file size'' (max_file_bytes (limits env)) sz)
       else
         bindS (getS raw_bytes) (\<lambda>offset.
         bindS (emit env (EvBeginFile executable sz offset)) (\<lambda>_.
         bindS (stream_file_contents env sz) (\<lambda>_.
         bindS (emit env EvEndFile) (\<lambda>_.
         bindS (expect env (ascii '')'')) (\<lambda>_.
         bindS (modifyS (\<lambda>s. s\<lparr>counters := (counters s)\<lparr>c_files := saturating_add_u64 (c_files (counters s)) 1\<rparr>\<rparr>)) (\<lambda>_.
         retS Regular))))))))"

definition read_symlink_target :: "('s, 'e) decode_env \<Rightarrow> ('s, 'e, unit) dec" where
  "read_symlink_target env =
     bindS (expect env (ascii ''target'')) (\<lambda>_.
     bindS (read_bounded_string_length env (max_symlink_target_bytes (limits env))) (\<lambda>len.
     bindS (getS (\<lambda>s. length (symlink_target s))) (\<lambda>current.
     bindS (liftS (resize_metadata_buffer env current len)) (\<lambda>_.
     bindS (read_hashed_limited_bytes env len) (\<lambda>target.
     bindS (modifyS (\<lambda>s. s\<lparr>symlink_target := target\<rparr>)) (\<lambda>_.
     bindS (read_padding env len) (\<lambda>_.
       case validate_symlink_target target of
         Inl e \<Rightarrow> failS (NonCanonical e)
       | Inr _ \<Rightarrow> retS ())))))))"

definition decode_symlink_node :: "('s, 'e) decode_env \<Rightarrow> ('s, 'e, RootKind) dec" where
  "decode_symlink_node env =
     bindS (read_symlink_target env) (\<lambda>_.
     bindS (getS symlink_target) (\<lambda>target.
     bindS (emit env (EvSymlink target)) (\<lambda>_.
     bindS (expect env (ascii '')'')) (\<lambda>_.
     bindS (modifyS (\<lambda>s. s\<lparr>counters := (counters s)\<lparr>c_symlinks := saturating_add_u64 (c_symlinks (counters s)) 1\<rparr>\<rparr>)) (\<lambda>_.
     retS Symlink)))))"

definition decode_node :: "('s, 'e) decode_env \<Rightarrow> nat \<Rightarrow> ('s, 'e, RootKind) dec" where
  "decode_node env depth =
     bindS (bump_work env) (\<lambda>_.
       if depth > max_depth (limits env)
       then failS (LimitExceeded ''directory depth'' (max_depth (limits env)) depth)
       else bindS (read_node_kind env) (\<lambda>kind.
         case kind of
           Directory \<Rightarrow> bindS (emit env (EvBeginDirectory depth)) (\<lambda>_. retS Directory)
         | Regular \<Rightarrow> decode_regular_file_node env
         | Symlink \<Rightarrow> decode_symlink_node env))"

subsection \<open>Directories\<close>

text \<open>\<open>counters.entries.checked_add(1)\<close> with the limit check.\<close>

definition count_entry :: "('s, 'e) decode_env \<Rightarrow> ('s, 'e, unit) dec" where
  "count_entry env s =
     (case checked_add_u64 (c_entries (counters s)) 1 of
        None \<Rightarrow> Err (LimitExceeded ''entry count'' (max_entries (limits env)) u64_max)
      | Some n \<Rightarrow>
          (if n > max_entries (limits env)
           then Err (LimitExceeded ''entry count'' (max_entries (limits env)) n)
           else Ok ((), s\<lparr>counters := (counters s)\<lparr>c_entries := n\<rparr>\<rparr>)))"

definition read_next_directory_entry_name ::
  "('s, 'e) decode_env \<Rightarrow> DirectoryNames \<Rightarrow> ('s, 'e, bytes option \<times> DirectoryNames) dec" where
  "read_next_directory_entry_name env ns =
     bindS (bump_work env) (\<lambda>_.
     bindS (read_control_token env) (\<lambda>entry_kind.
       if entry_kind = ascii '')'' then retS (None, ns)
       else if entry_kind \<noteq> ascii ''entry''
       then failS (Invalid (Message ''directory entry expected''))
       else
         bindS (count_entry env) (\<lambda>_.
         bindS (expect env (ascii ''('')) (\<lambda>_.
         bindS (expect env (ascii ''name'')) (\<lambda>_.
         bindS (read_string_into env (max_name_bytes (limits env)) (incoming ns)) (\<lambda>bs.
         bindS (liftS (validate_name bs)) (\<lambda>_.
         bindS (liftS (accept_ordered_name (ns\<lparr>incoming := bs\<rparr>))) (\<lambda>(name, ns').
         retS (Some name, ns')))))))))"

definition finish_directory :: "('s, 'e) decode_env \<Rightarrow> DirectoryEnd \<Rightarrow> ('s, 'e, unit) dec" where
  "finish_directory env e =
     bindS (emit env EvEndDirectory) (\<lambda>_.
       case e of EndRoot \<Rightarrow> retS () | EndEntry \<Rightarrow> expect env (ascii '')''))"

text \<open>The stack \<open>parents\<close> is a list with the top first.\<close>

type_synonym frames = "DirectoryFrame list"

definition decode_child_node ::
  "('s, 'e) decode_env \<Rightarrow> DirectoryFrame \<Rightarrow> frames \<Rightarrow> ('s, 'e, DirectoryFrame option \<times> frames) dec" where
  "decode_child_node env parent parents =
     bindS (decode_node env (length parents + 1)) (\<lambda>kind.
       case kind of
         Directory \<Rightarrow>
           (if can_reserve env 1
            then retS (Some (new_frame EndEntry), parent # parents)
            else failS allocation_error)
       | _ \<Rightarrow> bindS (expect env (ascii '')'')) (\<lambda>_. retS (Some parent, parents)))"

definition decode_directory_child_or_end ::
  "('s, 'e) decode_env \<Rightarrow> DirectoryFrame \<Rightarrow> frames \<Rightarrow> ('s, 'e, DirectoryFrame option \<times> frames) dec" where
  "decode_directory_child_or_end env frame parents =
     bindS (read_next_directory_entry_name env (names frame)) (\<lambda>(entry, ns).
       case entry of
         Some name \<Rightarrow>
           bindS (emit env (EvEntry name)) (\<lambda>_.
           bindS (expect env (ascii ''node'')) (\<lambda>_.
           decode_child_node env (frame\<lparr>names := ns\<rparr>) parents))
       | None \<Rightarrow>
           bindS (finish_directory env (frame_end frame)) (\<lambda>_.
           case parents of
             [] \<Rightarrow> retS (None, [])
           | p # ps \<Rightarrow> retS (Some p, ps)))"

subsection \<open>What a reader still holds\<close>

text \<open>The bytes a reader delivers before its end of file or fault, and that fault.\<close>

fun reader_bytes :: "reader \<Rightarrow> bytes" where
  "reader_bytes [] = []"
| "reader_bytes (Data bs # r) = (if bs = [] then [] else bs @ reader_bytes r)"
| "reader_bytes (Interrupted # r) = reader_bytes r"
| "reader_bytes (Fault e # r) = []"

fun reader_fault :: "reader \<Rightarrow> IoError option" where
  "reader_fault [] = None"
| "reader_fault (Data bs # r) = (if bs = [] then None else reader_fault r)"
| "reader_fault (Interrupted # r) = reader_fault r"
| "reader_fault (Fault e # r) = Some e"

abbreviation pending :: "'s Decoder \<Rightarrow> bytes" where
  "pending s \<equiv> reader_bytes (reader s)"

lemma retry_read_simps [simp]:
  "retry_read n [] = Inr ([], [])"
  "retry_read n (Data bs # r) =
     Inr (if length bs \<le> n then (bs, r) else (take n bs, Data (drop n bs) # r))"
  "retry_read n (Interrupted # r) = retry_read n r"
  "retry_read n (Fault e # r) = Inl e"
  by (subst retry_read.simps; simp)+

lemma retry_read_Inr:
  "retry_read n r = Inr (bs, r') \<Longrightarrow> 0 < n \<Longrightarrow>
   reader_bytes r = bs @ (if bs = [] then [] else reader_bytes r') \<and> length bs \<le> n \<and>
   reader_fault r = (if bs = [] then None else reader_fault r')"
proof (induction r)
  case Nil
  then show ?case by simp
next
  case (Cons a r)
  then show ?case by (cases a) (auto split: if_splits)
qed

lemma retry_read_Inl:
  "retry_read n r = Inl e \<Longrightarrow> reader_bytes r = [] \<and> reader_fault r = Some e"
proof (induction r)
  case Nil
  then show ?case by simp
next
  case (Cons a r)
  then show ?case by (cases a) auto
qed

text \<open>\<open>read_exact\<close> depends only on the bytes the reader still holds and its fault: short reads and
  interruptions do not matter.\<close>

lemma read_exact_enough:
  "n \<le> length (reader_bytes r) \<Longrightarrow>
   \<exists>r'. read_exact n r = Inr (take n (reader_bytes r), r') \<and>
     reader_bytes r' = drop n (reader_bytes r) \<and> reader_fault r' = reader_fault r"
proof (induction n r rule: read_exact.induct)
  case (1 n r)
  show ?case
  proof (cases "n = 0")
    case True
    then show ?thesis by (simp add: read_exact.simps)
  next
    case False
    show ?thesis
    proof (cases "retry_read n r")
      case (Inl e)
      then have "reader_bytes r = []" using retry_read_Inl by blast
      with "1.prems" False show ?thesis by simp
    next
      case (Inr p)
      obtain bs r1 where p: "p = (bs, r1)" by (cases p)
      note rd = retry_read_Inr [OF Inr [unfolded p]]
      have ne: "bs \<noteq> []" using rd False "1.prems" by auto
      then have b: "reader_bytes r = bs @ reader_bytes r1" "length bs \<le> n"
        "reader_fault r = reader_fault r1"
        using rd False by auto
      have "n - length bs \<le> length (reader_bytes r1)" using "1.prems" b by simp
      then obtain r' where
        "read_exact (n - length bs) r1 = Inr (take (n - length bs) (reader_bytes r1), r')"
        "reader_bytes r' = drop (n - length bs) (reader_bytes r1)"
        "reader_fault r' = reader_fault r1"
        using "1.IH" [OF False Inr [unfolded p] refl ne] by blast
      then show ?thesis
        using False Inr p ne b by (simp add: read_exact.simps [of n r])
    qed
  qed
qed

lemma read_exact_short:
  "length (reader_bytes r) < n \<Longrightarrow>
   read_exact n r = Inl (case reader_fault r of None \<Rightarrow> UnexpectedEof | Some e \<Rightarrow> e)"
proof (induction n r rule: read_exact.induct)
  case (1 n r)
  then have n: "n \<noteq> 0" by auto
  show ?case
  proof (cases "retry_read n r")
    case (Inl e)
    then show ?thesis using n retry_read_Inl [OF Inl] by (simp add: read_exact.simps [of n r])
  next
    case (Inr p)
    obtain bs r1 where p: "p = (bs, r1)" by (cases p)
    note rd = retry_read_Inr [OF Inr [unfolded p]]
    show ?thesis
    proof (cases "bs = []")
      case True
      then show ?thesis using rd n Inr p by (simp add: read_exact.simps [of n r])
    next
      case False
      have "length (reader_bytes r1) < n - length bs" using rd n False "1.prems" by auto
      then have "read_exact (n - length bs) r1 =
          Inl (case reader_fault r1 of None \<Rightarrow> UnexpectedEof | Some e \<Rightarrow> e)"
        using "1.IH" [OF n Inr [unfolded p] refl False] by blast
      then show ?thesis using n Inr p False rd by (simp add: read_exact.simps [of n r])
    qed
  qed
qed

lemma read_exact_Inr:
  assumes "read_exact n r = Inr (bs, r')"
  shows "reader_bytes r = bs @ reader_bytes r' \<and> length bs = n \<and> reader_fault r' = reader_fault r"
proof (cases "n \<le> length (reader_bytes r)")
  case True
  from read_exact_enough [OF this] assms True show ?thesis by auto
next
  case False
  with read_exact_short [of r n] assms show ?thesis by simp
qed

subsection \<open>The directory loop and the whole archive\<close>

lemma read_hashed_limited_bytes_pending:
  "read_hashed_limited_bytes env n s = Inr (bs, s') \<Longrightarrow> pending s = bs @ pending s' \<and> length bs = n"
  by (cases "read_exact n (reader s)")
    (auto simp: read_hashed_limited_bytes_def run_simps dest: read_exact_Inr)

definition shortens :: "('s, 'e, 'a) dec \<Rightarrow> bool" where
  "shortens m \<longleftrightarrow> (\<forall>s x s'. m s = Inr (x, s') \<longrightarrow> length (pending s') \<le> length (pending s))"

named_theorems shorten_rules \<open>steps that never lengthen the pending input\<close>

lemma shortensD: "shortens m \<Longrightarrow> m s = Inr (x, s') \<Longrightarrow> length (pending s') \<le> length (pending s)"
  by (auto simp: shortens_def)

lemma shortens_bindS [shorten_rules]:
  "shortens m \<Longrightarrow> (\<And>x. shortens (f x)) \<Longrightarrow> shortens (bindS m f)"
  unfolding shortens_def run_simps by (blast intro: order_trans)

lemma shortens_basic [shorten_rules]:
  "shortens (retS x)" "shortens (failS e)" "shortens (getS f)" "shortens (liftS r)"
  "shortens (modifyS (\<lambda>s. s\<lparr>counters := c s\<rparr>))" "shortens (modifyS (\<lambda>s. s\<lparr>symlink_target := t s\<rparr>))"
  by (auto simp: shortens_def run_simps)

lemma shortens_split [shorten_rules]:
  "shortens a \<Longrightarrow> shortens b \<Longrightarrow> shortens (if c then a else b)"
  "shortens a \<Longrightarrow> shortens b \<Longrightarrow> shortens d \<Longrightarrow> shortens (case k of Directory \<Rightarrow> a | Regular \<Rightarrow> b | Symlink \<Rightarrow> d)"
  "shortens a \<Longrightarrow> (\<And>x. shortens (f x)) \<Longrightarrow> shortens (case y of None \<Rightarrow> a | Some x \<Rightarrow> f x)"
  "(\<And>x. shortens (g x)) \<Longrightarrow> (\<And>x. shortens (g' x)) \<Longrightarrow> shortens (case z of Inl x \<Rightarrow> g x | Inr x \<Rightarrow> g' x)"
  "(\<And>x y. shortens (h x y)) \<Longrightarrow> shortens (case p of (x, y) \<Rightarrow> h x y)"
  "shortens a \<Longrightarrow> (\<And>x xs. shortens (h' x xs)) \<Longrightarrow> shortens (case l of [] \<Rightarrow> a | x # xs \<Rightarrow> h' x xs)"
  "shortens a \<Longrightarrow> shortens b \<Longrightarrow> shortens (case e of EndRoot \<Rightarrow> a | EndEntry \<Rightarrow> b)"
  by (auto split: RootKind.splits option.splits sum.splits prod.splits list.splits DirectoryEnd.splits)

lemma shortens_effects [shorten_rules]:
  "shortens (read_hashed_limited_bytes env n)" "shortens (read_raw env n)"
  "shortens (emit env ev)" "shortens (bump_work env)" "shortens (count_entry env)"
  by (auto simp: shortens_def read_raw_def emit_def bump_work_def count_entry_def Let_def
      dest: read_hashed_limited_bytes_pending split: sum.splits option.splits if_splits)

lemma shortens_tokens [shorten_rules]:
  "shortens (read_padding env n)" "shortens (read_control_token env)"
  "shortens (read_bounded_string_length env n)" "shortens (expect env t)"
  "shortens (read_string_into env n b)" "shortens (read_u64 env)"
  unfolding read_padding_def read_control_token_def read_bounded_string_length_def read_u64_def
    expect_def read_string_into_def
  by (intro shorten_rules)+

lemma shortens_chunks [shorten_rules]: "shortens (stream_chunks env offset sz)"
proof (induction env offset sz rule: stream_chunks.induct)
  case (1 env offset sz)
  then show ?case
    unfolding stream_chunks.simps [of env offset sz] read_file_chunk_def
    by (cases "offset < sz") (simp_all only: if_True if_False, (intro shorten_rules; simp)+)
qed

lemma shortens_decode_node [shorten_rules]: "shortens (decode_node env depth)"
  unfolding decode_node_def read_node_kind_def decode_regular_file_node_def
    read_regular_file_executable_flag_def stream_file_contents_def decode_symlink_node_def
    read_symlink_target_def
  by (intro shorten_rules)

text \<open>Every directory step reads a length word, so it strictly shortens the input.\<close>

definition consumes_input :: "('s, 'e, 'a) dec \<Rightarrow> bool" where
  "consumes_input m \<longleftrightarrow> (\<forall>s x s'. m s = Inr (x, s') \<longrightarrow> length (pending s') < length (pending s))"

lemma consumes_input_bindS:
  "consumes_input m \<Longrightarrow> (\<And>x. shortens (f x)) \<Longrightarrow> consumes_input (bindS m f)"
  "shortens m \<Longrightarrow> (\<And>x. consumes_input (f x)) \<Longrightarrow> consumes_input (bindS m f)"
  unfolding consumes_input_def shortens_def run_simps
  by (blast intro: le_less_trans order_less_le_trans)+

lemma consumes_input_read_raw: "0 < n \<Longrightarrow> consumes_input (read_raw env n)"
  by (auto simp: consumes_input_def read_raw_def dest: read_hashed_limited_bytes_pending)

lemma consumes_input_read_control_token: "consumes_input (read_control_token env)"
  unfolding read_control_token_def read_bounded_string_length_def read_u64_def
  by (intro consumes_input_bindS(1) consumes_input_read_raw shorten_rules) simp

lemma consumes_input_directory_step: "consumes_input (decode_directory_child_or_end env frame parents)"
  unfolding decode_directory_child_or_end_def read_next_directory_entry_name_def
    decode_child_node_def finish_directory_def
  by (rule consumes_input_bindS(1), rule consumes_input_bindS(2), rule shorten_rules,
      rule consumes_input_bindS(1), rule consumes_input_read_control_token)
    (intro shorten_rules)+

lemma decode_directory_child_or_end_shorter:
  "decode_directory_child_or_end env frame parents s = Inr (x, s') \<Longrightarrow>
   length (pending s') < length (pending s)"
  using consumes_input_directory_step unfolding consumes_input_def by blast

function decode_loop ::
  "('s, 'e) decode_env \<Rightarrow> DirectoryFrame \<Rightarrow> frames \<Rightarrow> 's Decoder \<Rightarrow> 'e DecodeError + unit \<times> 's Decoder" where
  "decode_loop env frame parents s =
     (case decode_directory_child_or_end env frame parents s of
        Inl e \<Rightarrow> Err e
      | Inr ((None, parents'), s') \<Rightarrow> Ok ((), s')
      | Inr ((Some frame', parents'), s') \<Rightarrow> decode_loop env frame' parents' s')"
  by pat_completeness auto
termination
  by (relation "measure (\<lambda>(env, frame, parents, s). length (pending s))")
    (auto dest: decode_directory_child_or_end_shorter)

declare decode_loop.simps [simp del]

definition decode_tree :: "('s, 'e) decode_env \<Rightarrow> ('s, 'e, RootKind) dec" where
  "decode_tree env =
     bindS (decode_node env 0) (\<lambda>root.
     bindS (case root of Directory \<Rightarrow> decode_loop env (new_frame EndRoot) [] | _ \<Rightarrow> retS ()) (\<lambda>_.
     retS root))"

text \<open>The final read of one byte: any byte is trailing input, a fault is an error.\<close>

definition check_trailing :: "('s, 'e, unit) dec" where
  "check_trailing s =
     (case retry_read 1 (reader s) of
        Inl e \<Rightarrow> Err (Io e)
      | Inr (bs, r) \<Rightarrow>
          (if bs \<noteq> [] then Err (Invalid (Message ''trailing bytes after root node''))
           else Ok ((), s\<lparr>reader := r\<rparr>)))"

definition decode ::
  "(bytes \<Rightarrow> bytes) \<Rightarrow> ('s, 'e) decode_env \<Rightarrow> reader \<Rightarrow> 's \<Rightarrow> 'e DecodeError + DecodeSummary \<times> 's" where
  "decode sha256 env r k =
     (case bindS (expect env (ascii ''nix-archive-1'')) (\<lambda>_.
           bindS (decode_tree env) (\<lambda>root.
           bindS check_trailing (\<lambda>_. retS root))) (with_limits r k) of
        Inl e \<Rightarrow> Err e
      | Inr (root, s) \<Rightarrow>
          Ok (\<lparr>ds_root = root, ds_raw_size = raw_bytes s, ds_raw_sha256 = sha256 (digest s),
               ds_entries = c_entries (counters s), ds_files = c_files (counters s),
               ds_symlinks = c_symlinks (counters s)\<rparr>, sink_state s))"

end
