(* ===== verification/Nar_Tree.thy ===== *)
theory Nar_Tree
  imports Nar_Decode
begin

section \<open>Archives as trees: the canonical encoding\<close>

text \<open>
  The abstract specification of the archive format, independent of the decoder's and encoder's
  control flow.  A \<open>Nar\<close> is a file system tree; \<open>nar_bytes\<close> is its one canonical encoding,
  \<open>nar_events\<close> the event sequence the decoder of \<open>src/src/nar.rs\<close> owes for it.  \<open>nar_ok\<close> collects
  what canonical archives satisfy (names valid and strictly ordered, link targets valid) together
  with the per-node limits; \<open>nar_entries\<close>, \<open>nar_files\<close>, \<open>nar_symlinks\<close> and \<open>nar_work\<close> count what
  the decoder counts.
\<close>

datatype Nar =
    NRegular bool bytes
  | NSymlink bytes
  | NDirectory "(bytes \<times> Nar) list"

subsection \<open>Canonical bytes\<close>

definition pad_zeros :: "nat \<Rightarrow> bytes" where
  "pad_zeros n = replicate (padding_len n) 0"

definition nar_str :: "bytes \<Rightarrow> bytes" where
  "nar_str bs = u64_to_le_bytes (length bs) @ bs @ pad_zeros (length bs)"

abbreviation tok :: "string \<Rightarrow> bytes" where
  "tok s \<equiv> nar_str (ascii s)"

definition regular_head :: "bool \<Rightarrow> bytes" where
  "regular_head executable =
     tok ''('' @ tok ''type'' @ tok ''regular'' @
     (if executable then tok ''executable'' @ tok '''' else []) @ tok ''contents''"

definition symlink_head :: bytes where
  "symlink_head = tok ''('' @ tok ''type'' @ tok ''symlink'' @ tok ''target''"

definition directory_head :: bytes where
  "directory_head = tok ''('' @ tok ''type'' @ tok ''directory''"

definition entry_head :: "bytes \<Rightarrow> bytes" where
  "entry_head name = tok ''entry'' @ tok ''('' @ tok ''name'' @ nar_str name @ tok ''node''"

fun node_bytes :: "Nar \<Rightarrow> bytes" and entries_bytes :: "(bytes \<times> Nar) list \<Rightarrow> bytes" where
  "node_bytes (NRegular x body) = regular_head x @ nar_str body @ tok '')''"
| "node_bytes (NSymlink target) = symlink_head @ nar_str target @ tok '')''"
| "node_bytes (NDirectory es) = directory_head @ entries_bytes es @ tok '')''"
| "entries_bytes [] = []"
| "entries_bytes ((name, t) # es) = entry_head name @ node_bytes t @ tok '')'' @ entries_bytes es"

definition nar_bytes :: "Nar \<Rightarrow> bytes" where
  "nar_bytes t = tok ''nix-archive-1'' @ node_bytes t"

subsection \<open>Events\<close>

text \<open>The pieces of a file body: full chunks and a shorter last one.\<close>

function chunks_of :: "bytes \<Rightarrow> bytes list" where
  "chunks_of body = (if body = [] then [] else take CHUNK_SIZE body # chunks_of (drop CHUNK_SIZE body))"
  by pat_completeness auto
termination
  by (relation "measure length") (auto simp: CHUNK_SIZE_def)

declare chunks_of.simps [simp del]

text \<open>The events of a node at a depth whose first byte is at an offset of the stream.\<close>

fun node_events :: "nat \<Rightarrow> nat \<Rightarrow> Nar \<Rightarrow> Event list"
  and entries_events :: "nat \<Rightarrow> nat \<Rightarrow> (bytes \<times> Nar) list \<Rightarrow> Event list" where
  "node_events d off (NRegular x body) =
     [EvBeginFile x (length body) (off + length (regular_head x) + 8)] @
     map EvFileChunk (chunks_of body) @ [EvEndFile]"
| "node_events d off (NSymlink target) = [EvSymlink target]"
| "node_events d off (NDirectory es) =
     [EvBeginDirectory d] @ entries_events (d + 1) (off + length directory_head) es @ [EvEndDirectory]"
| "entries_events d off [] = []"
| "entries_events d off ((name, t) # es) =
     [EvEntry name] @ node_events d (off + length (entry_head name)) t @
     entries_events d (off + length (entry_head name @ node_bytes t @ tok '')'')) es"

definition nar_events :: "Nar \<Rightarrow> Event list" where
  "nar_events t = node_events 0 (length (tok ''nix-archive-1'')) t"

subsection \<open>Well-formedness and measures\<close>

definition valid_target :: "bytes \<Rightarrow> bool" where
  "valid_target target \<longleftrightarrow> target \<noteq> [] \<and> 0 \<notin> set target"

fun node_ok :: "Limits \<Rightarrow> nat \<Rightarrow> Nar \<Rightarrow> bool"
  and entries_ok :: "Limits \<Rightarrow> nat \<Rightarrow> bytes \<Rightarrow> (bytes \<times> Nar) list \<Rightarrow> bool" where
  "node_ok l d (NRegular x body) \<longleftrightarrow> d \<le> max_depth l \<and> length body \<le> max_file_bytes l"
| "node_ok l d (NSymlink target) \<longleftrightarrow>
     d \<le> max_depth l \<and> valid_target target \<and> length target \<le> max_symlink_target_bytes l"
| "node_ok l d (NDirectory es) \<longleftrightarrow> d \<le> max_depth l \<and> entries_ok l (d + 1) [] es"
| "entries_ok l d prev [] \<longleftrightarrow> True"
| "entries_ok l d prev ((name, t) # es) \<longleftrightarrow>
     valid_entry_name name \<and> prev < name \<and> length name \<le> max_name_bytes l \<and>
     node_ok l d t \<and> entries_ok l d name es"

definition nar_ok :: "Limits \<Rightarrow> Nar \<Rightarrow> bool" where
  "nar_ok l t \<longleftrightarrow> node_ok l 0 t"

fun nar_entries :: "Nar \<Rightarrow> nat" and list_entries :: "(bytes \<times> Nar) list \<Rightarrow> nat" where
  "nar_entries (NRegular x body) = 0"
| "nar_entries (NSymlink target) = 0"
| "nar_entries (NDirectory es) = list_entries es"
| "list_entries [] = 0"
| "list_entries ((name, t) # es) = 1 + nar_entries t + list_entries es"

fun nar_files :: "Nar \<Rightarrow> nat" and list_files :: "(bytes \<times> Nar) list \<Rightarrow> nat" where
  "nar_files (NRegular x body) = 1"
| "nar_files (NSymlink target) = 0"
| "nar_files (NDirectory es) = list_files es"
| "list_files [] = 0"
| "list_files ((name, t) # es) = nar_files t + list_files es"

fun nar_symlinks :: "Nar \<Rightarrow> nat" and list_symlinks :: "(bytes \<times> Nar) list \<Rightarrow> nat" where
  "nar_symlinks (NRegular x body) = 0"
| "nar_symlinks (NSymlink target) = 1"
| "nar_symlinks (NDirectory es) = list_symlinks es"
| "list_symlinks [] = 0"
| "list_symlinks ((name, t) # es) = nar_symlinks t + list_symlinks es"

text \<open>Work units: one per node, one per directory entry, one per directory end.\<close>

fun nar_work :: "Nar \<Rightarrow> nat" and list_work :: "(bytes \<times> Nar) list \<Rightarrow> nat" where
  "nar_work (NRegular x body) = 1"
| "nar_work (NSymlink target) = 1"
| "nar_work (NDirectory es) = 1 + list_work es + 1"
| "list_work [] = 0"
| "list_work ((name, t) # es) = 1 + nar_work t + list_work es"

fun nar_kind :: "Nar \<Rightarrow> RootKind" where
  "nar_kind (NRegular x body) = Regular"
| "nar_kind (NSymlink target) = Symlink"
| "nar_kind (NDirectory es) = Directory"

text \<open>The byte bound a limit and a 64-bit counter give together; limits that are \<open>u64\<close> values.\<close>

definition total_cap :: "Limits \<Rightarrow> nat" where
  "total_cap l = min (max_total_bytes l) u64_max"

definition limits_u64 :: "Limits \<Rightarrow> bool" where
  "limits_u64 l \<longleftrightarrow>
     max_depth l \<le> u64_max \<and> max_name_bytes l \<le> u64_max \<and> max_symlink_target_bytes l \<le> u64_max \<and>
     max_entries l \<le> u64_max \<and> max_file_bytes l \<le> u64_max \<and> max_total_bytes l \<le> u64_max \<and>
     max_work l \<le> u64_max"

subsection \<open>Facts\<close>

lemma length_nar_str: "length (nar_str bs) = 8 + length bs + padding_len (length bs)"
  by (simp add: nar_str_def pad_zeros_def)

lemma length_nar_str_ge: "8 \<le> length (nar_str bs)"
  by (simp add: length_nar_str)

lemma padding_len_less: "padding_len n < 8"
  by (simp add: padding_len_def)

lemma chunks_of_Nil [simp]: "chunks_of [] = []"
  by (simp add: chunks_of.simps)

lemma concat_chunks_of: "concat (chunks_of body) = body"
proof (induction body rule: chunks_of.induct)
  case (1 body)
  then show ?case by (cases "body = []") (simp, simp add: chunks_of.simps [of body])
qed

lemma node_counts_le_bytes:
  "nar_files t \<le> length (node_bytes t) \<and> nar_symlinks t \<le> length (node_bytes t)"
  "list_files es \<le> length (entries_bytes es) \<and> list_symlinks es \<le> length (entries_bytes es)"
proof (induction t and es rule: node_bytes_entries_bytes.induct)
  case (1 x body)
  then show ?case by (simp add: length_nar_str)
next
  case (2 target)
  then show ?case by (simp add: length_nar_str)
qed auto

end
