(* ===== verification/Nar_Encode.thy ===== *)
theory Nar_Encode
  imports Nar_Tree
begin

section \<open>The streaming encoder\<close>

text \<open>
  The model of \<open>src/src/nar_encode.rs\<close>: an event-driven writer of canonical archives.  The state
  \<open>Encoder\<close> has the fields of the Rust struct: the writer, the hashed bytes, the output size, the state of the
  root, the stack of open nodes (a list with the top first) and the counters; limits and the writer's
  \<open>write_all\<close> are in \<open>encode_env\<close>.  An error ends the attempt, as the source's documentation demands, so a
  failed step carries no state.
\<close>

definition ENCODER_VERSION :: nat where
  "ENCODER_VERSION = 1"

text \<open>The variants of the source's error, and a panic for its \<open>unreachable!\<close> branches.\<close>

datatype EncodeError =
    EncodeIo IoError
  | EncodeInvalid string
  | EncodeNonCanonical string
  | EncodeLimitExceeded string nat nat
  | EncodePanic string

datatype EncEvent =
    BeginDirectory
  | Entry bytes
  | BeginFile bool nat
  | FileChunk bytes
  | EndFile
  | SymlinkTo bytes
  | EndDirectory

record EncodeSummary =
  es_version :: nat
  es_root :: RootKind
  es_raw_size :: nat
  es_raw_sha256 :: bytes
  es_entries :: nat
  es_files :: nat
  es_symlinks :: nat

datatype DirectoryState =
    Ready "bytes option"
  | ChildOpen bytes

datatype Node =
    NodeDirectory DirectoryState
  | NodeRegular nat nat

datatype RootState =
    Awaiting
  | RootOpen RootKind
  | Complete RootKind

record 'w Encoder =
  e_writer :: 'w
  e_digest :: bytes
  e_raw_size :: nat
  e_root :: RootState
  e_stack :: "Node list"
  e_entries :: nat
  e_files :: nat
  e_symlinks :: nat
  e_work :: nat

record 'w encode_env =
  e_limits :: Limits
  write_all :: "'w \<Rightarrow> bytes \<Rightarrow> IoError + 'w"

type_synonym ('w, 'a) enc = "('w Encoder, EncodeError, 'a) step"

subsection \<open>Writing\<close>

definition write_bytes :: "'w encode_env \<Rightarrow> bytes \<Rightarrow> ('w, unit) enc" where
  "write_bytes env bs s =
     (case checked_add_u64 (e_raw_size s) (length bs) of
        None \<Rightarrow> Err (EncodeLimitExceeded ''raw size'' (max_total_bytes (e_limits env)) u64_max)
      | Some nxt \<Rightarrow>
          (if nxt > max_total_bytes (e_limits env)
           then Err (EncodeLimitExceeded ''raw size'' (max_total_bytes (e_limits env)) nxt)
           else
             (case write_all env (e_writer s) bs of
                Inl e \<Rightarrow> Err (EncodeIo e)
              | Inr w \<Rightarrow> Ok ((), s\<lparr>e_writer := w, e_digest := e_digest s @ bs, e_raw_size := nxt\<rparr>))))"

definition write_u64 :: "'w encode_env \<Rightarrow> nat \<Rightarrow> ('w, unit) enc" where
  "write_u64 env v = write_bytes env (u64_to_le_bytes v)"

definition write_padding :: "'w encode_env \<Rightarrow> nat \<Rightarrow> ('w, unit) enc" where
  "write_padding env len = write_bytes env (take ((8 - len mod 8) mod 8) (replicate 8 0))"

definition write_string :: "'w encode_env \<Rightarrow> bytes \<Rightarrow> ('w, unit) enc" where
  "write_string env v =
     bindS (write_u64 env (length v)) (\<lambda>_.
     bindS (write_bytes env v) (\<lambda>_.
     write_padding env (length v)))"

definition encoder_with_limits :: "'w encode_env \<Rightarrow> 'w \<Rightarrow> EncodeError + 'w Encoder" where
  "encoder_with_limits env w =
     bindR (write_string env (ascii ''nix-archive-1'')
       \<lparr>e_writer = w, e_digest = [], e_raw_size = 0, e_root = Awaiting, e_stack = [],
        e_entries = 0, e_files = 0, e_symlinks = 0, e_work = 0\<rparr>) (\<lambda>(_, s). Ok s)"

subsection \<open>Opening and closing nodes\<close>

definition ensure_open :: "('w, unit) enc" where
  "ensure_open s =
     (case e_root s of
        Complete _ \<Rightarrow> Err (EncodeInvalid ''events follow the completed root'')
      | _ \<Rightarrow> Ok ((), s))"

definition encoder_bump_work :: "'w encode_env \<Rightarrow> ('w, unit) enc" where
  "encoder_bump_work env s =
     (let w = saturating_add_u64 (e_work s) 1 in
      if w > max_work (e_limits env)
      then Err (EncodeLimitExceeded ''work'' (max_work (e_limits env)) w)
      else Ok ((), s\<lparr>e_work := w\<rparr>))"

text \<open>The parent of a new node: the innermost open node, if any, must be a directory with an open child.\<close>

definition check_parent :: "('w, unit) enc" where
  "check_parent s =
     (case e_stack s of
        NodeDirectory (ChildOpen _) # _ \<Rightarrow> Ok ((), s)
      | NodeDirectory (Ready _) # _ \<Rightarrow> Err (EncodeInvalid ''node is not preceded by a directory entry'')
      | NodeRegular _ _ # _ \<Rightarrow> Err (EncodeInvalid ''node is nested under a regular file'')
      | [] \<Rightarrow> Ok ((), s))"

definition open_root :: "RootKind \<Rightarrow> ('w, unit) enc" where
  "open_root kind s =
     (if e_stack s = []
      then (case e_root s of
              Awaiting \<Rightarrow> Ok ((), s\<lparr>e_root := RootOpen kind\<rparr>)
            | RootOpen _ \<Rightarrow> Err (EncodeInvalid ''multiple root nodes'')
            | Complete _ \<Rightarrow> Err (EncodeInvalid ''events follow the completed root''))
      else Ok ((), s))"

definition begin_node :: "'w encode_env \<Rightarrow> RootKind \<Rightarrow> ('w, unit) enc" where
  "begin_node env kind =
     bindS ensure_open (\<lambda>_.
     bindS (getS (\<lambda>s. length (e_stack s))) (\<lambda>depth.
       if depth > max_depth (e_limits env)
       then failS (EncodeLimitExceeded ''directory depth'' (max_depth (e_limits env)) depth)
       else bindS check_parent (\<lambda>_. open_root kind)))"

definition push_node :: "Node \<Rightarrow> ('w, unit) enc" where
  "push_node n = modifyS (\<lambda>s. s\<lparr>e_stack := n # e_stack s\<rparr>)"

definition complete_root :: "('w, unit) enc" where
  "complete_root s =
     (case e_root s of
        RootOpen root \<Rightarrow> Ok ((), s\<lparr>e_root := Complete root\<rparr>)
      | _ \<Rightarrow> Err (EncodeInvalid ''the root node is incomplete''))"

definition mark_child_closed :: "('w, unit) enc" where
  "mark_child_closed s =
     (case e_stack s of
        NodeDirectory (ChildOpen name) # rest \<Rightarrow> Ok ((), s\<lparr>e_stack := NodeDirectory (Ready (Some name)) # rest\<rparr>)
      | NodeDirectory (Ready _) # _ \<Rightarrow> Err (EncodePanic ''validated parent has an open child'')
      | _ \<Rightarrow> Err (EncodePanic ''validated parent remains an open directory''))"

definition close_directory_entry :: "'w encode_env \<Rightarrow> ('w, unit) enc" where
  "close_directory_entry env = bindS (write_string env (ascii '')'')) (\<lambda>_. mark_child_closed)"

definition finish_parent :: "'w encode_env \<Rightarrow> ('w, unit) enc" where
  "finish_parent env s =
     (case e_stack s of
        NodeDirectory (ChildOpen _) # _ \<Rightarrow> close_directory_entry env s
      | NodeDirectory (Ready _) # _ \<Rightarrow> Err (EncodeInvalid ''completed node has no parent entry'')
      | NodeRegular _ _ # _ \<Rightarrow> Err (EncodeInvalid ''node is nested under a regular file'')
      | [] \<Rightarrow> complete_root s)"

definition finish_atomic :: "'w encode_env \<Rightarrow> ('w, unit) enc" where
  "finish_atomic env = bindS (write_string env (ascii '')'')) (\<lambda>_. finish_parent env)"

fun node_kind :: "Node \<Rightarrow> RootKind" where
  "node_kind (NodeDirectory _) = Directory"
| "node_kind (NodeRegular _ _) = Regular"

definition finish_node :: "'w encode_env \<Rightarrow> RootKind \<Rightarrow> ('w, unit) enc" where
  "finish_node env kind s =
     (case e_stack s of
        [] \<Rightarrow> Err (EncodeInvalid ''node end without a node'')
      | n # rest \<Rightarrow>
          (if node_kind n \<noteq> kind then Err (EncodeInvalid ''node end does not match the open node'')
           else bindS (write_string env (ascii '')'')) (\<lambda>_. finish_parent env) (s\<lparr>e_stack := rest\<rparr>)))"

subsection \<open>Events\<close>

definition begin_directory :: "'w encode_env \<Rightarrow> ('w, unit) enc" where
  "begin_directory env =
     bindS (begin_node env Directory) (\<lambda>_.
     bindS (write_string env (ascii ''('')) (\<lambda>_.
     bindS (write_string env (ascii ''type'')) (\<lambda>_.
     bindS (write_string env (ascii ''directory'')) (\<lambda>_.
     push_node (NodeDirectory (Ready None))))))"

text \<open>\<open>self.entries.checked_add(1)\<close> with its limit.\<close>

definition next_entries :: "'w encode_env \<Rightarrow> nat \<Rightarrow> EncodeError + nat" where
  "next_entries env n =
     (case checked_add_u64 n 1 of
        None \<Rightarrow> Err (EncodeLimitExceeded ''entry count'' (max_entries (e_limits env)) u64_max)
      | Some m \<Rightarrow>
          (if m > max_entries (e_limits env)
           then Err (EncodeLimitExceeded ''entry count'' (max_entries (e_limits env)) m) else Ok m))"

definition open_child :: "bytes \<Rightarrow> ('w, unit) enc" where
  "open_child name s =
     (case e_stack s of
        NodeDirectory (Ready last_name) # rest \<Rightarrow>
          (if (case last_name of None \<Rightarrow> False | Some prev \<Rightarrow> prev \<ge> name)
           then Err (EncodeNonCanonical ''directory entries are not strictly ordered'')
           else Ok ((), s\<lparr>e_stack := NodeDirectory (ChildOpen name) # rest\<rparr>))
      | NodeDirectory (ChildOpen _) # _ \<Rightarrow> Err (EncodeInvalid ''directory entry is missing its child'')
      | _ \<Rightarrow> Err (EncodeInvalid ''entry outside a directory''))"

definition entry :: "'w encode_env \<Rightarrow> bytes \<Rightarrow> ('w, unit) enc" where
  "entry env name =
     bindS ensure_open (\<lambda>_.
       if length name > max_name_bytes (e_limits env)
       then failS (EncodeLimitExceeded ''name length'' (max_name_bytes (e_limits env)) (length name))
       else
         bindS (getS e_entries) (\<lambda>n.
         bindS (liftS (next_entries env n)) (\<lambda>nxt.
           if \<not> valid_entry_name name then failS (EncodeNonCanonical ''invalid directory entry name'')
           else
             bindS (open_child name) (\<lambda>_.
             bindS (write_string env (ascii ''entry'')) (\<lambda>_.
             bindS (write_string env (ascii ''('')) (\<lambda>_.
             bindS (write_string env (ascii ''name'')) (\<lambda>_.
             bindS (write_string env name) (\<lambda>_.
             bindS (write_string env (ascii ''node'')) (\<lambda>_.
             modifyS (\<lambda>s. s\<lparr>e_entries := nxt\<rparr>))))))))))"

definition begin_file :: "'w encode_env \<Rightarrow> bool \<Rightarrow> nat \<Rightarrow> ('w, unit) enc" where
  "begin_file env executable sz =
     (if sz > max_file_bytes (e_limits env)
      then failS (EncodeLimitExceeded ''file size'' (max_file_bytes (e_limits env)) sz)
      else
        bindS (begin_node env Regular) (\<lambda>_.
        bindS (write_string env (ascii ''('')) (\<lambda>_.
        bindS (write_string env (ascii ''type'')) (\<lambda>_.
        bindS (write_string env (ascii ''regular'')) (\<lambda>_.
        bindS (if executable
               then bindS (write_string env (ascii ''executable'')) (\<lambda>_. write_string env (ascii ''''))
               else retS ()) (\<lambda>_.
        bindS (write_string env (ascii ''contents'')) (\<lambda>_.
        bindS (write_u64 env sz) (\<lambda>_.
        push_node (NodeRegular sz sz)))))))))"

definition reduce_remaining :: "nat \<Rightarrow> ('w, unit) enc" where
  "reduce_remaining n s =
     (case e_stack s of
        NodeRegular remaining sz # rest \<Rightarrow> Ok ((), s\<lparr>e_stack := NodeRegular (remaining - n) sz # rest\<rparr>)
      | _ \<Rightarrow> Err (EncodePanic ''file node remains open while writing a file chunk''))"

definition file_chunk :: "'w encode_env \<Rightarrow> bytes \<Rightarrow> ('w, unit) enc" where
  "file_chunk env chunk s =
     (case e_stack s of
        NodeRegular remaining _ # _ \<Rightarrow>
          (if length chunk > remaining
           then Err (EncodeInvalid ''file body is larger than its declared size'')
           else bindS (write_bytes env chunk) (\<lambda>_. reduce_remaining (length chunk)) s)
      | _ \<Rightarrow> Err (EncodeInvalid ''file chunk outside a regular node''))"

definition end_file :: "'w encode_env \<Rightarrow> ('w, unit) enc" where
  "end_file env s =
     (case e_stack s of
        NodeRegular remaining sz # _ \<Rightarrow>
          (if remaining \<noteq> 0
           then Err (EncodeInvalid ''file body is smaller than its declared size'')
           else
             bindS (write_padding env sz) (\<lambda>_.
             bindS (finish_node env Regular) (\<lambda>_.
             modifyS (\<lambda>s. s\<lparr>e_files := saturating_add_u64 (e_files s) 1\<rparr>))) s)
      | _ \<Rightarrow> Err (EncodeInvalid ''file end outside a regular node''))"

definition symlink :: "'w encode_env \<Rightarrow> bytes \<Rightarrow> ('w, unit) enc" where
  "symlink env target =
     (if length target > max_symlink_target_bytes (e_limits env)
      then failS (EncodeLimitExceeded ''symlink target length''
             (max_symlink_target_bytes (e_limits env)) (length target))
      else
        bindS (case validate_symlink_target target of
                 Inl e \<Rightarrow> failS (EncodeNonCanonical e) | Inr _ \<Rightarrow> retS ()) (\<lambda>_.
        bindS (begin_node env Symlink) (\<lambda>_.
        bindS (write_string env (ascii ''('')) (\<lambda>_.
        bindS (write_string env (ascii ''type'')) (\<lambda>_.
        bindS (write_string env (ascii ''symlink'')) (\<lambda>_.
        bindS (write_string env (ascii ''target'')) (\<lambda>_.
        bindS (write_string env target) (\<lambda>_.
        bindS (finish_atomic env) (\<lambda>_.
        modifyS (\<lambda>s. s\<lparr>e_symlinks := saturating_add_u64 (e_symlinks s) 1\<rparr>))))))))))"

definition end_directory :: "'w encode_env \<Rightarrow> ('w, unit) enc" where
  "end_directory env s =
     (case e_stack s of
        NodeDirectory (Ready _) # _ \<Rightarrow> finish_node env Directory s
      | _ \<Rightarrow> Err (EncodeInvalid ''directory end is outside a directory or has an open child''))"

definition push :: "'w encode_env \<Rightarrow> EncEvent \<Rightarrow> ('w, unit) enc" where
  "push env ev =
     bindS (encoder_bump_work env) (\<lambda>_.
       case ev of
         BeginDirectory \<Rightarrow> begin_directory env
       | Entry name \<Rightarrow> entry env name
       | BeginFile executable sz \<Rightarrow> begin_file env executable sz
       | FileChunk chunk \<Rightarrow> file_chunk env chunk
       | EndFile \<Rightarrow> end_file env
       | SymlinkTo target \<Rightarrow> symlink env target
       | EndDirectory \<Rightarrow> end_directory env)"

definition finish :: "(bytes \<Rightarrow> bytes) \<Rightarrow> 'w Encoder \<Rightarrow> EncodeError + 'w \<times> EncodeSummary" where
  "finish sha256 s =
     (case e_root s of
        Complete root \<Rightarrow>
          Ok (e_writer s,
            \<lparr>es_version = ENCODER_VERSION, es_root = root, es_raw_size = e_raw_size s,
             es_raw_sha256 = sha256 (e_digest s), es_entries = e_entries s, es_files = e_files s,
             es_symlinks = e_symlinks s\<rparr>)
      | _ \<Rightarrow> Err (EncodeInvalid ''the root node is incomplete''))"

text \<open>A whole encoding: create, push every event, finish.\<close>

definition push_all :: "'w encode_env \<Rightarrow> 'w Encoder \<Rightarrow> EncEvent list \<Rightarrow> EncodeError + 'w Encoder" where
  "push_all env = try_fold (\<lambda>s ev. bindR (push env ev s) (\<lambda>(_, s'). Ok s'))"

definition encode ::
  "(bytes \<Rightarrow> bytes) \<Rightarrow> 'w encode_env \<Rightarrow> 'w \<Rightarrow> EncEvent list \<Rightarrow> EncodeError + 'w \<times> EncodeSummary" where
  "encode sha256 env w evs =
     bindR (encoder_with_limits env w) (\<lambda>s. bindR (push_all env s evs) (finish sha256))"

end
