(* ===== verification/Nar_Builder.thy ===== *)
theory Nar_Builder
  imports Nar_Encode
begin

section \<open>The tree builder: what the encoder implements\<close>

text \<open>
  The abstract machine behind \<open>src/src/nar_encode.rs\<close>.  A \<open>progress\<close> is a tree under construction: nothing
  yet, a path of open nodes with what is already complete under each, or a finished tree.  \<open>advance\<close> says
  which events are legal and what they do, without bytes, counters or output.  \<open>spells t evs\<close> lists the event
  sequences of a tree (a file body may be cut into chunks at will); \<open>build_iff\<close> shows that the builder
  accepts exactly those.
\<close>

datatype open_node =
    OpenFile bool nat bytes
  | OpenDir "(bytes \<times> Nar) list" "bytes option"

datatype progress =
    Fresh
  | Building open_node "open_node list"
  | Done Nar

subsection \<open>Legal events\<close>

text \<open>The context of a new node: the path of open nodes, if a node may begin here.\<close>

fun node_context :: "progress \<Rightarrow> open_node list option" where
  "node_context Fresh = Some []"
| "node_context (Building (OpenDir es (Some name)) fs) = Some (OpenDir es (Some name) # fs)"
| "node_context _ = None"

definition begin_context :: "Limits \<Rightarrow> progress \<Rightarrow> open_node list option" where
  "begin_context l p =
     (case node_context p of
        None \<Rightarrow> None
      | Some fs \<Rightarrow> if length fs \<le> max_depth l then Some fs else None)"

fun close_node :: "open_node list \<Rightarrow> Nar \<Rightarrow> progress" where
  "close_node [] t = Done t"
| "close_node (OpenDir es (Some name) # fs) t = Building (OpenDir (es @ [(name, t)]) None) fs"
| "close_node (f # fs) t = Building f fs"

fun last_name :: "(bytes \<times> Nar) list \<Rightarrow> bytes" where
  "last_name es = (if es = [] then [] else fst (last es))"

fun open_entries :: "open_node \<Rightarrow> nat" where
  "open_entries (OpenFile x sz body) = 0"
| "open_entries (OpenDir es cur) = list_entries es + (if cur = None then 0 else 1)"

fun progress_entries :: "progress \<Rightarrow> nat" where
  "progress_entries Fresh = 0"
| "progress_entries (Building f fs) = sum_list (map open_entries (f # fs))"
| "progress_entries (Done t) = nar_entries t"

fun advance :: "Limits \<Rightarrow> progress \<Rightarrow> EncEvent \<Rightarrow> progress option" where
  "advance l p BeginDirectory = map_option (Building (OpenDir [] None)) (begin_context l p)"
| "advance l p (BeginFile x sz) =
     (if sz \<le> max_file_bytes l then map_option (Building (OpenFile x sz [])) (begin_context l p) else None)"
| "advance l p (SymlinkTo target) =
     (if valid_target target \<and> length target \<le> max_symlink_target_bytes l
      then map_option (\<lambda>fs. close_node fs (NSymlink target)) (begin_context l p) else None)"
| "advance l (Building (OpenDir es None) fs) (Entry name) =
     (if valid_entry_name name \<and> last_name es < name \<and> length name \<le> max_name_bytes l \<and>
         progress_entries (Building (OpenDir es None) fs) + 1 \<le> max_entries l
      then Some (Building (OpenDir es (Some name)) fs) else None)"
| "advance l (Building (OpenFile x sz body) fs) (FileChunk chunk) =
     (if length body + length chunk \<le> sz then Some (Building (OpenFile x sz (body @ chunk)) fs) else None)"
| "advance l (Building (OpenFile x sz body) fs) EndFile =
     (if length body = sz then Some (close_node fs (NRegular x body)) else None)"
| "advance l (Building (OpenDir es None) fs) EndDirectory = Some (close_node fs (NDirectory es))"
| "advance l p ev = None"

fun build :: "Limits \<Rightarrow> progress \<Rightarrow> EncEvent list \<Rightarrow> progress option" where
  "build l p [] = Some p"
| "build l p (ev # evs) = (case advance l p ev of None \<Rightarrow> None | Some p' \<Rightarrow> build l p' evs)"

subsection \<open>The event sequences of a tree\<close>

inductive spells :: "Nar \<Rightarrow> EncEvent list \<Rightarrow> bool"
  and entries_spell :: "(bytes \<times> Nar) list \<Rightarrow> EncEvent list \<Rightarrow> bool" where
  spells_file: "concat cs = body \<Longrightarrow> spells (NRegular x body) (BeginFile x (length body) # map FileChunk cs @ [EndFile])"
| spells_symlink: "spells (NSymlink target) [SymlinkTo target]"
| spells_directory: "entries_spell es evs \<Longrightarrow> spells (NDirectory es) (BeginDirectory # evs @ [EndDirectory])"
| spell_none: "entries_spell [] []"
| spell_snoc: "entries_spell es evs \<Longrightarrow> spells t tvs \<Longrightarrow> entries_spell (es @ [(name, t)]) (evs @ Entry name # tvs)"

lemma build_append: "build l p (xs @ ys) = (case build l p xs of None \<Rightarrow> None | Some p' \<Rightarrow> build l p' ys)"
  by (induction xs arbitrary: p) (auto split: option.splits)

text \<open>A path of open nodes is well formed: below the top every node is a directory with an open child.\<close>

fun parent_ok :: "open_node \<Rightarrow> bool" where
  "parent_ok (OpenDir es (Some name)) = True"
| "parent_ok _ = False"

lemma entries_ok_snoc:
  "entries_ok l d prev (es @ [(name, t)]) \<longleftrightarrow>
   entries_ok l d prev es \<and> valid_entry_name name \<and> (if es = [] then prev else fst (last es)) < name \<and>
   length name \<le> max_name_bytes l \<and> node_ok l d t"
proof (induction es arbitrary: prev)
  case (Cons e es)
  then show ?case by (cases e; cases es) auto
qed auto

lemma list_entries_append: "list_entries (es @ es') = list_entries es + list_entries es'"
proof (induction es)
  case (Cons e es)
  then show ?case by (cases e) simp
qed simp

subsection \<open>Every spelling of a tree is accepted\<close>

lemma node_context_entries: "node_context p = Some fs \<Longrightarrow> progress_entries p = sum_list (map open_entries fs)"
  by (cases p rule: node_context.cases) auto

lemma begin_context_ok: "node_context p = Some fs \<Longrightarrow> length fs \<le> max_depth l \<Longrightarrow> begin_context l p = Some fs"
  by (simp add: begin_context_def)

lemma build_chunks:
  "length body + length (concat cs) \<le> sz \<Longrightarrow>
   build l (Building (OpenFile x sz body) fs) (map FileChunk cs) = Some (Building (OpenFile x sz (body @ concat cs)) fs)"
  by (induction cs arbitrary: body) auto

lemma node_ok_depth: "node_ok l d t \<Longrightarrow> d \<le> max_depth l"
  by (cases t) auto

lemma build_spells:
  "spells t tvs \<Longrightarrow> node_context p = Some fs \<Longrightarrow> node_ok l (length fs) t \<Longrightarrow>
     progress_entries p + nar_entries t \<le> max_entries l \<Longrightarrow> build l p tvs = Some (close_node fs t)"
  "entries_spell es evs \<Longrightarrow> entries_ok l (length gs + 1) [] es \<Longrightarrow>
     sum_list (map open_entries gs) + list_entries es \<le> max_entries l \<Longrightarrow>
     build l (Building (OpenDir [] None) gs) evs = Some (Building (OpenDir es None) gs)"
proof (induction arbitrary: p fs and gs rule: spells_entries_spell.inducts)
  case (spells_file cs body x)
  then show ?case
    by (simp add: begin_context_ok build_append build_chunks)
next
  case (spells_symlink target)
  then show ?case by (simp add: begin_context_ok)
next
  case (spells_directory es evs)
  then show ?case
    using spells_directory.IH [of fs] by (simp add: begin_context_ok build_append node_context_entries)
next
  case spell_none
  then show ?case by simp
next
  case (spell_snoc es evs t tvs name)
  have ok: "entries_ok l (length gs + 1) [] es" "valid_entry_name name" "last_name es < name"
    "length name \<le> max_name_bytes l" "node_ok l (length gs + 1) t"
    using spell_snoc.prems(1) unfolding entries_ok_snoc by auto
  have n: "sum_list (map open_entries gs) + list_entries es + 1 + nar_entries t \<le> max_entries l"
    using spell_snoc.prems(2) by (simp add: list_entries_append)
  have "build l (Building (OpenDir [] None) gs) evs = Some (Building (OpenDir es None) gs)"
    using ok n by (intro spell_snoc.IH(1)) simp_all
  moreover have "advance l (Building (OpenDir es None) gs) (Entry name) = Some (Building (OpenDir es (Some name)) gs)"
    using ok n by simp
  moreover have "build l (Building (OpenDir es (Some name)) gs) tvs =
      Some (close_node (OpenDir es (Some name) # gs) t)"
    using ok n by (intro spell_snoc.IH(2)) simp_all
  ultimately show ?case by (simp add: build_append)
qed

subsection \<open>Only spellings of trees are accepted\<close>

fun open_ok :: "Limits \<Rightarrow> nat \<Rightarrow> open_node \<Rightarrow> bool" where
  "open_ok l d (OpenFile x sz body) \<longleftrightarrow> d \<le> max_depth l \<and> length body \<le> sz \<and> sz \<le> max_file_bytes l"
| "open_ok l d (OpenDir es cur) \<longleftrightarrow> d \<le> max_depth l \<and> entries_ok l (d + 1) [] es \<and>
     (case cur of None \<Rightarrow> True
      | Some name \<Rightarrow> valid_entry_name name \<and> last_name es < name \<and> length name \<le> max_name_bytes l)"

fun parents_ok :: "Limits \<Rightarrow> open_node list \<Rightarrow> bool" where
  "parents_ok l [] \<longleftrightarrow> True"
| "parents_ok l (f # fs) \<longleftrightarrow> open_ok l (length fs) f \<and> parent_ok f \<and> parents_ok l fs"

fun progress_ok :: "Limits \<Rightarrow> progress \<Rightarrow> bool" where
  "progress_ok l Fresh \<longleftrightarrow> True"
| "progress_ok l (Building f fs) \<longleftrightarrow> open_ok l (length fs) f \<and> parents_ok l fs \<and>
     progress_entries (Building f fs) \<le> max_entries l"
| "progress_ok l (Done t) \<longleftrightarrow> nar_ok l t \<and> nar_entries t \<le> max_entries l"

inductive open_spells :: "open_node \<Rightarrow> EncEvent list \<Rightarrow> bool" where
  "open_spells (OpenFile x sz (concat cs)) (BeginFile x sz # map FileChunk cs)"
| "entries_spell es evs \<Longrightarrow> open_spells (OpenDir es None) (BeginDirectory # evs)"
| "entries_spell es evs \<Longrightarrow> open_spells (OpenDir es (Some name)) (BeginDirectory # evs @ [Entry name])"

fun path_spells :: "open_node list \<Rightarrow> EncEvent list \<Rightarrow> bool" where
  "path_spells [] evs \<longleftrightarrow> evs = []"
| "path_spells (f # fs) evs \<longleftrightarrow> (\<exists>xs ys. evs = xs @ ys \<and> path_spells fs xs \<and> open_spells f ys)"

fun progress_spells :: "progress \<Rightarrow> EncEvent list \<Rightarrow> bool" where
  "progress_spells Fresh evs \<longleftrightarrow> evs = []"
| "progress_spells (Building f fs) evs \<longleftrightarrow> path_spells (f # fs) evs"
| "progress_spells (Done t) evs \<longleftrightarrow> spells t evs"

inductive_simps open_spells_simps:
  "open_spells (OpenFile x sz body) evs" "open_spells (OpenDir es None) evs" "open_spells (OpenDir es (Some name)) evs"

lemma close_node_ok:
  "parents_ok l fs \<Longrightarrow> node_ok l (length fs) t \<Longrightarrow> sum_list (map open_entries fs) + nar_entries t \<le> max_entries l \<Longrightarrow>
   progress_ok l (close_node fs t)"
  by (cases "(fs, t)" rule: close_node.cases)
    (auto simp: nar_ok_def entries_ok_snoc list_entries_append split: if_splits)

lemma path_spells_Cons: "path_spells fs xs \<Longrightarrow> open_spells f ys \<Longrightarrow> path_spells (f # fs) (xs @ ys)"
  by auto

lemma close_node_spells:
  assumes "path_spells fs xs" and "parents_ok l fs" and "spells t tvs"
  shows "progress_spells (close_node fs t) (xs @ tvs)"
proof (cases fs)
  case Nil
  then show ?thesis using assms by simp
next
  case (Cons f gs)
  then obtain es name where f: "f = OpenDir es (Some name)"
    using assms(2) by (cases f rule: parent_ok.cases) auto
  obtain us evs where xs: "xs = us @ BeginDirectory # evs @ [Entry name]" "path_spells gs us" "entries_spell es evs"
    using assms(1) by (auto simp: Cons f open_spells_simps)
  have "entries_spell (es @ [(name, t)]) (evs @ Entry name # tvs)"
    by (rule spell_snoc [OF xs(3) assms(3)])
  then show ?thesis
    unfolding Cons f xs(1) close_node.simps progress_spells.simps append_assoc
    using xs(2) by (intro path_spells_Cons) (auto simp: open_spells_simps)
qed

lemma begin_context_Some:
  "begin_context l p = Some fs \<longleftrightarrow> node_context p = Some fs \<and> length fs \<le> max_depth l"
  by (auto simp: begin_context_def split: option.splits)

lemma node_context_path:
  assumes "node_context p = Some fs" and "progress_ok l p" and "progress_spells p evs"
  shows "parents_ok l fs" "path_spells fs evs" "sum_list (map open_entries fs) \<le> max_entries l"
  using assms by (cases p rule: node_context.cases; auto)+

lemma advance_begin:
  assumes p: "node_context p = Some fs" "progress_ok l p" "progress_spells p evs"
    and f: "open_ok l (length fs) f" "open_spells f [ev]" "open_entries f = 0"
  shows "progress_ok l (Building f fs) \<and> progress_spells (Building f fs) (evs @ [ev])"
  using node_context_path [OF p] f path_spells_Cons [of fs evs f "[ev]"] by simp

lemma advance_leaf:
  assumes p: "node_context p = Some fs" "progress_ok l p" "progress_spells p evs"
    and t: "node_ok l (length fs) t" "spells t [ev]" "nar_entries t = 0"
  shows "progress_ok l (close_node fs t) \<and> progress_spells (close_node fs t) (evs @ [ev])"
  using node_context_path [OF p] t close_node_ok [of l fs t] close_node_spells [of fs evs l t "[ev]"] by simp

lemma advance_top:
  assumes p: "progress_ok l (Building f fs)" "progress_spells (Building f fs) evs"
    and g: "open_ok l (length fs) g" "\<And>ys. open_spells f ys \<Longrightarrow> open_spells g (ys @ [ev])"
      "open_entries g + sum_list (map open_entries fs) \<le> max_entries l"
  shows "progress_ok l (Building g fs) \<and> progress_spells (Building g fs) (evs @ [ev])"
proof -
  obtain xs ys where e: "evs = xs @ ys" "path_spells fs xs" "open_spells f ys" using p(2) by auto
  then have "path_spells (g # fs) (xs @ ys @ [ev])" using g(2) by (intro path_spells_Cons)
  with e p g show ?thesis by simp
qed

lemma advance_close:
  assumes p: "progress_ok l (Building f fs)" "progress_spells (Building f fs) evs"
    and t: "node_ok l (length fs) t" "\<And>ys. open_spells f ys \<Longrightarrow> spells t (ys @ [ev])" "nar_entries t = open_entries f"
  shows "progress_ok l (close_node fs t) \<and> progress_spells (close_node fs t) (evs @ [ev])"
proof -
  obtain xs ys where e: "evs = xs @ ys" "path_spells fs xs" "open_spells f ys" using p(2) by auto
  then have "progress_spells (close_node fs t) (xs @ ys @ [ev])"
    using t(2) p(1) by (intro close_node_spells [where l = l]) auto
  with e p t close_node_ok [of l fs t] show ?thesis by (simp add: add.commute)
qed

lemma open_spells_more:
  "open_spells (OpenFile x sz body) ys \<Longrightarrow> open_spells (OpenFile x sz (body @ chunk)) (ys @ [FileChunk chunk])"
  "open_spells (OpenFile x (length body) body) ys \<Longrightarrow> spells (NRegular x body) (ys @ [EndFile])"
  "open_spells (OpenDir es None) ys \<Longrightarrow> open_spells (OpenDir es (Some name)) (ys @ [Entry name])"
  "open_spells (OpenDir es None) ys \<Longrightarrow> spells (NDirectory es) (ys @ [EndDirectory])"
proof -
  assume "open_spells (OpenFile x sz body) ys"
  then obtain cs where "ys = BeginFile x sz # map FileChunk cs" "body = concat cs"
    by (auto simp: open_spells_simps)
  then show "open_spells (OpenFile x sz (body @ chunk)) (ys @ [FileChunk chunk])"
    by (auto simp: open_spells_simps intro!: exI [where x = "cs @ [chunk]"])
qed (auto simp: open_spells_simps intro: spells_entries_spell.intros)

lemma advance_cases:
  assumes "advance l p ev = Some p'"
  obtains fs where "ev = BeginDirectory" "node_context p = Some fs" "length fs \<le> max_depth l"
      "p' = Building (OpenDir [] None) fs"
  | fs x sz where "ev = BeginFile x sz" "node_context p = Some fs" "length fs \<le> max_depth l"
      "sz \<le> max_file_bytes l" "p' = Building (OpenFile x sz []) fs"
  | fs target where "ev = SymlinkTo target" "node_context p = Some fs" "length fs \<le> max_depth l"
      "valid_target target" "length target \<le> max_symlink_target_bytes l" "p' = close_node fs (NSymlink target)"
  | es fs name where "ev = Entry name" "p = Building (OpenDir es None) fs" "valid_entry_name name"
      "last_name es < name" "length name \<le> max_name_bytes l"
      "list_entries es + sum_list (map open_entries fs) + 1 \<le> max_entries l" "p' = Building (OpenDir es (Some name)) fs"
  | x sz body fs chunk where "ev = FileChunk chunk" "p = Building (OpenFile x sz body) fs"
      "length body + length chunk \<le> sz" "p' = Building (OpenFile x sz (body @ chunk)) fs"
  | x body fs where "ev = EndFile" "p = Building (OpenFile x (length body) body) fs" "p' = close_node fs (NRegular x body)"
  | es fs where "ev = EndDirectory" "p = Building (OpenDir es None) fs" "p' = close_node fs (NDirectory es)"
  using assms
  by (cases "(l, p, ev)" rule: advance.cases) (auto simp: begin_context_Some split: if_splits)

lemma advance_ok:
  assumes adv: "advance l p ev = Some p'" and ok: "progress_ok l p" and sp: "progress_spells p evs"
  shows "progress_ok l p' \<and> progress_spells p' (evs @ [ev])"
  using adv
proof (cases rule: advance_cases)
  case (1 fs)
  show ?thesis unfolding 1(1,4)
    by (rule advance_begin [OF 1(2) ok sp]) (use 1(3) in \<open>simp_all add: open_spells_simps spell_none\<close>)
next
  case (2 fs x sz)
  show ?thesis unfolding 2(1,5)
    by (rule advance_begin [OF 2(2) ok sp]) (use 2(3,4) in \<open>simp_all add: open_spells_simps\<close>)
next
  case (3 fs target)
  show ?thesis unfolding 3(1,6)
    by (rule advance_leaf [OF 3(2) ok sp]) (use 3(3-5) in \<open>simp_all add: spells_symlink\<close>)
next
  case (4 es fs name)
  show ?thesis unfolding 4(1,7)
    by (rule advance_top [OF ok [unfolded 4(2)] sp [unfolded 4(2)]])
      (use ok 4 open_spells_more(3) in \<open>simp_all\<close>)
next
  case (5 x sz body fs chunk)
  show ?thesis unfolding 5(1,4)
    by (rule advance_top [OF ok [unfolded 5(2)] sp [unfolded 5(2)]])
      (use ok 5 open_spells_more(1) in \<open>simp_all\<close>)
next
  case (6 x body fs)
  show ?thesis unfolding 6(1,3)
    by (rule advance_close [OF ok [unfolded 6(2)] sp [unfolded 6(2)]])
      (use ok 6 open_spells_more(2) in \<open>simp_all\<close>)
next
  case (7 es fs)
  show ?thesis unfolding 7(1,3)
    by (rule advance_close [OF ok [unfolded 7(2)] sp [unfolded 7(2)]])
      (use ok 7 open_spells_more(4) in \<open>simp_all\<close>)
qed

lemma build_ok: "build l Fresh evs = Some p \<Longrightarrow> progress_ok l p \<and> progress_spells p evs"
proof (induction evs arbitrary: p rule: rev_induct)
  case (snoc ev evs)
  then obtain q where "build l Fresh evs = Some q" "advance l q ev = Some p"
    by (auto simp: build_append split: option.splits)
  with snoc.IH advance_ok show ?case by blast
qed simp

lemma build_iff:
  "build l Fresh evs = Some (Done t) \<longleftrightarrow> nar_ok l t \<and> nar_entries t \<le> max_entries l \<and> spells t evs"
proof
  assume "build l Fresh evs = Some (Done t)"
  from build_ok [OF this] show "nar_ok l t \<and> nar_entries t \<le> max_entries l \<and> spells t evs" by simp
next
  assume "nar_ok l t \<and> nar_entries t \<le> max_entries l \<and> spells t evs"
  then show "build l Fresh evs = Some (Done t)"
    using build_spells(1) [of t evs Fresh "[]" l] by (simp add: nar_ok_def)
qed

end
