(* ===== verification/Nar_Encode_Correct.thy ===== *)
theory Nar_Encode_Correct
  imports Nar_Builder
begin

section \<open>The encoder implements the tree builder\<close>

text \<open>
  The encoder of \<open>src/src/nar_encode.rs\<close> refines the builder of \<open>Nar_Builder\<close>: \<open>state_of\<close> gives the
  encoder state for a progress (its output so far, its stack, its counters), and each event succeeds
  exactly when the builder allows it, the output stays within the limit and the writer takes the bytes; the
  new state is the one of the new progress.  The writer is any \<open>byte_writer\<close>: a destination
  for which writing two slices is writing their concatenation.
\<close>

subsection \<open>Byte writers\<close>

locale byte_writer =
  fixes put :: "'w \<Rightarrow> bytes \<Rightarrow> IoError + 'w"
  assumes put_Nil: "put w [] = Inr w"
    and put_append: "put w (a @ b) = Inr w' \<longleftrightarrow> (\<exists>w1. put w a = Inr w1 \<and> put w1 b = Inr w')"

text \<open>\<open>Vec<u8>\<close>, and a slice of a given capacity (\<open>&mut [u8]\<close>), whose \<open>write_all\<close> fails once it is full.\<close>

definition write_vec :: "bytes \<Rightarrow> bytes \<Rightarrow> IoError + bytes" where
  "write_vec w bs = Ok (w @ bs)"

definition write_slice :: "nat \<Rightarrow> bytes \<Rightarrow> bytes \<Rightarrow> IoError + bytes" where
  "write_slice cap w bs = (if bs = [] \<or> length w + length bs \<le> cap then Ok (w @ bs) else Err (OtherIo ''failed to write whole buffer''))"

interpretation vec: byte_writer write_vec
  by unfold_locales (auto simp: write_vec_def)

interpretation slice: byte_writer "write_slice cap"
  by unfold_locales (auto simp: write_slice_def split: if_splits)

subsection \<open>Steps with the same successes\<close>

definition same_ok :: "('s, 'e, 'a) step \<Rightarrow> ('s, 'e, 'a) step \<Rightarrow> bool" where
  "same_ok m m' \<longleftrightarrow> (\<forall>s r. m s = Inr r \<longleftrightarrow> m' s = Inr r)"

lemma same_okD: "same_ok m m' \<Longrightarrow> m s = Inr r \<longleftrightarrow> m' s = Inr r"
  unfolding same_ok_def by blast

lemma same_ok_refl [simp]: "same_ok m m"
  by (simp add: same_ok_def)

lemma same_ok_trans [trans]: "same_ok a b \<Longrightarrow> same_ok b c \<Longrightarrow> same_ok a c"
  by (simp add: same_ok_def)

lemma same_ok_bindS: "same_ok m m' \<Longrightarrow> (\<And>x. same_ok (k x) (k' x)) \<Longrightarrow> same_ok (bindS m k) (bindS m' k')"
  unfolding same_ok_def
proof (intro allI)
  fix s r assume a: "\<forall>s r. (m s = Inr r) = (m' s = Inr r)" and b: "\<And>x. \<forall>s r. (k x s = Inr r) = (k' x s = Inr r)"
  show "(bindS m k s = Inr r) = (bindS m' k' s = Inr r)"
    by (cases r) (simp add: bindS_Inr_iff a b)
qed

lemma write_bytes_Inr:
  "write_bytes env bs s = Inr (x, s') \<longleftrightarrow>
   e_raw_size s + length bs \<le> total_cap (e_limits env) \<and>
   (\<exists>w. write_all env (e_writer s) bs = Inr w \<and>
      s' = s\<lparr>e_writer := w, e_digest := e_digest s @ bs, e_raw_size := e_raw_size s + length bs\<rparr>)"
  by (auto simp: write_bytes_def total_cap_def checked_add_u64_def split: option.splits sum.splits if_splits)

subsection \<open>The encoder state of a progress\<close>

fun open_bytes :: "open_node \<Rightarrow> bytes" where
  "open_bytes (OpenFile x sz body) = regular_head x @ u64_to_le_bytes sz @ body"
| "open_bytes (OpenDir es cur) = directory_head @ entries_bytes es @ (case cur of None \<Rightarrow> [] | Some name \<Rightarrow> entry_head name)"

fun path_bytes :: "open_node list \<Rightarrow> bytes" where
  "path_bytes [] = tok ''nix-archive-1''"
| "path_bytes (f # fs) = path_bytes fs @ open_bytes f"

fun progress_bytes :: "progress \<Rightarrow> bytes" where
  "progress_bytes Fresh = tok ''nix-archive-1''"
| "progress_bytes (Building f fs) = path_bytes (f # fs)"
| "progress_bytes (Done t) = nar_bytes t"

fun open_files :: "open_node \<Rightarrow> nat" and open_symlinks :: "open_node \<Rightarrow> nat" where
  "open_files (OpenFile x sz body) = 0"
| "open_files (OpenDir es cur) = list_files es"
| "open_symlinks (OpenFile x sz body) = 0"
| "open_symlinks (OpenDir es cur) = list_symlinks es"

fun progress_files :: "progress \<Rightarrow> nat" where
  "progress_files Fresh = 0"
| "progress_files (Building f fs) = sum_list (map open_files (f # fs))"
| "progress_files (Done t) = nar_files t"

fun progress_symlinks :: "progress \<Rightarrow> nat" where
  "progress_symlinks Fresh = 0"
| "progress_symlinks (Building f fs) = sum_list (map open_symlinks (f # fs))"
| "progress_symlinks (Done t) = nar_symlinks t"

fun node_of :: "open_node \<Rightarrow> Node" where
  "node_of (OpenFile x sz body) = NodeRegular (sz - length body) sz"
| "node_of (OpenDir es None) = NodeDirectory (Ready (if es = [] then None else Some (fst (last es))))"
| "node_of (OpenDir es (Some name)) = NodeDirectory (ChildOpen name)"

fun open_kind :: "open_node \<Rightarrow> RootKind" where
  "open_kind (OpenFile x sz body) = Regular"
| "open_kind (OpenDir es cur) = Directory"

fun stack_of :: "progress \<Rightarrow> Node list" where
  "stack_of (Building f fs) = map node_of (f # fs)"
| "stack_of _ = []"

fun root_of :: "progress \<Rightarrow> RootState" where
  "root_of Fresh = Awaiting"
| "root_of (Building f fs) = RootOpen (open_kind (last (f # fs)))"
| "root_of (Done t) = Complete (nar_kind t)"

definition state_of :: "'w \<Rightarrow> nat \<Rightarrow> progress \<Rightarrow> 'w Encoder" where
  "state_of w n p =
     \<lparr>e_writer = w, e_digest = progress_bytes p, e_raw_size = length (progress_bytes p), e_root = root_of p,
      e_stack = stack_of p, e_entries = progress_entries p, e_files = progress_files p,
      e_symlinks = progress_symlinks p, e_work = n\<rparr>"

text \<open>A step implements a builder event.\<close>

definition implements :: "'w encode_env \<Rightarrow> EncEvent \<Rightarrow> ('w, unit) enc \<Rightarrow> bool" where
  "implements env ev m \<longleftrightarrow>
     (\<forall>p w n s'. progress_ok (e_limits env) p \<longrightarrow>
        (m (state_of w n p) = Inr ((), s') \<longleftrightarrow>
         (\<exists>p' bs w'. advance (e_limits env) p ev = Some p' \<and> progress_bytes p' = progress_bytes p @ bs \<and>
            length (progress_bytes p @ bs) \<le> total_cap (e_limits env) \<and> write_all env w bs = Inr w' \<and>
            s' = state_of w' n p')))"

lemma entries_bytes_append: "entries_bytes (es @ es') = entries_bytes es @ entries_bytes es'"
proof (induction es)
  case (Cons e es)
  then show ?case by (cases e) simp
qed simp

lemma list_counts_append:
  "list_files (es @ es') = list_files es + list_files es'"
  "list_symlinks (es @ es') = list_symlinks es + list_symlinks es'"
proof (induction es)
  case (Cons e es)
  case 1 show ?case using Cons by (cases e) simp
  case 2 show ?case using Cons by (cases e) simp
qed simp_all

text \<open>Closing a node, in every component of the state.\<close>

lemma close_node_state:
  assumes "parents_ok l fs"
  shows "progress_bytes (close_node fs t) = path_bytes fs @ node_bytes t @ (if fs = [] then [] else tok '')'')"
    "progress_entries (close_node fs t) = sum_list (map open_entries fs) + nar_entries t"
    "progress_files (close_node fs t) = sum_list (map open_files fs) + nar_files t"
    "progress_symlinks (close_node fs t) = sum_list (map open_symlinks fs) + nar_symlinks t"
    "root_of (close_node fs t) = (if fs = [] then Complete (nar_kind t) else RootOpen (open_kind (last fs)))"
  using assms
  by (cases "(fs, t)" rule: close_node.cases;
      simp add: nar_bytes_def entries_bytes_append list_entries_append list_counts_append)+

lemma path_counts_le:
  "sum_list (map open_files fs) \<le> length (path_bytes fs) \<and> sum_list (map open_symlinks fs) \<le> length (path_bytes fs)"
proof (induction fs)
  case (Cons f fs)
  have "open_files f \<le> length (open_bytes f) \<and> open_symlinks f \<le> length (open_bytes f)"
  proof (cases f)
    case (OpenDir es cur)
    then show ?thesis using node_counts_le_bytes(2) [of es] by simp
  qed simp
  with Cons show ?case by simp
qed simp

lemma progress_counts_le:
  "progress_files p \<le> length (progress_bytes p) \<and> progress_symlinks p \<le> length (progress_bytes p)"
proof (cases p)
  case (Building f fs)
  then show ?thesis using path_counts_le [of "f # fs"] by simp
next
  case (Done t)
  then show ?thesis using node_counts_le_bytes(1) [of t] by (simp add: nar_bytes_def)
qed simp

lemma saturating_count:
  "c + 1 = progress_files p \<or> c + 1 = progress_symlinks p \<Longrightarrow> length (progress_bytes p) \<le> total_cap l \<Longrightarrow>
   saturating_add_u64 c 1 = c + 1"
  using progress_counts_le [of p] by (auto simp: saturating_add_u64_def total_cap_def)

fun_cases advance_elims:
  "advance l p (FileChunk chunk) = Some p'" "advance l p EndFile = Some p'" "advance l p EndDirectory = Some p'"

lemma node_context_state:
  assumes "node_context p = Some fs"
  shows "progress_bytes p = path_bytes fs" "stack_of p = map node_of fs"
    "progress_entries p = sum_list (map open_entries fs)" "progress_files p = sum_list (map open_files fs)"
    "progress_symlinks p = sum_list (map open_symlinks fs)"
    "root_of p = (if fs = [] then Awaiting else RootOpen (open_kind (last fs)))"
  using assms by (cases p rule: node_context.cases; auto)+

lemma begin_node_state:
  "begin_node env k (state_of w n p) = Inr (x, s') \<longleftrightarrow>
   (\<exists>fs. begin_context (e_limits env) p = Some fs \<and>
      s' = (state_of w n p)\<lparr>e_root := if fs = [] then RootOpen k else root_of p\<rparr>)"
  by (cases p rule: node_context.cases)
    (auto simp: begin_node_def bindS_Inr_iff ensure_open_def check_parent_def open_root_def state_of_def
      begin_context_def not_less split: if_splits)


lemma advance_extends:
  assumes "advance l p ev = Some p'" and ok: "progress_ok l p"
  shows "\<exists>bs. progress_bytes p' = progress_bytes p @ bs"
proof -
  have ctx: "progress_bytes p = path_bytes fs \<and> parents_ok l fs" if "node_context p = Some fs" for fs
    using that ok by (cases p rule: node_context.cases) auto
  from assms(1) show ?thesis
  proof (cases rule: advance_cases)
    case (3 fs target)
    then show ?thesis using ctx [OF 3(2)] close_node_state(1) [of l fs] by auto
  next
    case (6 x body fs)
    then show ?thesis using ok close_node_state(1) [of l fs] by (auto simp: nar_str_def)
  next
    case (7 es fs)
    then show ?thesis using ok close_node_state(1) [of l fs] by auto
  qed (use ctx in auto)
qed

lemma build_extends:
  "build l p evs = Some p' \<Longrightarrow> progress_ok l p \<Longrightarrow> progress_spells p pre \<Longrightarrow> \<exists>bs. progress_bytes p' = progress_bytes p @ bs"
proof (induction evs arbitrary: p pre)
  case (Cons ev evs)
  then obtain p1 where p1: "advance l p ev = Some p1" "build l p1 evs = Some p'" by (auto split: option.splits)
  from advance_ok [OF p1(1) Cons.prems(2,3)] Cons.IH [OF p1(2)] advance_extends [OF p1(1) Cons.prems(2)]
  show ?case by fastforce
qed simp

definition work_after :: "nat \<Rightarrow> nat \<Rightarrow> nat" where
  "work_after n m = min (n + m) u64_max"

definition encode_summary :: "(bytes \<Rightarrow> bytes) \<Rightarrow> Nar \<Rightarrow> EncodeSummary" where
  "encode_summary sha256 t =
     \<lparr>es_version = ENCODER_VERSION, es_root = nar_kind t, es_raw_size = length (nar_bytes t),
      es_raw_sha256 = sha256 (nar_bytes t), es_entries = nar_entries t, es_files = nar_files t,
      es_symlinks = nar_symlinks t\<rparr>"

text \<open>A tree and a spelling of it that an encoder with these limits takes.\<close>

definition encodable :: "Limits \<Rightarrow> Nar \<Rightarrow> EncEvent list \<Rightarrow> bool" where
  "encodable l t evs \<longleftrightarrow> nar_ok l t \<and> nar_entries t \<le> max_entries l \<and> length (nar_bytes t) \<le> max_total_bytes l \<and>
     min (length evs) u64_max \<le> max_work l \<and> spells t evs"

lemma spells_not_Nil: "spells t evs \<Longrightarrow> evs \<noteq> []"
  by (auto elim: spells.cases)

lemma finish_state: "finish sha256 (state_of w n p) = Inr (w', sm) \<longleftrightarrow> (\<exists>t. p = Done t \<and> w' = w \<and> sm = encode_summary sha256 t)"
  by (cases p) (auto simp: finish_def state_of_def encode_summary_def)

subsection \<open>Output\<close>

context byte_writer
begin

lemma write_bytes_append:
  assumes "write_all env = put"
  shows "same_ok (bindS (write_bytes env a) (\<lambda>_. bindS (write_bytes env b) k)) (bindS (write_bytes env (a @ b)) k)"
  unfolding same_ok_def
proof (intro allI)
  fix s r
  show "(bindS (write_bytes env a) (\<lambda>_. bindS (write_bytes env b) k) s = Inr r) =
      (bindS (write_bytes env (a @ b)) k s = Inr r)"
  proof (cases r)
    case (Pair y t)
    have "(\<exists>x s1. write_bytes env a s = Inr (x, s1) \<and> write_bytes env b s1 = Inr (x', s2)) \<longleftrightarrow>
        write_bytes env (a @ b) s = Inr (x', s2)" for x' s2
      unfolding write_bytes_Inr assms by (auto simp: put_append add.assoc)
    then show ?thesis unfolding Pair bindS_Inr_iff by blast
  qed
qed

lemma write_bytes_Nil:
  assumes "write_all env = put" and "e_raw_size s \<le> total_cap (e_limits env)"
  shows "write_bytes env [] s = Inr ((), s)"
  using assms by (simp add: write_bytes_Inr put_Nil)

lemma bindS_retS: "bindS m retS = m"
  by (rule ext) (simp add: bindS_def split: sum.splits prod.splits)

lemma write_bytes_append_last:
  assumes "write_all env = put"
  shows "same_ok (bindS (write_bytes env a) (\<lambda>_. write_bytes env b)) (write_bytes env (a @ b))"
  using write_bytes_append [OF assms, of a b retS] by (simp add: bindS_retS)

lemma write_string_ok:
  assumes "write_all env = put"
  shows "same_ok (write_string env v) (write_bytes env (nar_str v))"
proof -
  have pad: "take ((8 - n mod 8) mod 8) (replicate 8 (0 :: byte)) = pad_zeros n" for n :: nat
    by (simp add: pad_zeros_def padding_len_def min_def)
  show ?thesis
    unfolding write_string_def write_u64_def write_padding_def pad nar_str_def
    by (rule same_ok_trans [OF same_ok_bindS [OF same_ok_refl write_bytes_append_last [OF assms]]
          write_bytes_append_last [OF assms]])
qed

lemma string_step:
  assumes "write_all env = put" and "same_ok m (bindS (write_bytes env b) k)"
  shows "same_ok (bindS (write_string env a) (\<lambda>_. m)) (bindS (write_bytes env (nar_str a @ b)) k)"
  by (rule same_ok_trans [OF same_ok_bindS [OF write_string_ok [OF assms(1)] assms(2)] write_bytes_append [OF assms(1)]])

lemma string_last:
  assumes "write_all env = put" and "same_ok m k"
  shows "same_ok (bindS (write_string env a) (\<lambda>_. m)) (bindS (write_bytes env (nar_str a)) (\<lambda>_. k))"
  by (rule same_ok_bindS [OF write_string_ok [OF assms(1)] assms(2)])

lemma finish_write:
  fixes a :: bytes
  assumes put: "write_all env = put" and s: "e_stack s = map node_of fs" "parents_ok l fs" "e_root s = RootOpen k"
  defines "bs \<equiv> a @ (if fs = [] then [] else tok '')'')"
  shows "bindS (write_bytes env a) (\<lambda>_. finish_parent env) s = Inr ((), s') \<longleftrightarrow>
    e_raw_size s + length bs \<le> total_cap (e_limits env) \<and>
    (\<exists>w. put (e_writer s) bs = Inr w \<and>
       s' = s\<lparr>e_writer := w, e_digest := e_digest s @ bs, e_raw_size := e_raw_size s + length bs,
         e_root := if fs = [] then Complete k else RootOpen k, e_stack := stack_of (close_node fs t)\<rparr>)"
proof (cases fs)
  case Nil
  then show ?thesis
    using s by (auto simp: bindS_Inr_iff write_bytes_Inr bs_def put finish_parent_def complete_root_def)
next
  case (Cons f gs)
  then obtain es name where f: "f = OpenDir es (Some name)"
    using s(2) by (cases f rule: parent_ok.cases) auto
  have "bindS (write_bytes env a) (\<lambda>_. finish_parent env) s = Inr ((), s') \<longleftrightarrow>
      bindS (write_bytes env a) (\<lambda>_. close_directory_entry env) s = Inr ((), s')"
    using s by (auto simp: bindS_Inr_iff write_bytes_Inr Cons f finish_parent_def)
  also have "\<dots> \<longleftrightarrow> bindS (write_bytes env (a @ tok '')'')) (\<lambda>_. mark_child_closed) s = Inr ((), s')"
    unfolding close_directory_entry_def
    by (rule same_okD [OF same_ok_trans [OF same_ok_bindS [OF same_ok_refl string_last [OF put same_ok_refl]]
            write_bytes_append [OF put]]])
  also have "\<dots> \<longleftrightarrow> e_raw_size s + length bs \<le> total_cap (e_limits env) \<and>
    (\<exists>w. put (e_writer s) bs = Inr w \<and>
       s' = s\<lparr>e_writer := w, e_digest := e_digest s @ bs, e_raw_size := e_raw_size s + length bs,
         e_root := if fs = [] then Complete k else RootOpen k, e_stack := stack_of (close_node fs t)\<rparr>)"
    using s by (auto simp: bindS_Inr_iff write_bytes_Inr Cons f bs_def put mark_child_closed_def)
  finally show ?thesis .
qed

lemma begin_directory_ok:
  assumes "write_all env = put"
  shows "same_ok (begin_directory env) (bindS (begin_node env Directory) (\<lambda>_.
    bindS (write_bytes env directory_head) (\<lambda>_. push_node (NodeDirectory (Ready None)))))"
  unfolding begin_directory_def directory_head_def
  by (rule same_ok_bindS [OF same_ok_refl], (rule string_step [OF assms])+, rule string_last [OF assms same_ok_refl])

lemma write_then:
  assumes "write_all env = put"
  shows "bindS (write_bytes env bs) k s = Inr r \<longleftrightarrow>
    e_raw_size s + length bs \<le> total_cap (e_limits env) \<and>
    (\<exists>w. put (e_writer s) bs = Inr w \<and>
      k () (s\<lparr>e_writer := w, e_digest := e_digest s @ bs, e_raw_size := e_raw_size s + length bs\<rparr>) = Inr r)"
  by (cases r) (auto simp: bindS_Inr_iff write_bytes_Inr assms)

lemma begin_write:
  assumes "write_all env = put"
  shows "bindS (begin_node env kd) (\<lambda>_. bindS (write_bytes env bs) k) (state_of w n p) = Inr ((), s') \<longleftrightarrow>
    (\<exists>fs w'. begin_context (e_limits env) p = Some fs \<and> length (progress_bytes p @ bs) \<le> total_cap (e_limits env) \<and>
       put w bs = Inr w' \<and>
       k () ((state_of w' n p)\<lparr>e_digest := progress_bytes p @ bs, e_raw_size := length (progress_bytes p @ bs),
         e_root := if fs = [] then RootOpen kd else root_of p\<rparr>) = Inr ((), s'))"
proof (cases "begin_context (e_limits env) p")
  case None
  then show ?thesis by (simp add: bindS_Inr_iff begin_node_state)
next
  case (Some fs)
  then have b: "begin_node env kd (state_of w n p) =
      Inr ((), (state_of w n p)\<lparr>e_root := if fs = [] then RootOpen kd else root_of p\<rparr>)"
    unfolding begin_node_state by blast
  show ?thesis
    unfolding bindS_ok [where m = "begin_node env kd", OF b] write_then [OF assms] by (simp add: Some state_of_def)
qed

lemma implementsI:
  assumes "write_all env = put"
    and none: "\<And>p w n s'. progress_ok (e_limits env) p \<Longrightarrow> advance (e_limits env) p ev = None \<Longrightarrow>
      m (state_of w n p) \<noteq> Inr ((), s')"
    and some: "\<And>p w n s' p'. progress_ok (e_limits env) p \<Longrightarrow> advance (e_limits env) p ev = Some p' \<Longrightarrow>
      \<exists>bs. progress_bytes p' = progress_bytes p @ bs \<and>
        (m (state_of w n p) = Inr ((), s') \<longleftrightarrow> length (progress_bytes p @ bs) \<le> total_cap (e_limits env) \<and>
          (\<exists>w'. put w bs = Inr w' \<and> s' = state_of w' n p'))"
  shows "implements env ev m"
  unfolding implements_def assms(1)
proof (intro allI impI)
  fix p w n s' assume ok: "progress_ok (e_limits env) p"
  show "m (state_of w n p) = Inr ((), s') \<longleftrightarrow>
      (\<exists>p' bs w'. advance (e_limits env) p ev = Some p' \<and> progress_bytes p' = progress_bytes p @ bs \<and>
        length (progress_bytes p @ bs) \<le> total_cap (e_limits env) \<and> put w bs = Inr w' \<and> s' = state_of w' n p')"
  proof (cases "advance (e_limits env) p ev")
    case None
    then show ?thesis using none [OF ok None] by simp
  next
    case (Some p')
    then show ?thesis using some [OF ok Some, of w n s'] by auto
  qed
qed

lemma implements_begin_directory:
  assumes "write_all env = put"
  shows "implements env BeginDirectory (begin_directory env)"
proof (rule implementsI [OF assms], goal_cases)
  case (1 p w n s')
  then show ?case
    unfolding same_okD [OF begin_directory_ok [OF assms]] begin_write [OF assms] by simp
next
  case (2 p w n s' p')
  then obtain fs where fs: "begin_context (e_limits env) p = Some fs" "p' = Building (OpenDir [] None) fs"
    by auto
  note c = node_context_state [of p fs]
  show ?case
    unfolding same_okD [OF begin_directory_ok [OF assms]] begin_write [OF assms]
    by (rule exI [where x = directory_head])
      (use c fs in \<open>auto simp: push_node_def state_of_def begin_context_Some\<close>)
qed

lemma begin_file_ok:
  assumes "write_all env = put"
  shows "same_ok (begin_file env x sz)
    (if sz > max_file_bytes (e_limits env)
     then failS (EncodeLimitExceeded ''file size'' (max_file_bytes (e_limits env)) sz)
     else bindS (begin_node env Regular) (\<lambda>_.
       bindS (write_bytes env (regular_head x @ u64_to_le_bytes sz)) (\<lambda>_. push_node (NodeRegular sz sz))))"
proof -
  have flag: "same_ok (bindS (if x then bindS (write_string env (ascii ''executable'')) (\<lambda>_. write_string env (ascii '''')) else retS ())
        (\<lambda>_. m)) (bindS (write_bytes env ((if x then tok ''executable'' @ tok '''' else []) @ b)) k)"
    if "same_ok m (bindS (write_bytes env b) k)" for m b k
  proof (cases x)
    case True
    have "same_ok (bindS (write_string env (ascii ''executable'')) (\<lambda>_. bindS (write_string env (ascii '''')) (\<lambda>_. m)))
        (bindS (write_bytes env (tok ''executable'' @ tok '''' @ b)) k)"
      by (rule string_step [OF assms string_step [OF assms that]])
    then show ?thesis using True by (simp add: bindS_assoc)
  next
    case False
    then show ?thesis using that by (simp add: bindS_def [of "retS ()"])
  qed
  have head: "regular_head x @ b = tok ''('' @ tok ''type'' @ tok ''regular'' @ (if x then tok ''executable'' @ tok '''' else []) @
      tok ''contents'' @ b" for b
    by (simp add: regular_head_def)
  have "same_ok (bindS (begin_node env Regular) (\<lambda>_.
        bindS (write_string env (ascii ''('')) (\<lambda>_.
        bindS (write_string env (ascii ''type'')) (\<lambda>_.
        bindS (write_string env (ascii ''regular'')) (\<lambda>_.
        bindS (if x then bindS (write_string env (ascii ''executable'')) (\<lambda>_. write_string env (ascii ''''))
               else retS ()) (\<lambda>_.
        bindS (write_string env (ascii ''contents'')) (\<lambda>_.
        bindS (write_u64 env sz) (\<lambda>_.
        push_node (NodeRegular sz sz))))))))) (bindS (begin_node env Regular) (\<lambda>_.
       bindS (write_bytes env (regular_head x @ u64_to_le_bytes sz)) (\<lambda>_. push_node (NodeRegular sz sz))))"
    unfolding head write_u64_def
    by (rule same_ok_bindS [OF same_ok_refl], (rule string_step [OF assms])+, rule flag, rule string_step [OF assms same_ok_refl])
  then show ?thesis by (simp add: begin_file_def)
qed

lemma implements_begin_file:
  assumes "write_all env = put"
  shows "implements env (BeginFile x sz) (begin_file env x sz)"
proof (rule implementsI [OF assms], goal_cases)
  case (1 p w n s')
  then show ?case
    unfolding same_okD [OF begin_file_ok [OF assms]] by (auto simp: begin_write [OF assms] split: if_splits)
next
  case (2 p w n s' p')
  then obtain fs where fs: "begin_context (e_limits env) p = Some fs" "p' = Building (OpenFile x sz []) fs"
      "sz \<le> max_file_bytes (e_limits env)"
    by (auto split: if_splits)
  note c = node_context_state [of p fs]
  have *: "begin_file env x sz (state_of w n p) = Inr ((), s') \<longleftrightarrow>
      bindS (begin_node env Regular) (\<lambda>_. bindS (write_bytes env (regular_head x @ u64_to_le_bytes sz))
        (\<lambda>_. push_node (NodeRegular sz sz))) (state_of w n p) = Inr ((), s')"
    unfolding same_okD [OF begin_file_ok [OF assms]] using fs(3) by simp
  show ?case
    unfolding * begin_write [OF assms]
    by (rule exI [where x = "regular_head x @ u64_to_le_bytes sz"])
      (use c fs in \<open>auto simp: push_node_def state_of_def begin_context_Some\<close>)
qed

lemma next_entries_Inr:
  "max_entries (e_limits env) \<le> u64_max \<Longrightarrow>
   next_entries env n = Inr m \<longleftrightarrow> m = n + 1 \<and> n + 1 \<le> max_entries (e_limits env)"
  by (auto simp: next_entries_def checked_add_u64_def split: option.splits if_splits)

lemma entry_ok:
  assumes "write_all env = put"
  shows "same_ok (entry env name) (bindS ensure_open (\<lambda>_.
       if length name > max_name_bytes (e_limits env)
       then failS (EncodeLimitExceeded ''name length'' (max_name_bytes (e_limits env)) (length name))
       else bindS (getS e_entries) (\<lambda>n. bindS (liftS (next_entries env n)) (\<lambda>nxt.
           if \<not> valid_entry_name name then failS (EncodeNonCanonical ''invalid directory entry name'')
           else bindS (open_child name) (\<lambda>_. bindS (write_bytes env (entry_head name)) (\<lambda>_.
             modifyS (\<lambda>s. s\<lparr>e_entries := nxt\<rparr>)))))))"
proof -
  have body: "same_ok (bindS (write_string env (ascii ''entry'')) (\<lambda>_.
             bindS (write_string env (ascii ''('')) (\<lambda>_.
             bindS (write_string env (ascii ''name'')) (\<lambda>_.
             bindS (write_string env name) (\<lambda>_.
             bindS (write_string env (ascii ''node'')) (\<lambda>_. m))))))
      (bindS (write_bytes env (entry_head name)) (\<lambda>_. m))" for m
    unfolding entry_head_def
    by ((rule string_step [OF assms])+, rule string_last [OF assms same_ok_refl])
  have if_ok: "same_ok (if b then failS e else m) (if b then failS e else m')" if "same_ok m m'"
    for b e and m m' :: "('w, unit) enc"
    using that by simp
  show ?thesis
    unfolding entry_def
    by (rule same_ok_bindS [OF same_ok_refl if_ok [OF same_ok_bindS [OF same_ok_refl
          same_ok_bindS [OF same_ok_refl if_ok [OF same_ok_bindS [OF same_ok_refl body]]]]]])
qed

lemma ensure_open_Inr: "ensure_open s = Inr (x, s') \<longleftrightarrow> (\<forall>k. e_root s \<noteq> Complete k) \<and> s' = s"
  by (auto simp: ensure_open_def split: RootState.splits)

lemma open_child_Inr:
  "open_child name s = Inr (x, s') \<longleftrightarrow>
   (\<exists>lst rest. e_stack s = NodeDirectory (Ready lst) # rest \<and> (\<forall>prev. lst = Some prev \<longrightarrow> prev < name) \<and>
      s' = s\<lparr>e_stack := NodeDirectory (ChildOpen name) # rest\<rparr>)"
  by (auto simp: open_child_def not_le split: list.splits Node.splits DirectoryState.splits option.splits if_splits)

lemma bindS_ensure_open: "bindS ensure_open k s = Inr r \<longleftrightarrow> (\<forall>c. e_root s \<noteq> Complete c) \<and> k () s = Inr r"
  by (cases r) (auto simp: bindS_Inr_iff ensure_open_Inr)

lemma assert_Inr: "(if b then failS e else m) s = Inr r \<longleftrightarrow> \<not> b \<and> m s = Inr r"
  by simp

lemma bindS_getS: "bindS (getS f) k s = k (f s) s"
  by (simp add: bindS_def)

lemma bindS_liftS_Inr: "bindS (liftS v) k s = Inr r \<longleftrightarrow> (\<exists>x. v = Inr x \<and> k x s = Inr r)"
  by (cases v) (simp_all add: bindS_def)

lemma entry_Inr:
  assumes "write_all env = put" and "max_entries (e_limits env) \<le> u64_max"
  shows "entry env name s = Inr ((), s') \<longleftrightarrow>
    (\<forall>k. e_root s \<noteq> Complete k) \<and> length name \<le> max_name_bytes (e_limits env) \<and>
    e_entries s + 1 \<le> max_entries (e_limits env) \<and> valid_entry_name name \<and>
    (\<exists>lst rest w. e_stack s = NodeDirectory (Ready lst) # rest \<and> (\<forall>prev. lst = Some prev \<longrightarrow> prev < name) \<and>
       e_raw_size s + length (entry_head name) \<le> total_cap (e_limits env) \<and> put (e_writer s) (entry_head name) = Inr w \<and>
       s' = s\<lparr>e_stack := NodeDirectory (ChildOpen name) # rest, e_writer := w, e_digest := e_digest s @ entry_head name,
         e_raw_size := e_raw_size s + length (entry_head name), e_entries := e_entries s + 1\<rparr>)"
proof -
  have body: "bindS (open_child name) (\<lambda>_. bindS (write_bytes env (entry_head name)) (\<lambda>_.
             modifyS (\<lambda>s. s\<lparr>e_entries := nxt\<rparr>))) s = Inr ((), s') \<longleftrightarrow>
    (\<exists>lst rest w. e_stack s = NodeDirectory (Ready lst) # rest \<and> (\<forall>prev. lst = Some prev \<longrightarrow> prev < name) \<and>
       e_raw_size s + length (entry_head name) \<le> total_cap (e_limits env) \<and> put (e_writer s) (entry_head name) = Inr w \<and>
       s' = s\<lparr>e_stack := NodeDirectory (ChildOpen name) # rest, e_writer := w, e_digest := e_digest s @ entry_head name,
         e_raw_size := e_raw_size s + length (entry_head name), e_entries := nxt\<rparr>)" for nxt
    unfolding bindS_Inr_iff [of "open_child name"] open_child_Inr write_then [OF assms(1)] by auto
  show ?thesis
    unfolding same_okD [OF entry_ok [OF assms(1)]] bindS_ensure_open assert_Inr bindS_getS bindS_liftS_Inr
      next_entries_Inr [OF assms(2)] body not_less
    by auto
qed

lemma implements_entry:
  assumes "write_all env = put" and "max_entries (e_limits env) \<le> u64_max"
  shows "implements env (Entry name) (entry env name)"
proof (rule implementsI [OF assms(1)], goal_cases)
  case (1 p w n s')
  have "valid_entry_name name \<Longrightarrow> [] < name" by (cases name) (auto simp: valid_entry_name_def)
  with 1 show ?case
    unfolding entry_Inr [OF assms]
    by (cases "(e_limits env, p, Entry name)" rule: advance.cases)
      (auto simp: state_of_def split: if_splits)
next
  case (2 p w n s' p')
  then obtain es fs where p: "p = Building (OpenDir es None) fs" "p' = Building (OpenDir es (Some name)) fs"
    "valid_entry_name name" "last_name es < name" "length name \<le> max_name_bytes (e_limits env)"
    "progress_entries p + 1 \<le> max_entries (e_limits env)"
    by (cases "(e_limits env, p, Entry name)" rule: advance.cases) (auto split: if_splits)
  then show ?case
    unfolding entry_Inr [OF assms]
    by (intro exI [where x = "entry_head name"]) (auto simp: state_of_def split: if_splits)
qed

lemma implements_file_chunk:
  assumes "write_all env = put"
  shows "implements env (FileChunk chunk) (file_chunk env chunk)"
proof (rule implementsI [OF assms], goal_cases)
  case (1 p w n s')
  then show ?case
    by (cases "(e_limits env, p, FileChunk chunk)" rule: advance.cases)
      (auto simp: state_of_def file_chunk_def split: if_splits Node.splits)
next
  case (2 p w n s' p')
  from 2(2) obtain x sz body fs where p: "p = Building (OpenFile x sz body) fs" "length body + length chunk \<le> sz"
    "p' = Building (OpenFile x sz (body @ chunk)) fs"
    by (elim advance_elims) (auto split: if_splits)
  then have "\<not> length chunk > sz - length body" by simp
  with p have *: "file_chunk env chunk (state_of w n p) = bindS (write_bytes env chunk) (\<lambda>_. reduce_remaining (length chunk)) (state_of w n p)"
    by (simp add: file_chunk_def state_of_def)
  show ?case
    unfolding * write_then [OF assms]
    by (rule exI [where x = chunk]) (use p in \<open>auto simp: reduce_remaining_def state_of_def\<close>)
qed

lemma finish_node_top:
  "e_stack s = nd # rest \<Longrightarrow> node_kind nd = k \<Longrightarrow>
   finish_node env k s = bindS (write_string env (ascii '')'')) (\<lambda>_. finish_parent env) (s\<lparr>e_stack := rest\<rparr>)"
  by (simp add: finish_node_def)

lemma finish_node_Inr:
  assumes put: "write_all env = put" and s: "e_stack s = nd # map node_of fs" "node_kind nd = kd" "parents_ok l fs" "e_root s = RootOpen k"
  defines "bs \<equiv> tok '')'' @ (if fs = [] then [] else tok '')'')"
  shows "finish_node env kd s = Inr ((), s') \<longleftrightarrow>
    e_raw_size s + length bs \<le> total_cap (e_limits env) \<and>
    (\<exists>w. put (e_writer s) bs = Inr w \<and>
       s' = s\<lparr>e_writer := w, e_digest := e_digest s @ bs, e_raw_size := e_raw_size s + length bs,
         e_root := if fs = [] then Complete k else RootOpen k, e_stack := stack_of (close_node fs t)\<rparr>)"
proof -
  have "finish_node env kd s = Inr ((), s') \<longleftrightarrow>
      bindS (write_bytes env (tok '')'')) (\<lambda>_. finish_parent env) (s\<lparr>e_stack := map node_of fs\<rparr>) = Inr ((), s')"
    unfolding finish_node_top [OF s(1,2)] by (rule same_okD [OF string_last [OF put same_ok_refl]])
  then show ?thesis
    using finish_write [OF put, of "s\<lparr>e_stack := map node_of fs\<rparr>" fs l k "tok '')''" s' t] s(3,4)
    by (simp add: bs_def)
qed

lemma closed_state:
  assumes "parents_ok l fs" and "nar_entries t = open_entries f" "nar_kind t = open_kind f"
  shows "(state_of w n (Building f fs))\<lparr>e_writer := w', e_digest := d, e_raw_size := r,
      e_root := if fs = [] then Complete (open_kind (last (f # fs))) else RootOpen (open_kind (last (f # fs))),
      e_stack := stack_of (close_node fs t)\<rparr> =
    (state_of w' n (close_node fs t))\<lparr>e_digest := d, e_raw_size := r,
      e_files := progress_files (Building f fs), e_symlinks := progress_symlinks (Building f fs)\<rparr>"
  using close_node_state [OF assms(1), of t] assms(2,3) by (simp add: state_of_def)

lemma finish_node_state:
  assumes put: "write_all env = put" and t: "parents_ok l fs" "nar_entries t = open_entries f" "nar_kind t = open_kind f"
  defines "bs \<equiv> tok '')'' @ (if fs = [] then [] else tok '')'')"
  shows "finish_node env (nar_kind t) ((state_of w n (Building f fs))\<lparr>e_digest := d, e_raw_size := r\<rparr>) = Inr ((), s') \<longleftrightarrow>
    r + length bs \<le> total_cap (e_limits env) \<and>
    (\<exists>w'. put w bs = Inr w' \<and>
      s' = (state_of w' n (close_node fs t))\<lparr>e_digest := d @ bs, e_raw_size := r + length bs,
        e_files := progress_files (Building f fs), e_symlinks := progress_symlinks (Building f fs)\<rparr>)"
proof -
  let ?s = "(state_of w n (Building f fs))\<lparr>e_digest := d, e_raw_size := r\<rparr>"
  have s: "e_stack ?s = node_of f # map node_of fs" "node_kind (node_of f) = nar_kind t"
      "e_root ?s = RootOpen (open_kind (last (f # fs)))" "e_raw_size ?s = r" "e_writer ?s = w" "e_digest ?s = d"
    using t(3) by (auto simp: state_of_def, cases f rule: node_of.cases) auto
  have u: "?s\<lparr>e_writer := w', e_digest := d', e_raw_size := r', e_root := ro, e_stack := st\<rparr> =
      (state_of w n (Building f fs))\<lparr>e_writer := w', e_digest := d', e_raw_size := r', e_root := ro, e_stack := st\<rparr>" for w' d' r' ro st
    by simp
  show ?thesis
    unfolding finish_node_Inr [OF put s(1,2) t(1) s(3), where t = t] s(4-6) bs_def [symmetric] u closed_state [OF t] ..
qed

lemma implements_end_directory:
  assumes "write_all env = put"
  shows "implements env EndDirectory (end_directory env)"
proof (rule implementsI [OF assms], goal_cases)
  case (1 p w n s')
  then show ?case
    by (cases "(e_limits env, p, EndDirectory)" rule: advance.cases)
      (auto simp: state_of_def end_directory_def split: if_splits Node.splits)
next
  case (2 p w n s' p')
  from 2(2) obtain es fs where p: "p = Building (OpenDir es None) fs" "p' = close_node fs (NDirectory es)"
    by (elim advance_elims) (auto split: if_splits)
  have parents: "parents_ok (e_limits env) fs" using 2(1) p by simp
  let ?bs = "tok '')'' @ (if fs = [] then [] else tok '')'')"
  have bytes: "progress_bytes p' = progress_bytes p @ ?bs"
    using close_node_state(1) [OF parents, of "NDirectory es"] by (simp add: p)
  have fin: "end_directory env (state_of w n p) =
      finish_node env (nar_kind (NDirectory es)) ((state_of w n p)\<lparr>e_digest := progress_bytes p, e_raw_size := length (progress_bytes p)\<rparr>)"
    by (simp add: p end_directory_def state_of_def)
  have st: "(state_of w' n p')\<lparr>e_digest := progress_bytes p @ ?bs, e_raw_size := length (progress_bytes p) + length ?bs,
      e_files := progress_files p, e_symlinks := progress_symlinks p\<rparr> = state_of w' n p'" for w'
    using close_node_state [OF parents, of "NDirectory es"] by (simp add: state_of_def p)
  have "end_directory env (state_of w n p) = Inr ((), s') \<longleftrightarrow>
      length (progress_bytes p @ ?bs) \<le> total_cap (e_limits env) \<and> (\<exists>w'. put w ?bs = Inr w' \<and> s' = state_of w' n p')"
    using finish_node_state [OF assms parents, where t = "NDirectory es" and f = "OpenDir es None" and w = w and n = n and
        d = "progress_bytes p" and r = "length (progress_bytes p)" and s' = s']
    unfolding fin p(1) [symmetric] p(2) [symmetric] st by (simp add: add.assoc)
  then show ?case using bytes by blast
qed

lemma bindS_modifyS_Inr:
  "bindS m (\<lambda>_. modifyS f) s = Inr ((), s') \<longleftrightarrow> (\<exists>s1. m s = Inr ((), s1) \<and> s' = f s1)" for m :: "('w, unit) enc"
  by (auto simp: bindS_Inr_iff)

lemma write_padding_pad: "write_padding env n = write_bytes env (pad_zeros n)"
  by (simp add: write_padding_def pad_zeros_def padding_len_def min_def)

lemma put_in_two:
  "(a \<le> c \<and> (\<exists>w1. put w xs = Inr w1 \<and> b \<le> c \<and> (\<exists>w2. put w1 ys = Inr w2 \<and> P w2))) \<longleftrightarrow>
   b \<le> c \<and> (\<exists>w2. put w (xs @ ys) = Inr w2 \<and> P w2)" if "a \<le> (b :: nat)"
  using that by (auto simp: put_append)

text \<open>Closing a node and then counting it.\<close>

lemma finish_node_counted:
  assumes put: "write_all env = put" and t: "parents_ok l fs" "nar_entries t = open_entries f" "nar_kind t = open_kind f"
  defines "bs \<equiv> tok '')'' @ (if fs = [] then [] else tok '')'')"
  assumes upd: "\<And>w'. r + length bs \<le> total_cap (e_limits env) \<Longrightarrow>
      upd ((state_of w' n (close_node fs t))\<lparr>e_digest := d @ bs, e_raw_size := r + length bs,
        e_files := progress_files (Building f fs), e_symlinks := progress_symlinks (Building f fs)\<rparr>) = state_of w' n (close_node fs t)"
  shows "bindS (finish_node env (nar_kind t)) (\<lambda>_. modifyS upd)
      ((state_of w n (Building f fs))\<lparr>e_digest := d, e_raw_size := r\<rparr>) = Inr ((), s') \<longleftrightarrow>
    r + length bs \<le> total_cap (e_limits env) \<and> (\<exists>w'. put w bs = Inr w' \<and> s' = state_of w' n (close_node fs t))"
  unfolding bindS_modifyS_Inr finish_node_state [OF put t, folded bs_def]
  using upd by metis

lemma implements_end_file:
  assumes "write_all env = put"
  shows "implements env EndFile (end_file env)"
proof (rule implementsI [OF assms], goal_cases)
  case (1 p w n s')
  then show ?case
    by (cases "(e_limits env, p, EndFile)" rule: advance.cases)
      (auto simp: state_of_def end_file_def split: if_splits Node.splits)
next
  case (2 p w n s' p')
  from 2(2) obtain x body fs where p: "p = Building (OpenFile x (length body) body) fs" "p' = close_node fs (NRegular x body)"
    by (elim advance_elims) (auto split: if_splits)
  have parents: "parents_ok (e_limits env) fs" using 2(1) p by simp
  let ?pad = "pad_zeros (length body)" and ?bs = "tok '')'' @ (if fs = [] then [] else tok '')'')"
  let ?t = "NRegular x body" and ?d = "progress_bytes p @ pad_zeros (length body)"
  note cl = close_node_state [OF parents, of ?t]
  have bytes: "progress_bytes p' = progress_bytes p @ ?pad @ ?bs" and files: "progress_files p' = progress_files p + 1"
    using cl(1,3) by (simp_all add: p nar_str_def)
  have fin: "end_file env (state_of w n p) =
      bindS (write_bytes env ?pad) (\<lambda>_. bindS (finish_node env (nar_kind ?t)) (\<lambda>_.
        modifyS (\<lambda>s. s\<lparr>e_files := saturating_add_u64 (e_files s) 1\<rparr>))) (state_of w n p)"
    by (simp add: p end_file_def state_of_def write_padding_pad)
  have mid: "(state_of w n p)\<lparr>e_writer := w1, e_digest := e_digest (state_of w n p) @ ?pad,
      e_raw_size := e_raw_size (state_of w n p) + length ?pad\<rparr> = (state_of w1 n p)\<lparr>e_digest := ?d, e_raw_size := length ?d\<rparr>"
      "e_raw_size (state_of w n p) = length (progress_bytes p)" "e_writer (state_of w n p) = w" for w1
    by (simp_all add: state_of_def)
  have upd: "(\<lambda>s. s\<lparr>e_files := saturating_add_u64 (e_files s) 1\<rparr>) ((state_of w2 n p')\<lparr>e_digest := ?d @ ?bs, e_raw_size := length ?d + length ?bs,
        e_files := progress_files p, e_symlinks := progress_symlinks p\<rparr>) = state_of w2 n p'"
    if "length ?d + length ?bs \<le> total_cap (e_limits env)" for w2
    using saturating_count [of "progress_files p" p' "e_limits env"] that files bytes cl(4) by (simp add: state_of_def p)
  have last: "bindS (finish_node env (nar_kind ?t)) (\<lambda>_. modifyS (\<lambda>s. s\<lparr>e_files := saturating_add_u64 (e_files s) 1\<rparr>))
        ((state_of w1 n p)\<lparr>e_digest := ?d, e_raw_size := length ?d\<rparr>) = Inr ((), s') \<longleftrightarrow>
      length ?d + length ?bs \<le> total_cap (e_limits env) \<and> (\<exists>w2. put w1 ?bs = Inr w2 \<and> s' = state_of w2 n p')" for w1
    using finish_node_counted [OF assms parents _ _ upd [unfolded p]] unfolding p by simp
  have "end_file env (state_of w n p) = Inr ((), s') \<longleftrightarrow>
      length ?d + length ?bs \<le> total_cap (e_limits env) \<and> (\<exists>w'. put w (?pad @ ?bs) = Inr w' \<and> s' = state_of w' n p')"
    unfolding fin write_then [OF assms] mid(1) unfolding mid(2,3) last by (rule put_in_two) simp
  then show ?case using bytes by (intro exI [where x = "?pad @ ?bs"]) (simp add: add.assoc)
qed

lemma symlink_ok:
  assumes "write_all env = put"
  shows "same_ok (symlink env target)
    (if \<not> (valid_target target \<and> length target \<le> max_symlink_target_bytes (e_limits env)) then failS e
     else bindS (begin_node env Symlink) (\<lambda>_. bindS (write_bytes env (symlink_head @ nar_str target @ tok '')''))
       (\<lambda>_. bindS (finish_parent env) (\<lambda>_. modifyS (\<lambda>s. s\<lparr>e_symlinks := saturating_add_u64 (e_symlinks s) 1\<rparr>)))))"
proof (cases "valid_target target \<and> length target \<le> max_symlink_target_bytes (e_limits env)")
  case True
  then have v: "validate_symlink_target target = Inr ()"
    by (simp add: validate_symlink_target_def valid_target_def)
  have fin: "same_ok (bindS (finish_atomic env) k) (bindS (write_bytes env (tok '')'')) (\<lambda>_. bindS (finish_parent env) k))"
    for k :: "unit \<Rightarrow> ('w, unit) enc"
    unfolding finish_atomic_def bindS_assoc by (rule string_last [OF assms same_ok_refl])
  have head: "symlink_head @ b = tok ''('' @ tok ''type'' @ tok ''symlink'' @ tok ''target'' @ b" for b
    by (simp add: symlink_head_def)
  have "same_ok (bindS (begin_node env Symlink) (\<lambda>_.
        bindS (write_string env (ascii ''('')) (\<lambda>_.
        bindS (write_string env (ascii ''type'')) (\<lambda>_.
        bindS (write_string env (ascii ''symlink'')) (\<lambda>_.
        bindS (write_string env (ascii ''target'')) (\<lambda>_.
        bindS (write_string env target) (\<lambda>_. bindS (finish_atomic env) k)))))))
     (bindS (begin_node env Symlink) (\<lambda>_. bindS (write_bytes env (symlink_head @ nar_str target @ tok '')''))
       (\<lambda>_. bindS (finish_parent env) k)))" for k :: "unit \<Rightarrow> ('w, unit) enc"
    unfolding head by (rule same_ok_bindS [OF same_ok_refl], (rule string_step [OF assms])+, rule fin)
  with True show ?thesis
    by (simp add: symlink_def v bindS_def [of "retS ()"])
next
  case False
  have "(case validate_symlink_target target of Inl e \<Rightarrow> failS (EncodeNonCanonical e) | Inr _ \<Rightarrow> retS ()) s = Inl (EncodeNonCanonical x)"
    if "validate_symlink_target target = Inl x" for x and s :: "'w Encoder"
    using that by simp
  with False show ?thesis
    unfolding same_ok_def symlink_def
    by (auto simp: bindS_def valid_target_def validate_symlink_target_def)
qed

lemma implements_symlink:
  assumes "write_all env = put"
  shows "implements env (SymlinkTo target) (symlink env target)"
proof (rule implementsI [OF assms], goal_cases)
  case (1 p w n s')
  then show ?case
    unfolding same_okD [OF symlink_ok [OF assms, where e = "EncodeInvalid []"]] assert_Inr begin_write [OF assms]
    by (auto split: if_splits)
next
  case (2 p w n s' p')
  then obtain fs where fs: "begin_context (e_limits env) p = Some fs" "p' = close_node fs (NSymlink target)"
      "valid_target target \<and> length target \<le> max_symlink_target_bytes (e_limits env)"
    by (auto split: if_splits)
  have c: "node_context p = Some fs" using fs(1) by (simp add: begin_context_Some)
  have parents: "parents_ok (e_limits env) fs"
    using c 2(1) by (cases p rule: node_context.cases) auto
  let ?a = "symlink_head @ nar_str target @ tok '')''" and ?upd = "\<lambda>s. s\<lparr>e_symlinks := saturating_add_u64 (e_symlinks s) 1\<rparr>"
  let ?bs = "?a @ (if fs = [] then [] else tok '')'')" and ?k = "if fs = [] then Symlink else open_kind (last fs)"
  let ?s = "(state_of w n p)\<lparr>e_root := RootOpen ?k\<rparr>"
  note st = node_context_state [OF c] and cl = close_node_state [OF parents, of "NSymlink target"]
  have bytes: "progress_bytes p' = progress_bytes p @ ?bs" and links: "progress_symlinks p' = progress_symlinks p + 1"
    using cl(1,4) st by (simp_all add: fs(2))
  have b: "begin_node env Symlink (state_of w n p) = Inr ((), ?s)"
    using fs(1) st(6) unfolding begin_node_state by auto
  have s: "e_stack ?s = map node_of fs" "e_root ?s = RootOpen ?k" "e_raw_size ?s = length (progress_bytes p)" "e_writer ?s = w"
    using st(2) by (simp_all add: state_of_def)
  have upd: "?upd (?s\<lparr>e_writer := w', e_digest := e_digest ?s @ ?bs, e_raw_size := length (progress_bytes p) + length ?bs,
         e_root := if fs = [] then Complete ?k else RootOpen ?k, e_stack := stack_of p'\<rparr>) = state_of w' n p'"
    if "length (progress_bytes p) + length ?bs \<le> total_cap (e_limits env)" for w'
    using saturating_count [of "progress_symlinks p" p' "e_limits env"] that links bytes cl(2,3,5) st(3,4) fs(2)
    by (simp add: state_of_def)
  have "symlink env target (state_of w n p) = Inr ((), s') \<longleftrightarrow>
      bindS (bindS (write_bytes env ?a) (\<lambda>_. finish_parent env)) (\<lambda>_. modifyS ?upd) ?s = Inr ((), s')"
    unfolding same_okD [OF symlink_ok [OF assms, where e = "EncodeInvalid []"]] assert_Inr bindS_assoc
      bindS_ok [where m = "begin_node env Symlink", OF b] using fs(3) by simp
  also have "\<dots> \<longleftrightarrow> length (progress_bytes p) + length ?bs \<le> total_cap (e_limits env) \<and>
      (\<exists>w'. put w ?bs = Inr w' \<and> s' = state_of w' n p')"
    unfolding bindS_modifyS_Inr finish_write [OF assms s(1) parents s(2), where t = "NSymlink target", folded fs(2)] s(3,4)
    using upd by metis
  finally show ?case using bytes by (intro exI [where x = ?bs]) simp
qed

lemma push_state:
  assumes put: "write_all env = put" and lim: "max_entries (e_limits env) \<le> u64_max" and ok: "progress_ok (e_limits env) p"
  shows "push env ev (state_of w n p) = Inr ((), s') \<longleftrightarrow>
    saturating_add_u64 n 1 \<le> max_work (e_limits env) \<and>
    (\<exists>p' bs w'. advance (e_limits env) p ev = Some p' \<and> progress_bytes p' = progress_bytes p @ bs \<and>
       length (progress_bytes p @ bs) \<le> total_cap (e_limits env) \<and> put w bs = Inr w' \<and>
       s' = state_of w' (saturating_add_u64 n 1) p')"
proof -
  let ?m = "case ev of BeginDirectory \<Rightarrow> begin_directory env | Entry name \<Rightarrow> entry env name
       | BeginFile executable sz \<Rightarrow> begin_file env executable sz | FileChunk chunk \<Rightarrow> file_chunk env chunk
       | EndFile \<Rightarrow> end_file env | SymlinkTo target \<Rightarrow> symlink env target | EndDirectory \<Rightarrow> end_directory env"
  have "implements env ev ?m"
    by (cases ev) (simp_all add: implements_begin_directory implements_entry implements_begin_file implements_file_chunk
        implements_end_file implements_symlink implements_end_directory put lim)
  then have "?m (state_of w k p) = Inr ((), s') \<longleftrightarrow>
    (\<exists>p' bs w'. advance (e_limits env) p ev = Some p' \<and> progress_bytes p' = progress_bytes p @ bs \<and>
       length (progress_bytes p @ bs) \<le> total_cap (e_limits env) \<and> put w bs = Inr w' \<and> s' = state_of w' k p')" for k
    unfolding implements_def put using ok by blast
  moreover have "encoder_bump_work env (state_of w n p) =
      (if saturating_add_u64 n 1 \<le> max_work (e_limits env) then Inr ((), state_of w (saturating_add_u64 n 1) p)
       else Inl (EncodeLimitExceeded ''work'' (max_work (e_limits env)) (saturating_add_u64 n 1)))"
    by (simp add: encoder_bump_work_def state_of_def Let_def)
  ultimately show ?thesis
    unfolding push_def by (simp add: bindS_apply [of "encoder_bump_work env"])
qed

lemma push_all_Cons:
  "push_all env s (ev # evs) = Inr s' \<longleftrightarrow> (\<exists>s1. push env ev s = Inr ((), s1) \<and> push_all env s1 evs = Inr s')"
  by (auto simp: push_all_def bindR_Inr_iff)

lemma push_all_state:
  assumes put: "write_all env = put" and lim: "max_entries (e_limits env) \<le> u64_max"
  shows "progress_ok (e_limits env) p \<Longrightarrow> progress_spells p pre \<Longrightarrow> n \<le> u64_max \<Longrightarrow>
    length (progress_bytes p) \<le> total_cap (e_limits env) \<Longrightarrow>
    push_all env (state_of w n p) evs = Inr s' \<longleftrightarrow>
    (evs \<noteq> [] \<longrightarrow> work_after n (length evs) \<le> max_work (e_limits env)) \<and>
    (\<exists>p' bs w'. build (e_limits env) p evs = Some p' \<and> progress_bytes p' = progress_bytes p @ bs \<and>
       length (progress_bytes p') \<le> total_cap (e_limits env) \<and> put w bs = Inr w' \<and>
       s' = state_of w' (work_after n (length evs)) p')"
proof (induction evs arbitrary: p pre n w)
  case Nil
  then show ?case by (auto simp: push_all_def put_Nil work_after_def)
next
  case (Cons ev evs)
  let ?l = "e_limits env" and ?n = "saturating_add_u64 n 1"
  have n: "?n \<le> u64_max" "work_after ?n (length evs) = work_after n (length (ev # evs))"
      "evs = [] \<Longrightarrow> ?n = work_after n (length (ev # evs))" "?n \<le> work_after n (length (ev # evs))"
    using Cons.prems(3) by (auto simp: saturating_add_u64_def work_after_def)
  show ?case
  proof (cases "advance ?l p ev")
    case None
    then show ?thesis by (simp add: push_all_Cons push_state [OF put lim Cons.prems(1)])
  next
    case (Some p1)
    obtain bs1 where b1: "progress_bytes p1 = progress_bytes p @ bs1"
      using advance_extends [OF Some Cons.prems(1)] by blast
    have p1: "progress_ok ?l p1" "progress_spells p1 (pre @ [ev])"
      using advance_ok [OF Some Cons.prems(1,2)] by auto
    have push: "push env ev (state_of w n p) = Inr ((), s1) \<longleftrightarrow> ?n \<le> max_work ?l \<and>
        length (progress_bytes p1) \<le> total_cap ?l \<and> (\<exists>w1. put w bs1 = Inr w1 \<and> s1 = state_of w1 ?n p1)" for s1
      using Some b1 by (auto simp: push_state [OF put lim Cons.prems(1)])
    show ?thesis
    proof (cases "build ?l p1 evs")
      case None
      then have "\<not> (push env ev (state_of w n p) = Inr ((), s1) \<and> push_all env s1 evs = Inr s')" for s1
        unfolding push using Cons.IH [OF p1 n(1)] by auto
      with None Some show ?thesis by (simp add: push_all_Cons)
    next
      case (Some p2)
      obtain bs2 where b2: "progress_bytes p2 = progress_bytes p1 @ bs2"
        using build_extends [OF Some p1] by blast
      have rest: "push_all env (state_of w1 ?n p1) evs = Inr s' \<longleftrightarrow>
          (evs \<noteq> [] \<longrightarrow> work_after n (length (ev # evs)) \<le> max_work ?l) \<and> length (progress_bytes p2) \<le> total_cap ?l \<and>
          (\<exists>w2. put w1 bs2 = Inr w2 \<and> s' = state_of w2 (work_after n (length (ev # evs))) p2)"
        if "length (progress_bytes p1) \<le> total_cap ?l" for w1
        unfolding Cons.IH [OF p1 n(1) that] n(2) using Some b2 by auto
      have "push_all env (state_of w n p) (ev # evs) = Inr s' \<longleftrightarrow>
          work_after n (length (ev # evs)) \<le> max_work ?l \<and> length (progress_bytes p2) \<le> total_cap ?l \<and>
          (\<exists>w2. put w (bs1 @ bs2) = Inr w2 \<and> s' = state_of w2 (work_after n (length (ev # evs))) p2)"
        unfolding push_all_Cons push put_append using rest n(3,4) b2 by (cases "evs = []") auto
      then show ?thesis using \<open>advance ?l p ev = Some p1\<close> Some b1 b2 by simp
    qed
  qed
qed

lemma encoder_with_limits_state:
  assumes "write_all env = put"
  shows "encoder_with_limits env w = Inr s \<longleftrightarrow> length (progress_bytes Fresh) \<le> total_cap (e_limits env) \<and>
    (\<exists>w'. put w (progress_bytes Fresh) = Inr w' \<and> s = state_of w' 0 Fresh)"
proof -
  let ?s0 = "\<lparr>e_writer = w, e_digest = [], e_raw_size = 0, e_root = Awaiting, e_stack = [],
        e_entries = 0, e_files = 0, e_symlinks = 0, e_work = 0\<rparr>"
  have "write_string env (ascii ''nix-archive-1'') ?s0 = Inr ((), s) \<longleftrightarrow>
      write_bytes env (tok ''nix-archive-1'') ?s0 = Inr ((), s)"
    by (rule same_okD [OF write_string_ok [OF assms]])
  then show ?thesis
    unfolding encoder_with_limits_def by (auto simp: bindR_Inr_iff write_bytes_Inr state_of_def assms)
qed

lemma encode_run:
  assumes put: "write_all env = put" and lim: "max_entries (e_limits env) \<le> u64_max"
  shows "encode sha256 env w evs = Inr (w', sm) \<longleftrightarrow>
    (\<exists>t w1 bs. (evs \<noteq> [] \<longrightarrow> work_after 0 (length evs) \<le> max_work (e_limits env)) \<and>
      build (e_limits env) Fresh evs = Some (Done t) \<and> nar_bytes t = progress_bytes Fresh @ bs \<and>
      length (nar_bytes t) \<le> total_cap (e_limits env) \<and> put w (progress_bytes Fresh) = Inr w1 \<and>
      put w1 bs = Inr w' \<and> sm = encode_summary sha256 t)" (is "_ \<longleftrightarrow> ?rhs")
proof -
  let ?l = "e_limits env" and ?m = "progress_bytes Fresh"
  have run: "push_all env (state_of w1 0 Fresh) evs = Inr s' \<longleftrightarrow>
      (evs \<noteq> [] \<longrightarrow> work_after 0 (length evs) \<le> max_work ?l) \<and>
      (\<exists>p' bs w'. build ?l Fresh evs = Some p' \<and> progress_bytes p' = ?m @ bs \<and>
         length (progress_bytes p') \<le> total_cap ?l \<and> put w1 bs = Inr w' \<and> s' = state_of w' (work_after 0 (length evs)) p')"
    if "length ?m \<le> total_cap ?l" for w1 s'
    using push_all_state [OF put lim, of Fresh "[]" 0] that by simp
  have "encode sha256 env w evs = Inr (w', sm) \<longleftrightarrow>
      (\<exists>s s'. encoder_with_limits env w = Inr s \<and> push_all env s evs = Inr s' \<and> finish sha256 s' = Inr (w', sm))"
    unfolding encode_def by (auto simp: bindR_Inr_iff)
  also have "\<dots> \<longleftrightarrow> ?rhs"
  proof
    assume "\<exists>s s'. encoder_with_limits env w = Inr s \<and> push_all env s evs = Inr s' \<and> finish sha256 s' = Inr (w', sm)"
    then obtain w1 s' where w1: "length ?m \<le> total_cap ?l" "put w ?m = Inr w1" and
      s': "push_all env (state_of w1 0 Fresh) evs = Inr s'" "finish sha256 s' = Inr (w', sm)"
      unfolding encoder_with_limits_state [OF put] by blast
    from s'(1) [unfolded run [OF w1(1)]] obtain p' bs w2 where
      *: "evs \<noteq> [] \<longrightarrow> work_after 0 (length evs) \<le> max_work ?l" "build ?l Fresh evs = Some p'" "progress_bytes p' = ?m @ bs"
      "length (progress_bytes p') \<le> total_cap ?l" "put w1 bs = Inr w2" "s' = state_of w2 (work_after 0 (length evs)) p'" by blast
    from s'(2) [unfolded *(6) finish_state] obtain t where "p' = Done t" "w' = w2" "sm = encode_summary sha256 t" by blast
    with * w1 show ?rhs by (intro exI [where x = t] exI [where x = w1] exI [where x = bs]) simp
  next
    assume ?rhs
    then obtain t w1 bs where
      *: "evs \<noteq> [] \<longrightarrow> work_after 0 (length evs) \<le> max_work ?l" "build ?l Fresh evs = Some (Done t)" "nar_bytes t = ?m @ bs"
      "length (nar_bytes t) \<le> total_cap ?l" "put w ?m = Inr w1" "put w1 bs = Inr w'" "sm = encode_summary sha256 t" by blast
    then have m: "length ?m \<le> total_cap ?l" by simp
    have "push_all env (state_of w1 0 Fresh) evs = Inr (state_of w' (work_after 0 (length evs)) (Done t))"
      unfolding run [OF m] using *(1)
      by (intro conjI exI [where x = "Done t"] exI [where x = bs] exI [where x = w'] refl) (use * in simp_all)
    moreover have "encoder_with_limits env w = Inr (state_of w1 0 Fresh)"
      unfolding encoder_with_limits_state [OF put] using m * by blast
    moreover have "finish sha256 (state_of w' (work_after 0 (length evs)) (Done t)) = Inr (w', sm)"
      unfolding finish_state using *(7) by simp
    ultimately show "\<exists>s s'. encoder_with_limits env w = Inr s \<and> push_all env s evs = Inr s' \<and> finish sha256 s' = Inr (w', sm)"
      by (intro exI conjI)
  qed
  finally show ?thesis .
qed

lemma encode_iff:
  assumes put: "write_all env = put" and lim: "limits_u64 (e_limits env)"
  shows "encode sha256 env w evs = Inr (w', sm) \<longleftrightarrow>
    (\<exists>t. encodable (e_limits env) t evs \<and> put w (nar_bytes t) = Inr w' \<and> sm = encode_summary sha256 t)"
proof -
  have l: "max_entries (e_limits env) \<le> u64_max" "total_cap (e_limits env) = max_total_bytes (e_limits env)"
    using lim by (simp_all add: limits_u64_def total_cap_def)
  have magic: "nar_bytes t = progress_bytes Fresh @ node_bytes t" for t by (simp add: nar_bytes_def)
  show ?thesis
    unfolding encode_run [OF put l(1)] build_iff magic put_append encodable_def l work_after_def
    using spells_not_Nil by auto
qed

end

subsection \<open>Properties\<close>

text \<open>C6: on a destination where writing two slices is writing their concatenation, creating an encoder,
  pushing a list of events and finishing succeeds exactly when the events spell a tree that satisfies the
  format's rules and every limit and the destination takes its canonical bytes; it then holds exactly those
  bytes, and the summary has the tree's kind, size, hash and counts.\<close>

theorem encode_accepts_exactly:
  assumes "byte_writer (write_all env)" and "limits_u64 (e_limits env)"
  shows "encode sha256 env w evs = Inr (w', sm) \<longleftrightarrow>
    (\<exists>t. encodable (e_limits env) t evs \<and> write_all env w (nar_bytes t) = Inr w' \<and> sm = encode_summary sha256 t)"
  by (rule byte_writer.encode_iff [OF assms(1) refl assms(2)])

definition vec_env :: "bytes encode_env" where
  "vec_env = \<lparr>e_limits = default_limits, write_all = write_vec\<rparr>"

lemma default_limits_u64: "limits_u64 default_limits"
  by (simp add: limits_u64_def default_limits_def u64_max_def)

definition sample_tree :: Nar where
  "sample_tree = NDirectory [(ascii ''a'', NRegular True (ascii ''hi'')), (ascii ''b'', NSymlink (ascii ''a''))]"

abbreviation sample_events :: "EncEvent list" where
  "sample_events \<equiv> [BeginDirectory, Entry (ascii ''a''), BeginFile True 2, FileChunk (ascii ''h''), FileChunk [],
     FileChunk (ascii ''i''), EndFile, Entry (ascii ''b''), SymlinkTo (ascii ''a''), EndDirectory]"

lemma sample_spelled: "spells sample_tree sample_events"
proof -
  have f: "spells (NRegular True (ascii ''hi'')) [BeginFile True 2, FileChunk (ascii ''h''), FileChunk [], FileChunk (ascii ''i''), EndFile]"
    using spells_file [of "[ascii ''h'', [], ascii ''i'']" "ascii ''hi''" True] by (simp add: ascii_def numeral_2_eq_2)
  have "entries_spell ([] @ [(ascii ''a'', NRegular True (ascii ''hi''))])
      ([] @ Entry (ascii ''a'') # [BeginFile True 2, FileChunk (ascii ''h''), FileChunk [], FileChunk (ascii ''i''), EndFile])"
    by (rule spell_snoc [OF spell_none f])
  from spells_directory [OF spell_snoc [OF this spells_symlink, of "ascii ''b''" "ascii ''a''"]]
  show ?thesis by (simp add: sample_tree_def)
qed

lemma sample_encodable: "encodable default_limits sample_tree sample_events"
  unfolding encodable_def
  by (intro conjI sample_spelled)
    (simp_all add: sample_tree_def nar_ok_def default_limits_def valid_entry_name_def valid_target_def nar_bytes_def
      directory_head_def entry_head_def regular_head_def symlink_head_def length_nar_str padding_len_def ascii_def u64_max_def)

theorem encode_accepts_exactly_witness:
  "encode id vec_env [] sample_events = Inr (nar_bytes sample_tree, encode_summary id sample_tree)"
proof -
  have "byte_writer (write_all vec_env)" "limits_u64 (e_limits vec_env)"
    by (simp_all add: vec_env_def vec.byte_writer_axioms default_limits_u64)
  from encode_accepts_exactly [OF this] show ?thesis
    using sample_encodable by (auto simp: vec_env_def write_vec_def)
qed

end
