(* ===== verification/Nar_Decode_Correct.thy ===== *)
theory Nar_Decode_Correct
  imports Nar_Tree
begin

section \<open>The decoder accepts exactly the canonical archives\<close>

text \<open>
  A calculus of relational specifications for decoder steps.  An \<open>effect\<close> is what a step takes
  from the reader, the events it delivers and what it adds to the counters.  \<open>spec env m R\<close> says
  that \<open>R\<close> describes \<open>m\<close> in both directions: every success of \<open>m\<close> has a result and an effect
  related by \<open>R\<close> (soundness), and wherever a related effect is admitted by the pending input, the
  limits and the sink, \<open>m\<close> succeeds with it (completeness).  The relation also sees the offset of
  the step in the stream.  The rules follow the monad, so one specification per function of
  \<open>src/src/nar.rs\<close> carries the proof up to \<open>decode_iff\<close>: the decoder succeeds exactly on the canonical
  encoding of a tree within its limits, with that tree's events and counts.
\<close>

subsection \<open>Effects\<close>

record effect =
  taken :: bytes
  delivered :: "Event list"
  d_entries :: nat
  d_files :: nat
  d_symlinks :: nat
  d_work :: nat

definition no_effect :: effect where
  "no_effect = \<lparr>taken = [], delivered = [], d_entries = 0, d_files = 0, d_symlinks = 0, d_work = 0\<rparr>"

definition takes :: "bytes \<Rightarrow> effect" where
  "takes c = no_effect\<lparr>taken := c\<rparr>"

definition emits :: "Event list \<Rightarrow> effect" where
  "emits es = no_effect\<lparr>delivered := es\<rparr>"

definition one_work :: effect where
  "one_work = no_effect\<lparr>d_work := 1\<rparr>"

definition then_eff :: "effect \<Rightarrow> effect \<Rightarrow> effect" where
  "then_eff f g =
     \<lparr>taken = taken f @ taken g, delivered = delivered f @ delivered g, d_entries = d_entries f + d_entries g,
      d_files = d_files f + d_files g, d_symlinks = d_symlinks f + d_symlinks g,
      d_work = d_work f + d_work g\<rparr>"

definition sat_plus :: "nat \<Rightarrow> nat \<Rightarrow> nat" where
  "sat_plus a d = (if d = 0 then a else min (a + d) u64_max)"

definition has_effect :: "('s, 'e) decode_env \<Rightarrow> 's Decoder \<Rightarrow> effect \<Rightarrow> 's Decoder \<Rightarrow> bool" where
  "has_effect env s f s' \<longleftrightarrow>
     pending s = taken f @ pending s' \<and> reader_fault (reader s') = reader_fault (reader s) \<and>
     digest s' = digest s @ taken f \<and> raw_bytes s' = raw_bytes s + length (taken f) \<and>
     (taken f \<noteq> [] \<longrightarrow> raw_bytes s' \<le> total_cap (limits env)) \<and>
     try_fold (sink env) (sink_state s) (delivered f) = Inr (sink_state s') \<and>
     c_entries (counters s') = c_entries (counters s) + d_entries f \<and>
     (d_entries f \<noteq> 0 \<longrightarrow> c_entries (counters s') \<le> max_entries (limits env)) \<and>
     c_files (counters s') = sat_plus (c_files (counters s)) (d_files f) \<and>
     c_symlinks (counters s') = sat_plus (c_symlinks (counters s)) (d_symlinks f) \<and>
     work s' = sat_plus (work s) (d_work f) \<and>
     (d_work f \<noteq> 0 \<longrightarrow> work s' \<le> max_work (limits env))"

definition admits :: "('s, 'e) decode_env \<Rightarrow> 's Decoder \<Rightarrow> effect \<Rightarrow> bytes \<Rightarrow> bool" where
  "admits env s f rest \<longleftrightarrow>
     pending s = taken f @ rest \<and> raw_bytes s + length (taken f) \<le> total_cap (limits env) \<and>
     (\<exists>k. try_fold (sink env) (sink_state s) (delivered f) = Inr k) \<and>
     c_entries (counters s) + d_entries f \<le> max_entries (limits env) \<and>
     work s + d_work f \<le> max_work (limits env)"

text \<open>What completeness assumes of the environment: \<open>u64\<close> limits and an allocator that delivers.\<close>

definition env_ok :: "('s, 'e) decode_env \<Rightarrow> bool" where
  "env_ok env \<longleftrightarrow> limits_u64 (limits env) \<and> (\<forall>n. can_reserve env n)"

lemma effect_simps [simp]:
  "taken no_effect = []" "delivered no_effect = []" "d_entries no_effect = 0" "d_files no_effect = 0"
  "d_symlinks no_effect = 0" "d_work no_effect = 0"
  "taken (takes c) = c" "delivered (takes c) = []" "d_entries (takes c) = 0" "d_files (takes c) = 0"
  "d_symlinks (takes c) = 0" "d_work (takes c) = 0"
  "taken (emits es) = []" "delivered (emits es) = es" "d_entries (emits es) = 0" "d_files (emits es) = 0"
  "d_symlinks (emits es) = 0" "d_work (emits es) = 0"
  "taken one_work = []" "delivered one_work = []" "d_entries one_work = 0" "d_files one_work = 0"
  "d_symlinks one_work = 0" "d_work one_work = 1"
  "taken (then_eff f g) = taken f @ taken g" "delivered (then_eff f g) = delivered f @ delivered g"
  "d_entries (then_eff f g) = d_entries f + d_entries g"
  "d_files (then_eff f g) = d_files f + d_files g"
  "d_symlinks (then_eff f g) = d_symlinks f + d_symlinks g"
  "d_work (then_eff f g) = d_work f + d_work g"
  by (simp_all add: no_effect_def takes_def emits_def one_work_def then_eff_def)

lemma effect_eqI:
  "taken f = taken g \<Longrightarrow> delivered f = delivered g \<Longrightarrow> d_entries f = d_entries g \<Longrightarrow> d_files f = d_files g \<Longrightarrow>
   d_symlinks f = d_symlinks g \<Longrightarrow> d_work f = d_work g \<Longrightarrow> f = (g :: effect)"
  by (cases f; cases g) simp

lemma then_eff_assoc: "then_eff (then_eff f g) h = then_eff f (then_eff g h)"
  by (rule effect_eqI) simp_all

lemma then_eff_no_effect [simp]: "then_eff no_effect f = f" "then_eff f no_effect = f"
  by (rule effect_eqI; simp)+

lemma then_eff_takes: "then_eff (takes a) (takes b) = takes (a @ b)"
  by (rule effect_eqI) simp_all

lemma takes_Nil [simp]: "takes [] = no_effect"
  by (rule effect_eqI) simp_all

lemma sat_plus_add: "sat_plus (sat_plus a b) c = sat_plus a (b + c)"
  by (auto simp: sat_plus_def)

lemma sat_plus_0 [simp]: "sat_plus a 0 = a"
  by (simp add: sat_plus_def)

lemma sat_plus_le: "sat_plus a b \<le> a + b"
  by (simp add: sat_plus_def)

lemma saturating_add_sat_plus: "saturating_add_u64 a (Suc 0) = sat_plus a (Suc 0)"
  by (simp add: saturating_add_u64_def sat_plus_def)

lemma has_effect_refl [simp]: "has_effect env s no_effect s"
  by (simp add: has_effect_def)

lemma has_effect_trans:
  assumes "has_effect env s f t" and "has_effect env t g u"
  shows "has_effect env s (then_eff f g) u"
proof -
  have "taken f @ taken g \<noteq> [] \<Longrightarrow> raw_bytes u \<le> total_cap (limits env)"
    using assms unfolding has_effect_def by (cases "taken g = []") auto
  moreover have "d_entries f + d_entries g \<noteq> 0 \<Longrightarrow> c_entries (counters u) \<le> max_entries (limits env)"
    using assms unfolding has_effect_def by (cases "d_entries g = 0") auto
  moreover have "d_work f + d_work g \<noteq> 0 \<Longrightarrow> work u \<le> max_work (limits env)"
    using assms unfolding has_effect_def by (cases "d_work g = 0") auto
  ultimately show ?thesis
    using assms unfolding has_effect_def effect_simps
    by (elim conjE, intro conjI impI) (simp_all add: try_fold_append sat_plus_add)
qed

lemma admits_first: "admits env s (then_eff f g) rest \<Longrightarrow> admits env s f (taken g @ rest)"
  unfolding admits_def by (auto simp: try_fold_append run_simps)

lemma admits_second:
  assumes "admits env s (then_eff f g) rest" and "has_effect env s f t"
  shows "admits env t g rest"
  using assms sat_plus_le [of "work s" "d_work f"] unfolding admits_def has_effect_def
  by (auto simp: try_fold_append run_simps)

subsection \<open>Specifications of steps\<close>

definition spec ::
  "('s, 'e) decode_env \<Rightarrow> ('s, 'e, 'a) dec \<Rightarrow> (nat \<Rightarrow> 'a \<Rightarrow> effect \<Rightarrow> bool) \<Rightarrow> bool" where
  "spec env m R \<longleftrightarrow>
     (\<forall>s x s'. m s = Inr (x, s') \<longrightarrow> (\<exists>f. R (raw_bytes s) x f \<and> has_effect env s f s')) \<and>
     (env_ok env \<longrightarrow> (\<forall>s x f rest. R (raw_bytes s) x f \<longrightarrow> admits env s f rest \<longrightarrow>
        (\<exists>s'. m s = Inr (x, s') \<and> has_effect env s f s')))"

lemma spec_sound: "spec env m R \<Longrightarrow> m s = Inr (x, s') \<Longrightarrow> \<exists>f. R (raw_bytes s) x f \<and> has_effect env s f s'"
  by (auto simp: spec_def)

lemma spec_complete:
  "spec env m R \<Longrightarrow> env_ok env \<Longrightarrow> R (raw_bytes s) x f \<Longrightarrow> admits env s f rest \<Longrightarrow>
   \<exists>s'. m s = Inr (x, s') \<and> has_effect env s f s'"
  unfolding spec_def by blast

lemma specI:
  assumes "\<And>s x s'. m s = Inr (x, s') \<Longrightarrow> \<exists>f. R (raw_bytes s) x f \<and> has_effect env s f s'"
    and "\<And>s x f rest. env_ok env \<Longrightarrow> R (raw_bytes s) x f \<Longrightarrow> admits env s f rest \<Longrightarrow>
      \<exists>s'. m s = Inr (x, s') \<and> has_effect env s f s'"
  shows "spec env m R"
  using assms by (auto simp: spec_def)

text \<open>Consequence: the bound on the stream length is known where a relation is used.\<close>

lemma spec_conseq:
  assumes "spec env m R" and "\<And>p x f. R p x f \<Longrightarrow> R' p x f"
    and "\<And>p x f. R' p x f \<Longrightarrow> p + length (taken f) \<le> total_cap (limits env) \<Longrightarrow> R p x f"
  shows "spec env m R'"
proof (rule specI)
  fix s x s' assume "m s = Inr (x, s')"
  then show "\<exists>f. R' (raw_bytes s) x f \<and> has_effect env s f s'"
    using spec_sound [OF assms(1)] assms(2) by blast
next
  fix s x f rest assume "env_ok env" "R' (raw_bytes s) x f" "admits env s f rest"
  then show "\<exists>s'. m s = Inr (x, s') \<and> has_effect env s f s'"
    using assms(3) by (intro spec_complete [OF assms(1)]) (auto simp: admits_def)
qed

lemma spec_cong: "spec env m R \<Longrightarrow> (\<And>p x f. R p x f \<longleftrightarrow> R' p x f) \<Longrightarrow> spec env m R'"
  by (rule spec_conseq) blast+

definition seq_rel ::
  "(nat \<Rightarrow> 'a \<Rightarrow> effect \<Rightarrow> bool) \<Rightarrow> ('a \<Rightarrow> nat \<Rightarrow> 'b \<Rightarrow> effect \<Rightarrow> bool) \<Rightarrow> nat \<Rightarrow> 'b \<Rightarrow> effect \<Rightarrow> bool" where
  "seq_rel R Q p x h \<longleftrightarrow>
     (\<exists>y f g. R p y f \<and> Q y (p + length (taken f)) x g \<and> h = then_eff f g)"

lemma seq_relI: "R p y f \<Longrightarrow> Q y (p + length (taken f)) x g \<Longrightarrow> seq_rel R Q p x (then_eff f g)"
  by (auto simp: seq_rel_def)

lemma seq_relI_pure: "R p y no_effect \<Longrightarrow> Q y p x g \<Longrightarrow> seq_rel R Q p x g"
  using seq_relI [of R p y no_effect Q x g] by simp

lemma seq_relI_last: "R p y f \<Longrightarrow> Q y (p + length (taken f)) x no_effect \<Longrightarrow> seq_rel R Q p x f"
  using seq_relI [of R p y f Q x no_effect] by simp

lemma spec_bindS:
  assumes m: "spec env m R" and g: "\<And>y. spec env (g y) (Q y)"
  shows "spec env (bindS m g) (seq_rel R Q)"
proof (rule specI)
  fix s x s' assume "bindS m g s = Inr (x, s')"
  then obtain y t where y: "m s = Inr (y, t)" and x: "g y t = Inr (x, s')"
    by (auto simp: run_simps)
  obtain f where f: "R (raw_bytes s) y f" "has_effect env s f t"
    using spec_sound [OF m y] by blast
  obtain h where h: "Q y (raw_bytes t) x h" "has_effect env t h s'"
    using spec_sound [OF g x] by blast
  have "raw_bytes t = raw_bytes s + length (taken f)" using f(2) by (simp add: has_effect_def)
  then show "\<exists>f. seq_rel R Q (raw_bytes s) x f \<and> has_effect env s f s'"
    using f h has_effect_trans [OF f(2) h(2)] unfolding seq_rel_def by metis
next
  fix s x h rest assume e: "env_ok env" and q: "seq_rel R Q (raw_bytes s) x h"
    and a: "admits env s h rest"
  from q obtain y f k where f: "R (raw_bytes s) y f"
    and k: "Q y (raw_bytes s + length (taken f)) x k" and h: "h = then_eff f k"
    by (auto simp: seq_rel_def)
  obtain t where t: "m s = Inr (y, t)" "has_effect env s f t"
    using spec_complete [OF m e f admits_first [OF a [unfolded h]]] by blast
  have "raw_bytes t = raw_bytes s + length (taken f)" using t(2) by (simp add: has_effect_def)
  with k have "Q y (raw_bytes t) x k" by simp
  from spec_complete [OF g e this admits_second [OF a [unfolded h] t(2)]]
  obtain s' where "g y t = Inr (x, s')" "has_effect env t k s'" by blast
  then show "\<exists>s'. bindS m g s = Inr (x, s') \<and> has_effect env s h s'"
    using t has_effect_trans [OF t(2)] h by (auto simp: run_simps)
qed

lemma spec_retS: "spec env (retS x) (\<lambda>p y f. y = x \<and> f = no_effect)"
  by (rule specI) auto

lemma spec_failS: "spec env (failS e) (\<lambda>p y f. False)"
  by (rule specI) auto

lemma spec_liftS: "spec env (liftS r) (\<lambda>p y f. r = Inr y \<and> f = no_effect)"
  by (rule specI) (auto simp: run_simps)

lemma spec_get_raw_bytes: "spec env (getS raw_bytes) (\<lambda>p y f. y = p \<and> f = no_effect)"
  by (rule specI) auto

lemma spec_getS_any: "(\<And>y. spec env (g y) R) \<Longrightarrow> spec env (bindS (getS h) g) R"
  unfolding spec_def by (simp add: bindS_def)

lemma spec_if:
  "spec env m R \<Longrightarrow> spec env m' R' \<Longrightarrow>
   spec env (if b then m else m') (\<lambda>p x f. if b then R p x f else R' p x f)"
  by simp

lemma spec_assert: "spec env m R \<Longrightarrow> spec env (if b then failS e else m) (\<lambda>p x f. \<not> b \<and> R p x f)"
  by (rule spec_cong [OF spec_if [OF spec_failS]]) auto

subsection \<open>Primitive steps\<close>

lemma checked_raw_byte_count_Inr [run_simps]:
  "checked_raw_byte_count raw n l = Inr m \<longleftrightarrow> m = raw + n \<and> raw + n \<le> total_cap l"
  by (auto simp: checked_raw_byte_count_def total_cap_def checked_add_u64_def split: option.splits)

lemma spec_read_hashed_limited_bytes:
  "spec env (read_hashed_limited_bytes env n) (\<lambda>p bs f. length bs = n \<and> f = takes bs)"
proof (rule specI)
  fix s bs s' assume a: "read_hashed_limited_bytes env n s = Inr (bs, s')"
  then obtain r where "read_exact n (reader s) = Inr (bs, r)"
    "s' = s\<lparr>reader := r, digest := digest s @ bs, raw_bytes := raw_bytes s + n\<rparr>"
    "raw_bytes s + n \<le> total_cap (limits env)"
    by (cases "read_exact n (reader s)")
      (auto simp: read_hashed_limited_bytes_def run_simps split: prod.splits)
  then show "\<exists>f. (length bs = n \<and> f = takes bs) \<and> has_effect env s f s'"
    using read_exact_Inr by (fastforce simp: has_effect_def)
next
  fix s bs f rest assume f: "length bs = n \<and> f = takes bs" and a: "admits env s f rest"
  then have "n \<le> length (pending s)" and t: "take n (pending s) = bs"
    and c: "raw_bytes s + n \<le> total_cap (limits env)" and d: "drop n (pending s) = rest"
    by (auto simp: admits_def)
  then obtain r where r: "read_exact n (reader s) = Inr (bs, r)"
    "reader_bytes r = rest" "reader_fault r = reader_fault (reader s)"
    using read_exact_enough [of n "reader s"] by auto
  have "checked_raw_byte_count (raw_bytes s) n (limits env) = (Inr (raw_bytes s + n) :: 'b DecodeError + nat)"
    using c by (simp add: run_simps)
  with r have "read_hashed_limited_bytes env n s =
      Inr (bs, s\<lparr>reader := r, digest := digest s @ bs, raw_bytes := raw_bytes s + n\<rparr>)"
    by (simp add: read_hashed_limited_bytes_def)
  then show "\<exists>s'. read_hashed_limited_bytes env n s = Inr (bs, s') \<and> has_effect env s f s'"
    using f a r c by (auto simp: has_effect_def admits_def)
qed

lemma spec_emit: "spec env (emit env ev) (\<lambda>p x f. f = emits [ev])"
  by (rule specI)
    (auto simp: emit_def has_effect_def admits_def run_simps split: sum.splits)

lemma spec_bump_work:
  "spec env (bump_work env) (\<lambda>p x f. f = one_work)"
  by (rule specI)
    (auto simp: bump_work_def has_effect_def admits_def Let_def saturating_add_sat_plus
      sat_plus_def split: if_splits)

lemma spec_count_entry:
  "spec env (count_entry env) (\<lambda>p x f. f = no_effect\<lparr>d_entries := 1\<rparr>)"
  by (rule specI)
    (auto simp: count_entry_def has_effect_def admits_def no_effect_def env_ok_def limits_u64_def
      run_simps checked_add_u64_None split: option.splits if_splits)

lemma spec_count_file:
  "spec env (modifyS (\<lambda>s. s\<lparr>counters := (counters s)\<lparr>c_files := saturating_add_u64 (c_files (counters s)) 1\<rparr>\<rparr>))
     (\<lambda>p x f. f = no_effect\<lparr>d_files := 1\<rparr>)"
  by (rule specI) (auto simp: has_effect_def admits_def no_effect_def saturating_add_sat_plus)

lemma spec_count_symlink:
  "spec env (modifyS (\<lambda>s. s\<lparr>counters := (counters s)\<lparr>c_symlinks := saturating_add_u64 (c_symlinks (counters s)) 1\<rparr>\<rparr>))
     (\<lambda>p x f. f = no_effect\<lparr>d_symlinks := 1\<rparr>)"
  by (rule specI) (auto simp: has_effect_def admits_def no_effect_def saturating_add_sat_plus)

subsection \<open>Strings and tokens\<close>

lemma spec_read_u64:
  "spec env (read_u64 env) (\<lambda>p n f. n \<le> u64_max \<and> f = takes (u64_to_le_bytes n))"
  unfolding read_u64_def read_raw_def
  by (rule spec_cong [OF spec_bindS [OF spec_read_hashed_limited_bytes spec_retS]])
    (auto simp: seq_rel_def u64_to_from_le_bytes u64_from_le_bytes_le_max u64_from_to_le_bytes
      intro!: exI [where x = "u64_to_le_bytes _"])

lemma spec_read_padding:
  "spec env (read_padding env n) (\<lambda>p x f. f = takes (pad_zeros n))"
proof (cases "padding_len n = 0")
  case True
  then show ?thesis
    unfolding read_padding_def by (simp add: pad_zeros_def spec_cong [OF spec_retS])
next
  case False
  have *: "spec env (bindS (read_raw env (padding_len n)) (\<lambda>bs.
      if \<exists>b \<in> set bs. b \<noteq> 0 then failS (NonCanonical ''non-zero string padding'') else retS ()))
     (\<lambda>p x f. f = takes (pad_zeros n))"
    unfolding read_raw_def
    by (rule spec_cong [OF spec_bindS [OF spec_read_hashed_limited_bytes spec_assert [OF spec_retS]]])
      (auto simp: seq_rel_def pad_zeros_def replicate_eqI intro!: exI [where x = "replicate _ _"])
  show ?thesis using False * by (simp add: read_padding_def)
qed

lemma spec_read_bounded_string_length:
  "spec env (read_bounded_string_length env mx)
     (\<lambda>p n f. n \<le> mx \<and> n \<le> u64_max \<and> f = takes (u64_to_le_bytes n) \<and>
        p + 8 + saturating_add_u64 n (padding_len n) \<le> total_cap (limits env))"
  unfolding read_bounded_string_length_def
  by (rule spec_cong [OF spec_bindS [OF spec_read_u64 spec_assert [OF spec_bindS [OF spec_get_raw_bytes
        spec_bindS [OF spec_liftS spec_if [OF spec_retS spec_failS]]]]]])
    (auto simp: seq_rel_def run_simps usize_max_def)

text \<open>A length-prefixed string of at most \<open>mx\<close> bytes, its zero padding included.\<close>

lemma seq_string_where:
  assumes "\<And>n. spec env (m n) (\<lambda>p bs f. P bs \<and> length bs = n \<and> f = takes (bs @ pad_zeros n))"
  shows "spec env (bindS (read_bounded_string_length env mx) m)
     (\<lambda>p bs f. P bs \<and> length bs \<le> mx \<and> f = takes (nar_str bs))"
proof (rule spec_conseq [OF spec_bindS [OF spec_read_bounded_string_length assms]], goal_cases)
  case (1 p bs f)
  then show ?case by (auto simp: seq_rel_def nar_str_def then_eff_takes)
next
  case (2 p bs f)
  then have "length bs + padding_len (length bs) \<le> u64_max"
    by (simp add: length_nar_str total_cap_def)
  then show ?case
    using 2 unfolding seq_rel_def
    by (intro exI [where x = "length bs"] exI [where x = "takes (u64_to_le_bytes (length bs))"]
        exI [where x = "takes (bs @ pad_zeros (length bs))"])
      (auto simp: nar_str_def then_eff_takes saturating_add_u64_exact pad_zeros_def)
qed

lemmas seq_string = seq_string_where [where P = "\<lambda>_. True", unfolded simp_thms]

lemma seq_body:
  assumes "\<And>bs. spec env (m bs) (\<lambda>p x f. x = bs \<and> f = takes (pad_zeros n))"
  shows "spec env (bindS (read_hashed_limited_bytes env n) m)
     (\<lambda>p bs f. length bs = n \<and> f = takes (bs @ pad_zeros n))"
  by (rule spec_cong [OF spec_bindS [OF spec_read_hashed_limited_bytes assms]])
    (auto simp: seq_rel_def then_eff_takes)

lemma seq_padding_ret:
  "spec env (bindS (read_padding env n) (\<lambda>_. retS bs)) (\<lambda>p x f. x = bs \<and> f = takes (pad_zeros n))"
  by (rule spec_cong [OF spec_bindS [OF spec_read_padding spec_retS]]) (auto simp: seq_rel_def)

lemma spec_read_control_token:
  "spec env (read_control_token env) (\<lambda>p t f. length t \<le> TOKEN_LIMIT \<and> f = takes (nar_str t))"
  unfolding read_control_token_def by (rule seq_string, rule seq_body, rule seq_padding_ret)

lemma spec_expect:
  assumes "length t \<le> TOKEN_LIMIT"
  shows "spec env (expect env t) (\<lambda>p x f. f = takes (nar_str t))"
  unfolding expect_def
  by (rule spec_cong [OF spec_bindS [OF spec_read_control_token spec_if [OF spec_retS spec_failS]]])
    (use assms in \<open>auto simp: seq_rel_def split: if_splits\<close>)

lemma spec_expect_lit:
  "spec env (expect env (ascii ''(''))  (\<lambda>p x f. f = takes (tok ''(''))"
  "spec env (expect env (ascii '')''))  (\<lambda>p x f. f = takes (tok '')''))"
  "spec env (expect env (ascii ''type'')) (\<lambda>p x f. f = takes (tok ''type''))"
  "spec env (expect env (ascii ''contents'')) (\<lambda>p x f. f = takes (tok ''contents''))"
  "spec env (expect env (ascii ''target'')) (\<lambda>p x f. f = takes (tok ''target''))"
  "spec env (expect env (ascii ''name'')) (\<lambda>p x f. f = takes (tok ''name''))"
  "spec env (expect env (ascii ''node'')) (\<lambda>p x f. f = takes (tok ''node''))"
  "spec env (expect env (ascii ''nix-archive-1'')) (\<lambda>p x f. f = takes (tok ''nix-archive-1''))"
  by (rule spec_expect, simp add: TOKEN_LIMIT_def)+

lemma spec_resize:
  "spec env (liftS (resize_metadata_buffer env c n)) (\<lambda>p x f. f = no_effect)"
  by (rule specI) (auto simp: run_simps resize_metadata_buffer_def env_ok_def)

lemma seq_resize:
  "spec env m R \<Longrightarrow> spec env (bindS (liftS (resize_metadata_buffer env c n)) (\<lambda>_. m)) R"
  by (rule spec_cong [OF spec_bindS [OF spec_resize]]) (auto simp: seq_rel_def)

lemma spec_read_string_into:
  "spec env (read_string_into env mx b) (\<lambda>p bs f. length bs \<le> mx \<and> f = takes (nar_str bs))"
  unfolding read_string_into_def read_raw_def
  by (rule seq_string, rule seq_resize, rule seq_body, rule seq_padding_ret)

subsection \<open>Nodes\<close>

definition node_effect :: "nat \<Rightarrow> nat \<Rightarrow> Nar \<Rightarrow> effect" where
  "node_effect d p t =
     \<lparr>taken = node_bytes t, delivered = node_events d p t, d_entries = nar_entries t,
      d_files = nar_files t, d_symlinks = nar_symlinks t, d_work = nar_work t\<rparr>"

definition entries_effect :: "nat \<Rightarrow> nat \<Rightarrow> (bytes \<times> Nar) list \<Rightarrow> effect" where
  "entries_effect d p es =
     \<lparr>taken = entries_bytes es, delivered = entries_events d p es, d_entries = list_entries es,
      d_files = list_files es, d_symlinks = list_symlinks es, d_work = list_work es\<rparr>"

fun kind_token :: "RootKind \<Rightarrow> bytes" where
  "kind_token Directory = ascii ''directory''"
| "kind_token Regular = ascii ''regular''"
| "kind_token Symlink = ascii ''symlink''"

text \<open>A step that takes fixed bytes and returns nothing, followed by another.\<close>

lemma seq_takes:
  assumes "spec env m (\<lambda>p x f. f = takes c)" and "spec env m' Q"
    and "\<And>p x f. R p x f \<longleftrightarrow> (\<exists>g. Q (p + length c) x g \<and> f = then_eff (takes c) g)"
  shows "spec env (bindS m (\<lambda>_. m')) R"
  by (rule spec_cong [OF spec_bindS [OF assms(1,2)]]) (auto simp: seq_rel_def assms(3))

lemma seq_takes_takes:
  assumes "spec env m (\<lambda>p x f. f = takes c)" and "spec env m' (\<lambda>p x f. f = takes (d x))"
  shows "spec env (bindS m (\<lambda>_. m')) (\<lambda>p x f. f = takes (c @ d x))"
  by (rule seq_takes [OF assms]) (auto simp: then_eff_takes)

lemma spec_read_node_kind:
  "spec env (read_node_kind env)
     (\<lambda>p k f. f = takes (tok ''('' @ tok ''type'' @ nar_str (kind_token k)))"
  unfolding read_node_kind_def
proof (rule seq_takes_takes [OF spec_expect_lit(1)], rule seq_takes_takes [OF spec_expect_lit(3)],
    rule spec_cong [OF spec_bindS [OF spec_read_control_token spec_if [OF spec_retS spec_if
      [OF spec_retS spec_if [OF spec_retS spec_failS]]]]])
  fix p k f
  show "seq_rel (\<lambda>p t f. length t \<le> TOKEN_LIMIT \<and> f = takes (nar_str t))
      (\<lambda>y p x f. if y = ascii ''directory'' then x = Directory \<and> f = no_effect
        else if y = ascii ''regular'' then x = Regular \<and> f = no_effect
        else if y = ascii ''symlink'' then x = Symlink \<and> f = no_effect else False) p k f \<longleftrightarrow>
    f = takes (nar_str (kind_token k))"
    unfolding seq_rel_def
    by (cases k)
      (auto simp: TOKEN_LIMIT_def split: if_splits intro!: exI [where x = "kind_token k"])
qed

lemma spec_executable_flag:
  "spec env (read_regular_file_executable_flag env)
     (\<lambda>p x f. f = takes ((if x then tok ''executable'' @ tok '''' else []) @ tok ''contents''))"
  unfolding read_regular_file_executable_flag_def
proof (rule spec_cong [OF spec_bindS [OF spec_read_control_token spec_if [OF spec_retS
      spec_assert [OF spec_bindS [OF spec_read_control_token spec_assert [OF spec_bindS
        [OF spec_expect_lit(4) spec_retS]]]]]]])
  fix p x f
  show "seq_rel (\<lambda>p t f. length t \<le> TOKEN_LIMIT \<and> f = takes (nar_str t))
     (\<lambda>y p x f. if y = ascii ''contents'' then x = False \<and> f = no_effect
        else \<not> y \<noteq> ascii ''executable'' \<and>
          seq_rel (\<lambda>p t f. length t \<le> TOKEN_LIMIT \<and> f = takes (nar_str t))
           (\<lambda>y p x f. \<not> y \<noteq> [] \<and> seq_rel (\<lambda>p x f. f = takes (tok ''contents''))
              (\<lambda>y p x f. x = True \<and> f = no_effect) p x f) p x f) p x f \<longleftrightarrow>
    f = takes ((if x then tok ''executable'' @ tok '''' else []) @ tok ''contents'')"
    unfolding seq_rel_def
    by (cases x)
      (auto simp: TOKEN_LIMIT_def then_eff_takes split: if_splits
        intro!: exI [where x = "ascii ''executable''"])
qed

abbreviation body_effect :: "bytes \<Rightarrow> effect" where
  "body_effect body \<equiv> (takes body)\<lparr>delivered := map EvFileChunk (chunks_of body)\<rparr>"

lemma chunk_split:
  assumes "offset < sz"
  shows "(\<exists>bs rest. length bs = min (sz - offset) CHUNK_SIZE \<and> length rest = sz - (offset + CHUNK_SIZE) \<and>
      f = (takes (bs @ rest))\<lparr>delivered := map EvFileChunk (bs # chunks_of rest)\<rparr>) \<longleftrightarrow>
    (\<exists>body. length body = sz - offset \<and> f = body_effect body)" (is "?l \<longleftrightarrow> ?r")
proof
  assume ?l
  then obtain bs rest where *: "length bs = min (sz - offset) CHUNK_SIZE"
    "length rest = sz - (offset + CHUNK_SIZE)"
    "f = (takes (bs @ rest))\<lparr>delivered := map EvFileChunk (bs # chunks_of rest)\<rparr>" by blast
  have "bs @ rest \<noteq> []" using *(1) assms by (auto simp: CHUNK_SIZE_def)
  moreover have "take CHUNK_SIZE (bs @ rest) = bs" "drop CHUNK_SIZE (bs @ rest) = rest"
    using *(1,2) by (auto simp: min_def split: if_splits)
  ultimately have "chunks_of (bs @ rest) = bs # chunks_of rest"
    by (simp add: chunks_of.simps [of "bs @ rest"])
  then show ?r using * assms by (intro exI [where x = "bs @ rest"]) (auto simp: min_def)
next
  assume ?r
  then obtain body where *: "length body = sz - offset" "f = body_effect body" by blast
  then have "body \<noteq> []" using assms by auto
  then have "chunks_of body = take CHUNK_SIZE body # chunks_of (drop CHUNK_SIZE body)"
    by (simp add: chunks_of.simps [of body])
  then show ?l using *
    by (intro exI [where x = "take CHUNK_SIZE body"] exI [where x = "drop CHUNK_SIZE body"]) auto
qed

lemma spec_read_file_chunk:
  "spec env (read_file_chunk env n)
     (\<lambda>p x f. \<exists>bs. length bs = n \<and> f = (takes bs)\<lparr>delivered := [EvFileChunk bs]\<rparr>)"
  unfolding read_file_chunk_def
  by (rule spec_cong [OF spec_bindS [OF spec_read_hashed_limited_bytes spec_emit]])
    (auto simp: seq_rel_def intro!: effect_eqI)

lemma spec_stream_chunks:
  "spec env (stream_chunks env offset sz) (\<lambda>p x f. \<exists>body. length body = sz - offset \<and> f = body_effect body)"
proof (induction env offset sz rule: stream_chunks.induct)
  case (1 env offset sz)
  show ?case
  proof (cases "offset < sz")
    case True
    have join: "then_eff ((takes bs)\<lparr>delivered := [EvFileChunk bs]\<rparr>) (body_effect rest) =
        (takes (bs @ rest))\<lparr>delivered := map EvFileChunk (bs # chunks_of rest)\<rparr>" for bs rest
      by (rule effect_eqI) simp_all
    have "spec env (bindS (read_file_chunk env (min (sz - offset) CHUNK_SIZE))
        (\<lambda>_. stream_chunks env (offset + CHUNK_SIZE) sz))
      (\<lambda>p x f. \<exists>body. length body = sz - offset \<and> f = body_effect body)"
      unfolding chunk_split [OF True, symmetric] join [symmetric]
      by (rule spec_cong [OF spec_bindS [OF spec_read_file_chunk "1.IH" [OF True]]])
        (unfold seq_rel_def, blast)
    then show ?thesis using True by (simp add: stream_chunks.simps [of env offset sz])
  next
    case False
    have "spec env (retS ()) (\<lambda>p x f. \<exists>body. length body = sz - offset \<and> f = body_effect body)"
      using False by (intro spec_cong [OF spec_retS]) (auto simp: no_effect_def takes_def)
    then show ?thesis
      using False by (simp only: stream_chunks.simps [of env offset sz] if_False)
  qed
qed

lemma spec_stream_file_contents:
  "spec env (stream_file_contents env sz)
     (\<lambda>p x f. \<exists>body. length body = sz \<and>
        f = (takes (body @ pad_zeros sz))\<lparr>delivered := map EvFileChunk (chunks_of body)\<rparr>)"
proof -
  have join: "then_eff (body_effect body) (takes c) =
      (takes (body @ c))\<lparr>delivered := map EvFileChunk (chunks_of body)\<rparr>" for body c
    by (rule effect_eqI) simp_all
  show ?thesis
    unfolding stream_file_contents_def
    by (rule spec_cong [OF spec_bindS [OF spec_stream_chunks spec_read_padding]])
      (unfold seq_rel_def join [symmetric], auto)
qed

text \<open>The rest of a regular file node, after its kind token.\<close>

definition regular_flag :: "bool \<Rightarrow> bytes" where
  "regular_flag x = (if x then tok ''executable'' @ tok '''' else []) @ tok ''contents''"

definition regular_effect :: "nat \<Rightarrow> bool \<Rightarrow> bytes \<Rightarrow> effect" where
  "regular_effect p x body =
     then_eff (takes (regular_flag x)) (then_eff (takes (u64_to_le_bytes (length body)))
       (then_eff (emits [EvBeginFile x (length body) (p + length (regular_flag x) + 8)])
       (then_eff ((takes (body @ pad_zeros (length body)))\<lparr>delivered := map EvFileChunk (chunks_of body)\<rparr>)
       (then_eff (emits [EvEndFile]) (then_eff (takes (tok '')'')) (no_effect\<lparr>d_files := 1\<rparr>))))))"

lemma spec_decode_regular_file_node:
  "spec env (decode_regular_file_node env)
     (\<lambda>p k f. k = Regular \<and> (\<exists>x body. length body \<le> max_file_bytes (limits env) \<and>
        f = regular_effect p x body))"
proof -
  note flag = spec_executable_flag [folded regular_flag_def]
  note steps = spec_bindS [OF flag spec_bindS [OF spec_read_u64 spec_assert
    [OF spec_bindS [OF spec_get_raw_bytes spec_bindS [OF spec_emit spec_bindS
      [OF spec_stream_file_contents spec_bindS [OF spec_emit spec_bindS [OF spec_expect_lit(2)
        spec_bindS [OF spec_count_file spec_retS]]]]]]]]]
  show ?thesis
    unfolding decode_regular_file_node_def
  proof (rule spec_conseq [OF steps], goal_cases)
    case (1 p k f)
    then show ?case
      unfolding seq_rel_def regular_effect_def
      apply clarify
      apply (simp only: effect_simps length_u64_to_le_bytes list.size add_0_right not_less then_eff_no_effect)
      apply (rule conjI, rule refl, rule exI, rule exI, rule conjI, assumption, rule refl)
      done
  next
    case (2 p k f)
    then obtain x body where k: "k = Regular" and b: "length body \<le> max_file_bytes (limits env)"
      and f: "f = regular_effect p x body" by blast
    have u: "length body \<le> u64_max"
      using 2(2) f by (simp add: regular_effect_def total_cap_def)
    show ?case
      unfolding f regular_effect_def k
      apply (rule seq_relI, rule refl)
      apply (rule seq_relI, rule conjI [OF u refl])
      apply (rule conjI [OF leD [OF b]])
      apply (rule seq_relI_pure, rule conjI [OF refl refl])
      apply (rule seq_relI, simp)
      apply (rule seq_relI, blast)
      apply (rule seq_relI, rule refl)
      apply (rule seq_relI, rule refl)
      apply (rule seq_relI_last, rule refl)
      apply simp
      done
  qed
qed

lemma read_padding_symlink_target:
  "read_padding env n s = Inr (x, s') \<Longrightarrow> symlink_target s' = symlink_target s"
  by (auto simp: read_padding_def read_raw_def read_hashed_limited_bytes_def run_simps
      split: if_splits sum.splits prod.splits)

text \<open>\<open>read_symlink_target\<close> followed by a read of the buffer, as one step that returns it.\<close>

definition read_target_value :: "('s, 'e) decode_env \<Rightarrow> ('s, 'e, bytes) dec" where
  "read_target_value env =
     bindS (expect env (ascii ''target'')) (\<lambda>_.
     bindS (read_bounded_string_length env (max_symlink_target_bytes (limits env))) (\<lambda>len.
     bindS (getS (\<lambda>s. length (symlink_target s))) (\<lambda>current.
     bindS (liftS (resize_metadata_buffer env current len)) (\<lambda>_.
     bindS (read_hashed_limited_bytes env len) (\<lambda>target.
     bindS (modifyS (\<lambda>s. s\<lparr>symlink_target := target\<rparr>)) (\<lambda>_.
     bindS (read_padding env len) (\<lambda>_.
     if \<not> valid_target target then failS (NonCanonical ''symlink target'') else retS target)))))))"

lemma validate_symlink_target_Inr: "validate_symlink_target t = Inr x \<longleftrightarrow> valid_target t"
  by (auto simp: validate_symlink_target_def valid_target_def)

lemma validated_Inr:
  "(case validate_symlink_target t of Inl e \<Rightarrow> failS (NonCanonical e) | Inr _ \<Rightarrow> retS ()) s1 = Inr (x, s2) \<longleftrightarrow>
    valid_target t \<and> s2 = s1"
  by (cases "validate_symlink_target t") (auto simp: validate_symlink_target_def valid_target_def split: if_splits)

lemma checked_target_Inr:
  "(if \<not> valid_target t then failS e else retS t) s1 = Inr (x, s2) \<longleftrightarrow> valid_target t \<and> x = t \<and> s2 = s1"
  by auto

lemma getS_Inr: "getS f s = Inr (x, s') \<longleftrightarrow> x = f s \<and> s' = s"
  by (auto simp: getS_def)

lemma modifyS_Inr: "modifyS f s = Inr (x, s') \<longleftrightarrow> s' = f s"
  by (auto simp: modifyS_def)

lemma read_symlink_target_value:
  "bindS (read_symlink_target env) (\<lambda>_. bindS (getS symlink_target) g) s = Inr r \<longleftrightarrow>
   bindS (read_target_value env) g s = Inr r"
  unfolding read_symlink_target_def read_target_value_def bindS_Inr_iff validated_Inr checked_target_Inr getS_Inr modifyS_Inr liftS_Inr_iff
  by (intro iffI; elim exE conjE; frule read_padding_symlink_target; simp; blast)

lemma seq_modify_target:
  "spec env m R \<Longrightarrow> spec env (bindS (modifyS (\<lambda>s. s\<lparr>symlink_target := t\<rparr>)) (\<lambda>_. m)) R"
proof (rule specI)
  fix s x s' assume m: "spec env m R"
    and "bindS (modifyS (\<lambda>s. s\<lparr>symlink_target := t\<rparr>)) (\<lambda>_. m) s = Inr (x, s')"
  then have "m (s\<lparr>symlink_target := t\<rparr>) = Inr (x, s')" by (simp add: bindS_def)
  from spec_sound [OF m this] show "\<exists>f. R (raw_bytes s) x f \<and> has_effect env s f s'"
    by (simp add: has_effect_def)
next
  fix s x f rest assume m: "spec env m R" and "env_ok env" "R (raw_bytes s) x f" "admits env s f rest"
  then have "\<exists>s'. m (s\<lparr>symlink_target := t\<rparr>) = Inr (x, s') \<and> has_effect env (s\<lparr>symlink_target := t\<rparr>) f s'"
    by (intro spec_complete [OF m]) (auto simp: admits_def)
  then show "\<exists>s'. bindS (modifyS (\<lambda>s. s\<lparr>symlink_target := t\<rparr>)) (\<lambda>_. m) s = Inr (x, s') \<and> has_effect env s f s'"
    by (simp add: has_effect_def bindS_def)
qed

lemma spec_read_target_value:
  "spec env (read_target_value env)
     (\<lambda>p t f. (valid_target t \<and> length t \<le> max_symlink_target_bytes (limits env)) \<and>
        f = takes (tok ''target'' @ nar_str t))"
proof -
  have body: "spec env (bindS (read_hashed_limited_bytes env n) (\<lambda>t.
      bindS (modifyS (\<lambda>s. s\<lparr>symlink_target := t\<rparr>)) (\<lambda>_.
      bindS (read_padding env n) (\<lambda>_. if \<not> valid_target t then failS e else retS t))))
     (\<lambda>p t f. valid_target t \<and> length t = n \<and> f = takes (t @ pad_zeros n))" for n e
    by (rule spec_cong [OF spec_bindS [OF spec_read_hashed_limited_bytes seq_modify_target
          [OF spec_bindS [OF spec_read_padding spec_assert [OF spec_retS]]]]])
      (auto simp: seq_rel_def then_eff_takes)
  show ?thesis
    unfolding read_target_value_def
    by (rule spec_cong [OF spec_bindS [OF spec_expect_lit(5) seq_string_where
          [OF spec_getS_any [OF seq_resize [OF body]]]]])
      (auto simp: seq_rel_def then_eff_takes)
qed

text \<open>The rest of a symbolic link node, after its kind token.\<close>

definition symlink_effect :: "bytes \<Rightarrow> effect" where
  "symlink_effect target =
     then_eff (takes (tok ''target'' @ nar_str target)) (then_eff (emits [EvSymlink target])
       (then_eff (takes (tok '')'')) (no_effect\<lparr>d_symlinks := 1\<rparr>)))"

lemma spec_eqI: "spec env m R \<Longrightarrow> (\<And>s r. m' s = Inr r \<longleftrightarrow> m s = Inr r) \<Longrightarrow> spec env m' R"
  by (simp add: spec_def)

lemma spec_decode_symlink_node:
  "spec env (decode_symlink_node env)
     (\<lambda>p k f. k = Symlink \<and> (\<exists>t. valid_target t \<and> length t \<le> max_symlink_target_bytes (limits env) \<and>
        f = symlink_effect t))"
  unfolding decode_symlink_node_def
proof (rule spec_eqI [OF _ read_symlink_target_value], rule spec_cong [OF spec_bindS
    [OF spec_read_target_value spec_bindS [OF spec_emit spec_bindS [OF spec_expect_lit(2)
      spec_bindS [OF spec_count_symlink spec_retS]]]]], goal_cases)
  case (1 p k f)
  show ?case unfolding seq_rel_def symlink_effect_def by auto
qed

definition leaf_ok :: "Limits \<Rightarrow> RootKind \<Rightarrow> Nar \<Rightarrow> bool" where
  "leaf_ok l k t \<longleftrightarrow> k = nar_kind t \<and>
     (case t of NRegular x body \<Rightarrow> length body \<le> max_file_bytes l
      | NSymlink target \<Rightarrow> valid_target target \<and> length target \<le> max_symlink_target_bytes l
      | NDirectory es \<Rightarrow> False)"

abbreviation works :: "effect \<Rightarrow> effect" where
  "works f \<equiv> then_eff one_work f"

definition directory_start :: "nat \<Rightarrow> effect" where
  "directory_start d = works (then_eff (takes directory_head) (emits [EvBeginDirectory d]))"

lemma node_effect_leaf:
  "node_effect d p (NRegular x body) =
     works (then_eff (takes (tok ''('' @ tok ''type'' @ nar_str (kind_token Regular)))
       (regular_effect (p + length (tok ''('' @ tok ''type'' @ nar_str (kind_token Regular))) x body))"
  "node_effect d p (NSymlink target) =
     works (then_eff (takes (tok ''('' @ tok ''type'' @ nar_str (kind_token Symlink))) (symlink_effect target))"
  by (rule effect_eqI; simp add: node_effect_def regular_effect_def symlink_effect_def no_effect_def
      regular_flag_def regular_head_def symlink_head_def nar_str_def)+

lemma leaf_cases:
  "(\<exists>t. leaf_ok l k t \<and> P t) \<longleftrightarrow>
   (case k of Directory \<Rightarrow> False
    | Regular \<Rightarrow> (\<exists>x body. length body \<le> max_file_bytes l \<and> P (NRegular x body))
    | Symlink \<Rightarrow> (\<exists>t. valid_target t \<and> length t \<le> max_symlink_target_bytes l \<and> P (NSymlink t)))"
  (is "?l \<longleftrightarrow> ?r")
proof
  assume ?l
  then obtain t where "leaf_ok l k t" "P t" by blast
  then show ?r by (cases t) (auto simp: leaf_ok_def)
next
  assume ?r
  then show ?l by (cases k) (force simp: leaf_ok_def)+
qed

lemma seq_rel_fixed:
  "seq_rel (\<lambda>p x f. f = c) Q p r h \<longleftrightarrow> (\<exists>y g. Q y (p + length (taken c)) r g \<and> h = then_eff c g)"
  by (auto simp: seq_rel_def)

lemma seq_rel_value:
  "seq_rel (\<lambda>p k f. f = takes (c k)) (\<lambda>k p r f. r = k \<and> Q k p f) p r h \<longleftrightarrow>
   (\<exists>g. Q r (p + length (c r)) g \<and> h = then_eff (takes (c r)) g)"
  by (auto simp: seq_rel_def)

lemma spec_decode_node:
  "spec env (decode_node env d)
     (\<lambda>p k f. d \<le> max_depth (limits env) \<and>
        ((k = Directory \<and> f = directory_start d) \<or> (\<exists>t. leaf_ok (limits env) k t \<and> f = node_effect d p t)))"
proof -
  have kind: "spec env (case k of
           Directory \<Rightarrow> bindS (emit env (EvBeginDirectory d)) (\<lambda>_. retS Directory)
         | Regular \<Rightarrow> decode_regular_file_node env
         | Symlink \<Rightarrow> decode_symlink_node env)
     (\<lambda>p r f. r = k \<and> (case k of Directory \<Rightarrow> f = emits [EvBeginDirectory d]
        | Regular \<Rightarrow> (\<exists>x body. length body \<le> max_file_bytes (limits env) \<and> f = regular_effect p x body)
        | Symlink \<Rightarrow> (\<exists>t. valid_target t \<and> length t \<le> max_symlink_target_bytes (limits env) \<and> f = symlink_effect t)))" for k
  proof (cases k)
    case Directory
    have "spec env (bindS (emit env (EvBeginDirectory d)) (\<lambda>_. retS Directory))
        (\<lambda>p r f. r = Directory \<and> f = emits [EvBeginDirectory d])"
      by (rule spec_cong [OF spec_bindS [OF spec_emit spec_retS]]) (auto simp: seq_rel_def)
    then show ?thesis unfolding Directory RootKind.case .
  next
    case Regular
    show ?thesis unfolding Regular RootKind.case by (rule spec_decode_regular_file_node)
  next
    case Symlink
    show ?thesis unfolding Symlink RootKind.case by (rule spec_decode_symlink_node)
  qed
  show ?thesis
    unfolding decode_node_def
  proof (rule spec_cong [OF spec_bindS [OF spec_bump_work spec_assert [OF spec_bindS
      [OF spec_read_node_kind kind]]]], goal_cases)
    case (1 p k f)
    show ?case
      unfolding seq_rel_fixed seq_rel_value leaf_cases node_effect_leaf directory_start_def
        directory_head_def
      by (cases k) auto
  qed
qed

subsection \<open>Directory steps\<close>

text \<open>The frame after an accepted name.\<close>

abbreviation after_name :: "bytes \<Rightarrow> DirectoryNames" where
  "after_name name \<equiv> \<lparr>previous = name, incoming = []\<rparr>"

definition name_ok :: "Limits \<Rightarrow> bytes \<Rightarrow> bytes \<Rightarrow> bool" where
  "name_ok l prev name \<longleftrightarrow> valid_entry_name name \<and> prev < name \<and> length name \<le> max_name_bytes l"

definition name_effect :: "bytes \<Rightarrow> effect" where
  "name_effect name = works (then_eff (takes (tok ''entry'')) (then_eff (no_effect\<lparr>d_entries := 1\<rparr>)
     (then_eff (takes (tok ''('')) (then_eff (takes (tok ''name'')) (takes (nar_str name))))))"

lemma accept_ordered_name_Inr:
  "accept_ordered_name (ns\<lparr>incoming := bs\<rparr>) = Inr (name, ns') \<longleftrightarrow>
   previous ns < bs \<and> name = bs \<and> ns' = after_name bs"
  by (auto simp: accept_ordered_name_def)

lemma validate_name_Inr: "validate_name bs = Inr x \<longleftrightarrow> valid_entry_name bs"
  by (auto simp: validate_name_def)

lemma spec_accept_name:
  "spec env (bindS (liftS (validate_name bs)) (\<lambda>_.
       bindS (liftS (accept_ordered_name (ns\<lparr>incoming := bs\<rparr>))) (\<lambda>(name, ns'). retS (Some name, ns'))))
     (\<lambda>p r f. valid_entry_name bs \<and> previous ns < bs \<and> r = (Some bs, after_name bs) \<and> f = no_effect)"
  by (rule specI)
    (auto simp: bindS_Inr_iff liftS_Inr_iff accept_ordered_name_Inr validate_name_Inr split_beta)

lemma token_choice:
  assumes "length a \<le> n" and "length b \<le> n" and "a \<noteq> b"
  shows "seq_rel (\<lambda>p t f. length t \<le> n \<and> f = takes (nar_str t))
      (\<lambda>t p r f. if t = a then P p r f else \<not> t \<noteq> b \<and> Q p r f) p r h \<longleftrightarrow>
    (\<exists>g. P (p + length (nar_str a)) r g \<and> h = then_eff (takes (nar_str a)) g) \<or>
    (\<exists>g. Q (p + length (nar_str b)) r g \<and> h = then_eff (takes (nar_str b)) g)" (is "?l \<longleftrightarrow> ?r")
proof
  assume ?l
  then show ?r unfolding seq_rel_def by (auto split: if_splits)
next
  assume ?r
  then show ?l
    using assms by (elim disjE exE conjE) (auto intro: seq_relI [where y = a] seq_relI [where y = b])
qed

lemma spec_read_next_directory_entry_name:
  "spec env (read_next_directory_entry_name env ns)
     (\<lambda>p r f. (r = (None, ns) \<and> f = works (takes (tok '')''))) \<or>
        (\<exists>name. name_ok (limits env) (previous ns) name \<and> r = (Some name, after_name name) \<and> f = name_effect name))"
proof -
  have entry: "spec env (bindS (count_entry env) (\<lambda>_. bindS (expect env (ascii ''('')) (\<lambda>_.
         bindS (expect env (ascii ''name'')) (\<lambda>_.
         bindS (read_string_into env (max_name_bytes (limits env)) (incoming ns)) (\<lambda>bs.
         bindS (liftS (validate_name bs)) (\<lambda>_.
         bindS (liftS (accept_ordered_name (ns\<lparr>incoming := bs\<rparr>))) (\<lambda>(name, ns').
         retS (Some name, ns'))))))))
     (\<lambda>p r f. \<exists>name. name_ok (limits env) (previous ns) name \<and> r = (Some name, after_name name) \<and>
        f = then_eff (no_effect\<lparr>d_entries := 1\<rparr>)
          (then_eff (takes (tok ''('')) (then_eff (takes (tok ''name'')) (takes (nar_str name)))))"
    by (rule spec_cong [OF spec_bindS [OF spec_count_entry spec_bindS [OF spec_expect_lit(1)
          spec_bindS [OF spec_expect_lit(6) spec_bindS [OF spec_read_string_into spec_accept_name]]]]])
      (auto simp: seq_rel_def name_ok_def)
  show ?thesis
    unfolding read_next_directory_entry_name_def
  proof (rule spec_cong [OF spec_bindS [OF spec_bump_work spec_bindS [OF spec_read_control_token
      spec_if [OF spec_retS spec_assert [OF entry]]]]], goal_cases)
    case (1 p r f)
    have lit: "length (ascii '')'') \<le> TOKEN_LIMIT" "length (ascii ''entry'') \<le> TOKEN_LIMIT"
        "ascii '')'' \<noteq> ascii ''entry''"
      by (simp_all add: TOKEN_LIMIT_def)
    show ?case
      unfolding seq_rel_fixed token_choice [OF lit] name_effect_def by auto
  qed
qed

definition end_effect :: "DirectoryEnd \<Rightarrow> effect" where
  "end_effect e = then_eff (works (takes (tok '')''))) (then_eff (emits [EvEndDirectory])
     (case e of EndRoot \<Rightarrow> no_effect | EndEntry \<Rightarrow> takes (tok '')'')))"

lemma spec_finish_directory:
  "spec env (finish_directory env e) (\<lambda>p x f. f = then_eff (emits [EvEndDirectory])
     (case e of EndRoot \<Rightarrow> no_effect | EndEntry \<Rightarrow> takes (tok '')'')))"
  unfolding finish_directory_def
  by (cases e; simp only: DirectoryEnd.case)
    (rule spec_cong [OF spec_bindS [OF spec_emit spec_retS]], force simp: seq_rel_def,
     rule spec_cong [OF spec_bindS [OF spec_emit spec_expect_lit(2)]], simp add: seq_rel_def)

lemma spec_decode_child_node:
  "spec env (decode_child_node env parent parents)
     (\<lambda>p r f. length parents + 1 \<le> max_depth (limits env) \<and>
        ((r = (Some (new_frame EndEntry), parent # parents) \<and> f = directory_start (length parents + 1)) \<or>
         (\<exists>k t. leaf_ok (limits env) k t \<and> r = (Some parent, parents) \<and>
            f = then_eff (node_effect (length parents + 1) p t) (takes (tok '')'')))))"
proof -
  have rest: "spec env (case k of
         Directory \<Rightarrow> (if can_reserve env 1 then retS (Some (new_frame EndEntry), parent # parents)
            else failS allocation_error)
       | _ \<Rightarrow> bindS (expect env (ascii '')'')) (\<lambda>_. retS (Some parent, parents)))
     (\<lambda>p r f. (k = Directory \<and> r = (Some (new_frame EndEntry), parent # parents) \<and> f = no_effect) \<or>
         (k \<noteq> Directory \<and> r = (Some parent, parents) \<and> f = takes (tok '')'')))" for k
  proof (cases "k = Directory")
    case True
    then show ?thesis by (auto simp: env_ok_def intro!: specI split: if_splits)
  next
    case False
    have "spec env (bindS (expect env (ascii '')'')) (\<lambda>_. retS (Some parent, parents)))
        (\<lambda>p r f. r = (Some parent, parents) \<and> f = takes (tok '')''))"
      by (rule spec_cong [OF spec_bindS [OF spec_expect_lit(2) spec_retS]]) (auto simp: seq_rel_def)
    with False show ?thesis by (cases k) (simp_all only: RootKind.case simp_thms RootKind.distinct)
  qed
  have leaf: "leaf_ok l k t \<Longrightarrow> k \<noteq> Directory" for l k t
    by (cases t) (auto simp: leaf_ok_def)
  show ?thesis
    unfolding decode_child_node_def
  proof (rule spec_cong [OF spec_bindS [OF spec_decode_node rest]], rule iffI, goal_cases)
    case (1 p r f)
    then show ?case unfolding seq_rel_def using leaf by auto
  next
    case (2 p r f)
    then show ?case
    proof (elim conjE disjE exE, goal_cases)
      case 1
      then show ?thesis by (auto intro!: seq_relI_last)
    next
      case (2 k t)
      then show ?thesis using leaf by (auto intro!: seq_relI [where y = k])
    qed
  qed
qed

definition entry_effect :: "bytes \<Rightarrow> effect" where
  "entry_effect name = then_eff (name_effect name) (then_eff (emits [EvEntry name]) (takes (tok ''node'')))"

lemma taken_entry_effect [simp]: "taken (entry_effect name) = entry_head name"
  by (simp add: entry_effect_def name_effect_def entry_head_def no_effect_def)

text \<open>One turn of the directory loop: a leaf entry, an entry that opens a directory, or an end.\<close>

inductive dir_step ::
  "Limits \<Rightarrow> DirectoryFrame \<Rightarrow> frames \<Rightarrow> nat \<Rightarrow> DirectoryFrame option \<times> frames \<Rightarrow> effect \<Rightarrow> bool"
  for l where
  leaf: "name_ok l (previous (names fr)) name \<Longrightarrow> length ps + 1 \<le> max_depth l \<Longrightarrow> leaf_ok l k t \<Longrightarrow>
    dir_step l fr ps p (Some (fr\<lparr>names := after_name name\<rparr>), ps)
      (then_eff (entry_effect name)
        (then_eff (node_effect (length ps + 1) (p + length (entry_head name)) t) (takes (tok '')''))))"
| opened: "name_ok l (previous (names fr)) name \<Longrightarrow> length ps + 1 \<le> max_depth l \<Longrightarrow>
    dir_step l fr ps p (Some (new_frame EndEntry), fr\<lparr>names := after_name name\<rparr> # ps)
      (then_eff (entry_effect name) (directory_start (length ps + 1)))"
| ended: "dir_step l fr [] p (None, []) (end_effect (frame_end fr))"
| closed: "dir_step l fr (q # qs) p (Some q, qs) (end_effect (frame_end fr))"

inductive_cases dir_step_None: "dir_step l fr ps p (None, qs) f"
inductive_cases dir_step_Some: "dir_step l fr ps p (Some fr', qs) f"

text \<open>What follows the entry read: a child node after a name, the end of the directory otherwise.\<close>

fun step_rest ::
  "Limits \<Rightarrow> DirectoryFrame \<Rightarrow> frames \<Rightarrow> bytes option \<times> DirectoryNames \<Rightarrow> nat \<Rightarrow>
   DirectoryFrame option \<times> frames \<Rightarrow> effect \<Rightarrow> bool" where
  "step_rest l frame parents (Some name, ns) p r f \<longleftrightarrow>
     (\<exists>g. f = then_eff (emits [EvEntry name]) (then_eff (takes (tok ''node'')) g) \<and>
        length parents + 1 \<le> max_depth l \<and>
        ((r = (Some (new_frame EndEntry), frame\<lparr>names := ns\<rparr> # parents) \<and> g = directory_start (length parents + 1)) \<or>
         (\<exists>k t. leaf_ok l k t \<and> r = (Some (frame\<lparr>names := ns\<rparr>), parents) \<and>
            g = then_eff (node_effect (length parents + 1) (p + length (tok ''node'')) t) (takes (tok '')'')))))"
| "step_rest l frame parents (None, ns) p r f \<longleftrightarrow>
     r = (case parents of [] \<Rightarrow> (None, []) | q # qs \<Rightarrow> (Some q, qs)) \<and>
     f = then_eff (emits [EvEndDirectory])
       (case frame_end frame of EndRoot \<Rightarrow> no_effect | EndEntry \<Rightarrow> takes (tok '')''))"

lemma spec_step_rest:
  "spec env (case x of (e, ns) \<Rightarrow> case e of
         Some name \<Rightarrow> bindS (emit env (EvEntry name)) (\<lambda>_. bindS (expect env (ascii ''node'')) (\<lambda>_.
           decode_child_node env (frame\<lparr>names := ns\<rparr>) parents))
       | None \<Rightarrow> bindS (finish_directory env (frame_end frame)) (\<lambda>_.
           case parents of [] \<Rightarrow> retS (None, []) | p # ps \<Rightarrow> retS (Some p, ps)))
     (step_rest (limits env) frame parents x)"
proof (cases "fst x")
  case None
  have "spec env (case parents of [] \<Rightarrow> retS (None, []) | p # ps \<Rightarrow> retS (Some p, ps))
     (\<lambda>p r f. r = (case parents of [] \<Rightarrow> (None, []) | q # qs \<Rightarrow> (Some q, qs)) \<and> f = no_effect)"
    by (cases parents) (simp_all only: list.case, (rule spec_retS)+)
  note step = spec_bindS [OF spec_finish_directory this]
  obtain ns where x: "x = (None, ns)" using None by (cases x) simp
  show ?thesis
    unfolding x prod.case option.case step_rest.simps
    by (rule spec_cong [OF step]) (auto simp: seq_rel_fixed)
next
  case (Some name)
  obtain ns where x: "x = (Some name, ns)" using Some by (cases x) simp
  show ?thesis
    unfolding x prod.case option.case step_rest.simps
    by (rule spec_cong [OF spec_bindS [OF spec_emit spec_bindS [OF spec_expect_lit(7)
          spec_decode_child_node]]]) (simp only: seq_rel_fixed effect_simps list.size add_0_right, blast)
qed

lemma entry_effect_parts:
  "q + length (taken (name_effect name)) + length (tok ''node'') = q + length (entry_head name)"
  "then_eff (name_effect name) (then_eff (emits [EvEntry name]) (then_eff (takes (tok ''node'')) g)) =
     then_eff (entry_effect name) g"
  by (simp_all add: taken_entry_effect [symmetric] entry_effect_def then_eff_assoc)

lemma spec_directory_step:
  "spec env (decode_directory_child_or_end env frame parents) (dir_step (limits env) frame parents)"
  unfolding decode_directory_child_or_end_def
proof (rule spec_cong [OF spec_bindS [OF spec_read_next_directory_entry_name spec_step_rest]], rule iffI, goal_cases)
  case (1 p r f)
  then obtain y g h where y: "(y = (None, names frame) \<and> g = works (takes (tok '')''))) \<or>
      (\<exists>name. name_ok (limits env) (previous (names frame)) name \<and> y = (Some name, after_name name) \<and> g = name_effect name)"
    and q: "step_rest (limits env) frame parents y (p + length (taken g)) r h" and f: "f = then_eff g h"
    unfolding seq_rel_def by blast
  from y show ?case
  proof (elim disjE exE conjE)
    assume "y = (None, names frame)" "g = works (takes (tok '')''))"
    with q f show ?case
      by (cases parents) (auto simp: end_effect_def [symmetric] intro: dir_step.intros)
  next
    fix name assume n: "name_ok (limits env) (previous (names frame)) name"
      "y = (Some name, after_name name)" "g = name_effect name"
    show ?case
      using q n unfolding f by (auto simp: entry_effect_parts intro: dir_step.intros [unfolded Suc_eq_plus1 [symmetric]])
  qed
next
  case (2 p r f)
  then show ?case 
  proof cases
    case (leaf name k t)
    then show ?thesis
      unfolding leaf(2) entry_effect_parts(2) [symmetric]
      by (intro seq_relI [where y = "(Some name, after_name name)"]) (auto simp: entry_effect_parts(1))
  next
    case (opened name)
    then show ?thesis
      unfolding opened(2) entry_effect_parts(2) [symmetric]
      by (intro seq_relI [where y = "(Some name, after_name name)"]) (auto simp: entry_effect_parts(1))
  next
    case ended
    then show ?thesis
      unfolding ended(3) end_effect_def
      by (intro seq_relI [where y = "(None, names frame)"]) auto
  next
    case (closed q qs)
    then show ?thesis
      unfolding closed(3) end_effect_def
      by (intro seq_relI [where y = "(None, names frame)"]) auto
  qed
qed

subsection \<open>The directory loop\<close>

inductive loop_rel :: "Limits \<Rightarrow> DirectoryFrame \<Rightarrow> frames \<Rightarrow> nat \<Rightarrow> effect \<Rightarrow> bool" for l where
  last: "dir_step l fr ps p (None, qs) f \<Longrightarrow> loop_rel l fr ps p f"
| turn: "dir_step l fr ps p (Some fr', qs) f \<Longrightarrow> loop_rel l fr' qs (p + length (taken f)) g \<Longrightarrow>
    loop_rel l fr ps p (then_eff f g)"

lemma decode_loop_sound:
  "decode_loop env frame parents s = Inr (x, s') \<Longrightarrow>
   \<exists>f. loop_rel (limits env) frame parents (raw_bytes s) f \<and> has_effect env s f s'"
proof (induction env frame parents s rule: decode_loop.induct)
  case (1 env frame parents s)
  obtain fo qs t where step: "decode_directory_child_or_end env frame parents s = Inr ((fo, qs), t)"
    using "1.prems" by (cases "decode_directory_child_or_end env frame parents s")
      (auto simp: decode_loop.simps [of env frame parents s])
  obtain f where f: "dir_step (limits env) frame parents (raw_bytes s) (fo, qs) f" "has_effect env s f t"
    using spec_sound [OF spec_directory_step step] by blast
  show ?case
  proof (cases fo)
    case None
    then have "s' = t" using "1.prems" step by (simp add: decode_loop.simps [of env frame parents s])
    with f None show ?thesis by (auto intro: loop_rel.last)
  next
    case (Some fr')
    then have "decode_loop env fr' qs t = Inr (x, s')"
      using "1.prems" step by (simp add: decode_loop.simps [of env frame parents s])
    from "1.IH" [OF step refl refl Some this]
    obtain g where g: "loop_rel (limits env) fr' qs (raw_bytes t) g" "has_effect env t g s'" by blast
    have "raw_bytes t = raw_bytes s + length (taken f)" using f(2) by (simp add: has_effect_def)
    with f g Some show ?thesis
      by (auto intro!: exI [where x = "then_eff f g"] loop_rel.turn has_effect_trans)
  qed
qed

lemma decode_loop_complete:
  "loop_rel (limits env) frame parents p f \<Longrightarrow> env_ok env \<Longrightarrow> p = raw_bytes s \<Longrightarrow> admits env s f rest \<Longrightarrow>
   \<exists>s'. decode_loop env frame parents s = Inr ((), s') \<and> has_effect env s f s'"
proof (induction arbitrary: s rule: loop_rel.induct)
  case (last fr ps p qs f)
  from spec_complete [OF spec_directory_step last.prems(1) last.hyps [unfolded last.prems(2)] last.prems(3)]
  show ?case by (auto simp: decode_loop.simps [of env fr ps s])
next
  case (turn fr ps p fr' qs f g)
  obtain t where t: "decode_directory_child_or_end env fr ps s = Inr ((Some fr', qs), t)" "has_effect env s f t"
    using spec_complete [OF spec_directory_step turn.prems(1) turn.hyps(1) [unfolded turn.prems(2)]
        admits_first [OF turn.prems(3)]] by blast
  have "p + length (taken f) = raw_bytes t" using t(2) turn.prems(2) by (simp add: has_effect_def)
  from turn.IH [OF turn.prems(1) this admits_second [OF turn.prems(3) t(2)]]
  obtain s' where "decode_loop env fr' qs t = Inr ((), s')" "has_effect env t g s'" by blast
  with t has_effect_trans [OF t(2)] show ?case by (auto simp: decode_loop.simps [of env fr ps s])
qed

lemma spec_decode_loop: "spec env (decode_loop env frame parents) (\<lambda>p x f. loop_rel (limits env) frame parents p f)"
  by (rule specI) (auto dest: decode_loop_sound decode_loop_complete)

text \<open>The loop's effect as one list of entries for each frame of the stack.\<close>

fun stack_effect :: "frames \<Rightarrow> (bytes \<times> Nar) list list \<Rightarrow> nat \<Rightarrow> effect" where
  "stack_effect (fr # frs) (es # ess) p =
     then_eff (entries_effect (length frs + 1) p es)
       (then_eff (end_effect (frame_end fr))
         (stack_effect frs ess (p + length (entries_bytes es) + length (taken (end_effect (frame_end fr))))))"
| "stack_effect _ _ p = no_effect"

fun stack_ok :: "Limits \<Rightarrow> frames \<Rightarrow> (bytes \<times> Nar) list list \<Rightarrow> bool" where
  "stack_ok l [] [] \<longleftrightarrow> True"
| "stack_ok l (fr # frs) (es # ess) \<longleftrightarrow>
     entries_ok l (length frs + 1) (previous (names fr)) es \<and> stack_ok l frs ess"
| "stack_ok l _ _ \<longleftrightarrow> False"

lemma entries_effect_Nil [simp]: "entries_effect d p [] = no_effect"
  by (rule effect_eqI) (simp_all add: entries_effect_def)

lemma taken_node_effect [simp]:
  "taken (node_effect d p t) = node_bytes t" "taken (entries_effect d p es) = entries_bytes es"
  by (simp_all add: node_effect_def entries_effect_def)

lemma entries_effect_Cons:
  "entries_effect d p ((name, t) # es) =
     then_eff (entry_effect name) (then_eff (node_effect d (p + length (entry_head name)) t)
       (then_eff (takes (tok '')''))
         (entries_effect d (p + length (entry_head name @ node_bytes t @ tok '')'')) es)))"
  by (rule effect_eqI)
    (simp_all add: entries_effect_def node_effect_def entry_effect_def name_effect_def no_effect_def entry_head_def)

lemma node_effect_directory:
  "node_effect d p (NDirectory es) =
     then_eff (directory_start d) (then_eff (entries_effect (d + 1) (p + length directory_head) es) (end_effect EndRoot))"
  by (rule effect_eqI)
    (simp_all add: entries_effect_def node_effect_def directory_start_def end_effect_def)

lemma end_effect_entry: "end_effect EndEntry = then_eff (end_effect EndRoot) (takes (tok '')''))"
  by (rule effect_eqI) (simp_all add: end_effect_def)

lemma leaf_node_ok: "leaf_ok l k t \<Longrightarrow> d \<le> max_depth l \<Longrightarrow> node_ok l d t"
  by (cases t) (auto simp: leaf_ok_def)

lemma node_ok_cases:
  "node_ok l d t \<longleftrightarrow> d \<le> max_depth l \<and> (leaf_ok l (nar_kind t) t \<or> (\<exists>es. t = NDirectory es \<and> entries_ok l (d + 1) [] es))"
  by (cases t) (auto simp: leaf_ok_def)

lemma stack_ok_Cons:
  "stack_ok l (fr # frs) ess \<longleftrightarrow>
   (\<exists>es ess'. ess = es # ess' \<and> entries_ok l (length frs + 1) (previous (names fr)) es \<and> stack_ok l frs ess')"
  by (cases ess) auto

text \<open>One turn, on the entries of the stack.\<close>

lemma stack_leaf:
  "then_eff (then_eff (entry_effect name)
       (then_eff (node_effect (length ps + 1) (p + length (entry_head name)) t) (takes (tok '')''))))
     (stack_effect (fr\<lparr>names := ns\<rparr> # ps) (es # ess) (p + length (entry_head name @ node_bytes t @ tok '')''))) =
   stack_effect (fr # ps) (((name, t) # es) # ess) p"
  by (simp add: entries_effect_Cons then_eff_assoc add.assoc)

lemma stack_opened:
  "then_eff (then_eff (entry_effect name) (directory_start (length ps + 1)))
     (stack_effect (new_frame EndEntry # fr\<lparr>names := ns\<rparr> # ps) (es # es2 # ess)
        (p + length (entry_head name @ directory_head))) =
   stack_effect (fr # ps) (((name, NDirectory es) # es2) # ess) p"
  by (simp add: entries_effect_Cons node_effect_directory end_effect_entry then_eff_assoc add.assoc
      new_frame_def) (simp add: end_effect_def add.assoc)

lemma loop_rel_stack:
  "loop_rel l fr ps p f \<Longrightarrow> \<exists>ess. stack_ok l (fr # ps) ess \<and> f = stack_effect (fr # ps) ess p"
proof (induction rule: loop_rel.induct)
  case (last fr ps p qs f)
  then show ?case by cases (auto intro!: exI [where x = "[[]]"])
next
  case (turn fr ps p fr' qs f g)
  from turn.IH obtain es ess where ok: "stack_ok l (fr' # qs) (es # ess)"
    and g: "g = stack_effect (fr' # qs) (es # ess) (p + length (taken f))"
    unfolding stack_ok_Cons by blast
  from turn.hyps(1) show ?case
  proof cases
    case (leaf name k t)
    have "stack_ok l (fr # ps) (((name, t) # es) # ess)"
      using ok leaf by (simp add: name_ok_def leaf_node_ok)
    moreover have "then_eff f g = stack_effect (fr # ps) (((name, t) # es) # ess) p"
      unfolding g leaf(1-3) stack_leaf [symmetric, where ns = "after_name name"] by simp
    ultimately show ?thesis by blast
  next
    case (opened name)
    obtain es2 ess2 where ess: "ess = es2 # ess2"
      using ok opened by (cases ess) auto
    have "stack_ok l (fr # ps) (((name, NDirectory es) # es2) # ess2)"
      using ok opened by (simp add: name_ok_def ess new_frame_def)
    moreover have "then_eff f g = stack_effect (fr # ps) (((name, NDirectory es) # es2) # ess2) p"
      unfolding g opened(1-3) ess stack_opened [symmetric, where ns = "after_name name"]
      by (simp add: directory_start_def)
    ultimately show ?thesis by blast
  next
    case closed
    then show ?thesis using ok g
      by (intro exI [where x = "[] # es # ess"]) auto
  qed
qed

lemma stack_loop_rel:
  "stack_ok l (fr # ps) ess \<Longrightarrow> loop_rel l fr ps p (stack_effect (fr # ps) ess p)"
proof (induction "sum_list (map list_work ess) + length ess" arbitrary: fr ps ess p rule: less_induct)
  case less
  obtain es ess' where ess: "ess = es # ess'" and ok: "entries_ok l (length ps + 1) (previous (names fr)) es"
    "stack_ok l ps ess'" using less.prems unfolding stack_ok_Cons by blast
  show ?case
  proof (cases es)
    case Nil
    show ?thesis
    proof (cases ps)
      case Nil
      then show ?thesis using ok \<open>es = []\<close> unfolding ess
        by (cases ess') (auto intro: loop_rel.last dir_step.ended)
    next
      case (Cons q qs)
      have "loop_rel l q qs (p + length (taken (end_effect (frame_end fr)))) (stack_effect (q # qs) ess' (p + length (taken (end_effect (frame_end fr)))))"
        using ok Cons by (intro less.hyps) (auto simp: ess)
      from loop_rel.turn [OF dir_step.closed this] show ?thesis unfolding ess Cons \<open>es = []\<close> by simp
    qed
  next
    case (Cons e es')
    obtain name t where e: "e = (name, t)" by (cases e)
    have n: "name_ok l (previous (names fr)) name" "node_ok l (length ps + 1) t" "entries_ok l (length ps + 1) name es'"
      using ok(1) Cons e by (auto simp: name_ok_def)
    have d: "length ps + 1 \<le> max_depth l" using n(2) node_ok_cases by blast
    from n(2) consider "leaf_ok l (nar_kind t) t" | ds where "t = NDirectory ds" "entries_ok l (length ps + 1 + 1) [] ds"
      unfolding node_ok_cases by blast
    then show ?thesis
    proof cases
      case 1
      have "loop_rel l (fr\<lparr>names := after_name name\<rparr>) ps (p + length (entry_head name @ node_bytes t @ tok '')''))
         (stack_effect (fr\<lparr>names := after_name name\<rparr> # ps) (es' # ess') (p + length (entry_head name @ node_bytes t @ tok '')'')))"
        using n ok(2) by (intro less.hyps) (auto simp: ess Cons e)
      then show ?thesis
        unfolding ess Cons e stack_leaf [symmetric, where ns = "after_name name"]
        by (intro loop_rel.turn [OF dir_step.leaf [OF n(1) d 1]]) simp
    next
      case (2 ds)
      have "loop_rel l (new_frame EndEntry) (fr\<lparr>names := after_name name\<rparr> # ps) (p + length (entry_head name @ directory_head))
         (stack_effect (new_frame EndEntry # fr\<lparr>names := after_name name\<rparr> # ps) (ds # es' # ess') (p + length (entry_head name @ directory_head)))"
        using n ok(2) 2 by (intro less.hyps) (auto simp: ess Cons e new_frame_def)
      then show ?thesis
        unfolding ess Cons e 2(1) stack_opened [symmetric, where ns = "after_name name"]
        by (intro loop_rel.turn [OF dir_step.opened [OF n(1) d]]) (simp add: directory_start_def)
    qed
  qed
qed

lemma loop_rel_root:
  "loop_rel l (new_frame EndRoot) [] p f \<longleftrightarrow>
   (\<exists>es. entries_ok l 1 [] es \<and> f = then_eff (entries_effect 1 p es) (end_effect EndRoot))"
proof
  assume "loop_rel l (new_frame EndRoot) [] p f"
  from loop_rel_stack [OF this] obtain ess where
    *: "stack_ok l [new_frame EndRoot] ess" "f = stack_effect [new_frame EndRoot] ess p" by blast
  then obtain es where "ess = [es]" "entries_ok l 1 [] es"
    unfolding stack_ok_Cons by (auto simp: new_frame_def elim: stack_ok.elims)
  with * show "\<exists>es. entries_ok l 1 [] es \<and> f = then_eff (entries_effect 1 p es) (end_effect EndRoot)"
    by (intro exI [where x = es]) (simp add: new_frame_def)
next
  assume "\<exists>es. entries_ok l 1 [] es \<and> f = then_eff (entries_effect 1 p es) (end_effect EndRoot)"
  then obtain es where *: "entries_ok l 1 [] es" "f = then_eff (entries_effect 1 p es) (end_effect EndRoot)" by blast
  have "stack_ok l [new_frame EndRoot] [es]" using * by (simp add: new_frame_def)
  from stack_loop_rel [OF this, of p] show "loop_rel l (new_frame EndRoot) [] p f"
    using * by (simp add: new_frame_def)
qed

definition tree_rel :: "Limits \<Rightarrow> nat \<Rightarrow> RootKind \<Rightarrow> effect \<Rightarrow> bool" where
  "tree_rel l p k f \<longleftrightarrow> (\<exists>t. nar_ok l t \<and> k = nar_kind t \<and> f = node_effect 0 p t)"

lemma tree_rel_cases:
  "tree_rel l p k f \<longleftrightarrow>
     (\<exists>t. leaf_ok l k t \<and> f = node_effect 0 p t) \<or>
     (k = Directory \<and> (\<exists>es. entries_ok l 1 [] es \<and> f = then_eff (directory_start 0)
        (then_eff (entries_effect 1 (p + length directory_head) es) (end_effect EndRoot))))"
  (is "?l \<longleftrightarrow> ?r")
proof
  assume ?l
  then obtain t where t: "node_ok l 0 t" "k = nar_kind t" "f = node_effect 0 p t"
    by (auto simp: tree_rel_def nar_ok_def)
  then show ?r unfolding node_ok_cases [of l 0 t] by (auto simp: node_effect_directory)
next
  assume ?r
  then show ?l
  proof (elim disjE exE conjE)
    fix t assume "leaf_ok l k t" "f = node_effect 0 p t"
    then show ?l using leaf_node_ok [of l k t 0] by (auto simp: tree_rel_def nar_ok_def leaf_ok_def)
  next
    fix es assume *: "k = Directory" "entries_ok l 1 [] es" "f = then_eff (directory_start 0)
        (then_eff (entries_effect 1 (p + length directory_head) es) (end_effect EndRoot))"
    show ?l unfolding tree_rel_def
      by (rule exI [where x = "NDirectory es"]) (use * in \<open>simp add: nar_ok_def node_effect_directory\<close>)
  qed
qed

lemma spec_decode_tree: "spec env (decode_tree env) (tree_rel (limits env))"
proof -
  have rest: "spec env (bindS (case k of Directory \<Rightarrow> decode_loop env (new_frame EndRoot) [] | _ \<Rightarrow> retS ()) (\<lambda>_. retS k))
      (\<lambda>p r f. r = k \<and> (if k = Directory then loop_rel (limits env) (new_frame EndRoot) [] p f else f = no_effect))" for k
  proof (cases "k = Directory")
    case True
    show ?thesis unfolding True RootKind.case
      by (rule spec_cong [OF spec_bindS [OF spec_decode_loop spec_retS]]) (auto simp: seq_rel_def)
  next
    case False
    have "spec env (bindS (retS ()) (\<lambda>_. retS k)) (\<lambda>p r f. r = k \<and> f = no_effect)"
      by (rule spec_cong [OF spec_bindS [OF spec_retS spec_retS]]) (auto simp: seq_rel_def)
    with False show ?thesis by (cases k) (simp_all only: RootKind.case RootKind.distinct if_False simp_thms)
  qed
  show ?thesis
    unfolding decode_tree_def
  proof (rule spec_cong [OF spec_bindS [OF spec_decode_node rest]], goal_cases)
    case (1 p k f)
    have leaf: "leaf_ok l k t \<Longrightarrow> k \<noteq> Directory" for l k t
      by (cases t) (auto simp: leaf_ok_def)
    have "seq_rel (\<lambda>p k f. 0 \<le> max_depth (limits env) \<and> ((k = Directory \<and> f = directory_start 0) \<or>
          (\<exists>t. leaf_ok (limits env) k t \<and> f = node_effect 0 p t)))
        (\<lambda>k p r f. r = k \<and> (if k = Directory then loop_rel (limits env) (new_frame EndRoot) [] p f else f = no_effect)) p k f \<longleftrightarrow>
      (\<exists>t. leaf_ok (limits env) k t \<and> f = node_effect 0 p t) \<or>
      (k = Directory \<and> (\<exists>g. loop_rel (limits env) (new_frame EndRoot) [] (p + length (taken (directory_start 0))) g \<and>
         f = then_eff (directory_start 0) g))"
      unfolding seq_rel_def using leaf by auto
    then show ?case
      unfolding tree_rel_cases loop_rel_root by (auto simp: directory_start_def)
  qed
qed

subsection \<open>The whole archive\<close>

definition nar_summary :: "(bytes \<Rightarrow> bytes) \<Rightarrow> Nar \<Rightarrow> DecodeSummary" where
  "nar_summary sha256 t =
     \<lparr>ds_root = nar_kind t, ds_raw_size = length (nar_bytes t), ds_raw_sha256 = sha256 (nar_bytes t),
      ds_entries = nar_entries t, ds_files = nar_files t, ds_symlinks = nar_symlinks t\<rparr>"

text \<open>A tree that a decoder with these limits takes.\<close>

definition nar_within :: "Limits \<Rightarrow> Nar \<Rightarrow> bool" where
  "nar_within l t \<longleftrightarrow> nar_ok l t \<and> length (nar_bytes t) \<le> max_total_bytes l \<and>
     nar_entries t \<le> max_entries l \<and> nar_work t \<le> max_work l"

lemma node_work_le_bytes:
  "nar_work t \<le> length (node_bytes t)" "list_work es \<le> length (entries_bytes es)"
  by (induction t and es rule: node_bytes_entries_bytes.induct)
    (auto simp: regular_head_def symlink_head_def directory_head_def entry_head_def length_nar_str)

lemma check_trailing_Inr:
  "check_trailing s = Inr (x, s') \<longleftrightarrow>
   (\<exists>r. pending s = [] \<and> reader_fault (reader s) = None \<and> retry_read 1 (reader s) = Inr ([], r) \<and> s' = s\<lparr>reader := r\<rparr>)"
  by (auto simp: check_trailing_def dest: retry_read_Inr split: sum.splits if_splits)

lemma retry_read_at_end:
  "reader_bytes r = [] \<Longrightarrow> reader_fault r = None \<Longrightarrow> \<exists>r'. retry_read 1 r = Inr ([], r')"
proof (induction r)
  case (Cons a r)
  then show ?case by (cases a) (auto split: if_splits)
qed simp

abbreviation decode_body :: "('s, 'e) decode_env \<Rightarrow> ('s, 'e, RootKind) dec" where
  "decode_body env \<equiv> bindS (expect env (ascii ''nix-archive-1'')) (\<lambda>_. decode_tree env)"

definition nar_effect :: "Nar \<Rightarrow> effect" where
  "nar_effect t = then_eff (takes (tok ''nix-archive-1'')) (node_effect 0 (length (tok ''nix-archive-1'')) t)"

lemma spec_decode_body:
  "spec env (decode_body env)
     (\<lambda>p k f. \<exists>t. nar_ok (limits env) t \<and> k = nar_kind t \<and>
        f = then_eff (takes (tok ''nix-archive-1'')) (node_effect 0 (p + length (tok ''nix-archive-1'')) t))"
  by (rule spec_cong [OF spec_bindS [OF spec_expect_lit(8) spec_decode_tree]])
    (auto simp: seq_rel_fixed tree_rel_def)

lemma decode_via_body:
  "decode sha256 env r k =
     (case decode_body env (with_limits r k) of
        Inl e \<Rightarrow> Err e
      | Inr (root, s) \<Rightarrow>
          (case bindS check_trailing (\<lambda>_. retS root) s of
             Inl e \<Rightarrow> Err e
           | Inr (root, s) \<Rightarrow>
               Ok (\<lparr>ds_root = root, ds_raw_size = raw_bytes s, ds_raw_sha256 = sha256 (digest s),
                    ds_entries = c_entries (counters s), ds_files = c_files (counters s),
                    ds_symlinks = c_symlinks (counters s)\<rparr>, sink_state s)))"
  unfolding decode_def bindS_assoc [symmetric]
  by (simp add: bindS_apply [of "decode_body env"] split: sum.splits prod.splits)

lemma decode_split:
  "decode sha256 env r k = Inr (sm, k') \<longleftrightarrow>
   (\<exists>root s. decode_body env (with_limits r k) = Inr (root, s) \<and> pending s = [] \<and> reader_fault (reader s) = None \<and>
      sm = \<lparr>ds_root = root, ds_raw_size = raw_bytes s, ds_raw_sha256 = sha256 (digest s),
        ds_entries = c_entries (counters s), ds_files = c_files (counters s), ds_symlinks = c_symlinks (counters s)\<rparr> \<and>
      k' = sink_state s)"
proof -
  have "bindS (expect env (ascii ''nix-archive-1'')) (\<lambda>_. bindS (decode_tree env) (\<lambda>root. bindS check_trailing (\<lambda>_. retS root))) s0
      = Inr (root, s1) \<longleftrightarrow>
    (\<exists>s r. decode_body env s0 = Inr (root, s) \<and> pending s = [] \<and> reader_fault (reader s) = None \<and>
       retry_read 1 (reader s) = Inr ([], r) \<and> s1 = s\<lparr>reader := r\<rparr>)" for s0 root s1
    unfolding bindS_Inr_iff check_trailing_Inr retS_Inr_iff by blast
  note * = this
  have case_Inr: "(case m of Inl e \<Rightarrow> Err e | Inr (root, s) \<Rightarrow> Ok (F root s)) = Inr y \<longleftrightarrow>
      (\<exists>root s. m = Inr (root, s) \<and> y = F root s)" for m F and y :: "DecodeSummary \<times> 's"
    by (auto split: sum.splits)
  show ?thesis
    unfolding decode_def case_Inr *
    by (rule iffI, force, elim exE conjE, frule (1) retry_read_at_end, force)
qed

lemma nar_effect_fields [simp]:
  "taken (nar_effect t) = nar_bytes t" "delivered (nar_effect t) = nar_events t"
  "d_entries (nar_effect t) = nar_entries t" "d_files (nar_effect t) = nar_files t"
  "d_symlinks (nar_effect t) = nar_symlinks t" "d_work (nar_effect t) = nar_work t"
  by (simp_all add: nar_effect_def nar_bytes_def nar_events_def node_effect_def)

text \<open>The state after an archive was taken: no counter saturated.\<close>

lemma nar_effect_state:
  assumes "has_effect env (with_limits r k) (nar_effect t) s"
  shows "reader_bytes r = nar_bytes t @ pending s" "reader_fault r = reader_fault (reader s)"
    "try_fold (sink env) k (nar_events t) = Inr (sink_state s)"
    "raw_bytes s = length (nar_bytes t)" "digest s = nar_bytes t" "c_entries (counters s) = nar_entries t"
    "c_files (counters s) = nar_files t" "c_symlinks (counters s) = nar_symlinks t"
    "length (nar_bytes t) \<le> total_cap (limits env)" "nar_entries t \<le> max_entries (limits env)"
    "nar_work t \<le> max_work (limits env)"
proof -
  note e = assms [unfolded has_effect_def with_limits_def, simplified]
  show cap: "length (nar_bytes t) \<le> total_cap (limits env)" using e by (cases "nar_bytes t = []") simp_all
  have exact: "nar_files t \<le> u64_max" "nar_symlinks t \<le> u64_max" "nar_work t \<le> u64_max"
    using cap node_counts_le_bytes(1) [of t] node_work_le_bytes(1) [of t]
    by (auto simp: total_cap_def nar_bytes_def)
  show "nar_entries t \<le> max_entries (limits env)" using e by (cases "nar_entries t = 0") simp_all
  show "nar_work t \<le> max_work (limits env)"
    using e exact by (cases "nar_work t = 0") (simp_all add: sat_plus_def)
  show "c_files (counters s) = nar_files t" "c_symlinks (counters s) = nar_symlinks t"
    using e exact by (simp_all add: sat_plus_def)
qed (use assms in \<open>simp_all add: has_effect_def with_limits_def\<close>)

text \<open>The decoder on a reader, as an effect.\<close>

lemma decode_effect:
  "decode sha256 env r k = Inr (sm, k') \<Longrightarrow>
   \<exists>t s. nar_ok (limits env) t \<and> has_effect env (with_limits r k) (nar_effect t) s \<and> pending s = [] \<and>
     reader_fault (reader s) = None \<and> sm = nar_summary sha256 t \<and> k' = sink_state s"
  unfolding decode_split
proof (elim exE conjE)
  fix root s assume b: "decode_body env (with_limits r k) = Inr (root, s)" "pending s = []" "reader_fault (reader s) = None"
    and sm: "sm = \<lparr>ds_root = root, ds_raw_size = raw_bytes s, ds_raw_sha256 = sha256 (digest s),
        ds_entries = c_entries (counters s), ds_files = c_files (counters s), ds_symlinks = c_symlinks (counters s)\<rparr>"
      "k' = sink_state s"
  obtain t where t: "nar_ok (limits env) t" "root = nar_kind t" and e: "has_effect env (with_limits r k) (nar_effect t) s"
    using spec_sound [OF spec_decode_body b(1)] by (auto simp: with_limits_def nar_effect_def)
  show ?thesis
    using t e b sm nar_effect_state [OF e] by (intro exI [where x = t] exI [where x = s]) (simp add: nar_summary_def)
qed

lemma decode_sound:
  assumes "decode sha256 env r k = Inr (sm, k')"
  shows "\<exists>t. nar_within (limits env) t \<and> length (nar_bytes t) \<le> u64_max \<and> reader_bytes r = nar_bytes t \<and>
    reader_fault r = None \<and> try_fold (sink env) k (nar_events t) = Inr k' \<and> sm = nar_summary sha256 t"
proof -
  obtain t s where t: "nar_ok (limits env) t" and e: "has_effect env (with_limits r k) (nar_effect t) s"
    and s: "pending s = []" "reader_fault (reader s) = None" "sm = nar_summary sha256 t" "k' = sink_state s"
    using decode_effect [OF assms] by blast
  then show ?thesis
    using nar_effect_state [OF e] by (intro exI [where x = t]) (simp add: nar_within_def total_cap_def)
qed

lemma decode_body_complete:
  assumes "env_ok env" and "nar_within (limits env) t" and "reader_bytes r = nar_bytes t @ extra"
    and "try_fold (sink env) k (nar_events t) = Inr k'"
  shows "\<exists>s. decode_body env (with_limits r k) = Inr (nar_kind t, s) \<and> has_effect env (with_limits r k) (nar_effect t) s"
proof -
  have "admits env (with_limits r k) (nar_effect t) extra"
    using assms by (simp add: admits_def with_limits_def nar_within_def env_ok_def limits_u64_def total_cap_def)
  then show ?thesis
    by (rule spec_complete [OF spec_decode_body assms(1), rotated])
      (use assms(2) in \<open>intro exI [where x = t], simp add: nar_within_def nar_effect_def with_limits_def\<close>)
qed

lemma decode_complete:
  assumes "env_ok env" and "nar_within (limits env) t" and "reader_bytes r = nar_bytes t" "reader_fault r = None"
    and "try_fold (sink env) k (nar_events t) = Inr k'"
  shows "decode sha256 env r k = Inr (nar_summary sha256 t, k')"
proof -
  obtain s where s: "decode_body env (with_limits r k) = Inr (nar_kind t, s)"
    and e: "has_effect env (with_limits r k) (nar_effect t) s"
    using decode_body_complete [OF assms(1,2) _ assms(5), of r "[]"] assms(3) by auto
  show ?thesis
    unfolding decode_split using s nar_effect_state [OF e] assms
    by (intro exI [where x = "nar_kind t"] exI [where x = s]) (simp add: nar_summary_def)
qed

subsection \<open>Properties\<close>

text \<open>A sink that records the events, limits of the code and an allocator that delivers, and a
  directory holding an executable file and a link.\<close>

definition recording_env :: "(Event list, unit) decode_env" where
  "recording_env = \<lparr>limits = default_limits, sink = \<lambda>es e. Inr (es @ [e]), can_reserve = \<lambda>_. True\<rparr>"

definition sample_nar :: Nar where
  "sample_nar = NDirectory [(ascii ''a'', NRegular True (ascii ''hi'')), (ascii ''b'', NSymlink (ascii ''a''))]"

text \<open>C1: the decoder succeeds exactly when the reader delivers, without a fault, the canonical bytes of
  some tree that satisfies the format's rules and every limit, and the sink accepts that tree's events in
  order; the summary then is the tree's kind, size, hash and counts, and the sink's state is the one
  after those events.\<close>

theorem decode_accepts_exactly:
  assumes "env_ok env"
  shows "decode sha256 env r k = Inr (sm, k') \<longleftrightarrow>
    (\<exists>t. nar_within (limits env) t \<and> reader_bytes r = nar_bytes t \<and> reader_fault r = None \<and>
       try_fold (sink env) k (nar_events t) = Inr k' \<and> sm = nar_summary sha256 t)"
  by (rule iffI, drule decode_sound, blast, elim exE conjE, simp add: decode_complete [OF assms])

lemma try_fold_recording: "try_fold (\<lambda>es e. Inr (es @ [e])) es0 es = (Inr (es0 @ es) :: 'e + 'a list)"
  by (induction es arbitrary: es0) simp_all

lemma recording_env_ok: "env_ok recording_env"
  by (simp add: env_ok_def recording_env_def limits_u64_def default_limits_def u64_max_def)

lemma sample_nar_within: "nar_within default_limits sample_nar"
  by (simp add: nar_within_def sample_nar_def nar_ok_def default_limits_def valid_entry_name_def valid_target_def
      nar_bytes_def directory_head_def entry_head_def regular_head_def symlink_head_def length_nar_str padding_len_def ascii_def)

lemma decode_sample:
  "decode id recording_env [Data (nar_bytes sample_nar)] [] = Inr (nar_summary id sample_nar, nar_events sample_nar)"
  by (rule decode_complete [OF recording_env_ok])
    (use sample_nar_within in \<open>auto simp: recording_env_def try_fold_recording\<close>)

theorem decode_accepts_exactly_witness:
  "decode id recording_env [Data (take 20 (nar_bytes sample_nar)), Interrupted, Data (drop 20 (nar_bytes sample_nar))] []
     = Inr (nar_summary id sample_nar, nar_events sample_nar)"
proof -
  have "length (nar_bytes sample_nar) > 20"
    by (simp add: sample_nar_def nar_bytes_def directory_head_def length_nar_str padding_len_def)
  then show ?thesis
    unfolding decode_accepts_exactly [OF recording_env_ok]
    using sample_nar_within by (auto simp: recording_env_def try_fold_recording intro!: exI [where x = sample_nar])
qed

end
