(* ===== verification/Nar_Reader.thy ===== *)
theory Nar_Reader
  imports Nar_Decode_Correct
begin

section \<open>Short reads and interruptions do not matter\<close>

text \<open>
  The decoder of \<open>src/src/nar.rs\<close> sees its reader only through the bytes it delivers and the fault it ends
  in: two readers that agree on those give the same result, the same error and the same sink state, however
  they cut the stream and wherever they are interrupted.  The proof is a simulation: states that differ
  only in the cutting of their reader stay so at every step.
\<close>

definition same_stream :: "reader \<Rightarrow> reader \<Rightarrow> bool" where
  "same_stream r r' \<longleftrightarrow> reader_bytes r = reader_bytes r' \<and> reader_fault r = reader_fault r'"

definition sim :: "'s Decoder \<Rightarrow> 's Decoder \<Rightarrow> bool" where
  "sim s s' \<longleftrightarrow> same_stream (reader s) (reader s') \<and> digest s' = digest s \<and> raw_bytes s' = raw_bytes s \<and>
     work s' = work s \<and> symlink_target s' = symlink_target s \<and> counters s' = counters s \<and>
     sink_state s' = sink_state s"

definition simulated :: "('s, 'e, 'a) dec \<Rightarrow> bool" where
  "simulated m \<longleftrightarrow> (\<forall>s s'. sim s s' \<longrightarrow> rel_sum (=) (rel_prod (=) sim) (m s) (m s'))"

named_theorems sim_rules \<open>steps that preserve the simulation\<close>

lemma simulatedI: "(\<And>s s'. sim s s' \<Longrightarrow> rel_sum (=) (rel_prod (=) sim) (m s) (m s')) \<Longrightarrow> simulated m"
  by (simp add: simulated_def)

lemma simulatedD: "simulated m \<Longrightarrow> sim s s' \<Longrightarrow> rel_sum (=) (rel_prod (=) sim) (m s) (m s')"
  by (simp add: simulated_def)

lemma simulated_bindS [sim_rules]:
  assumes "simulated m" and "\<And>x. simulated (f x)"
  shows "simulated (bindS m f)"
proof (rule simulatedI)
  fix s s' :: "'a Decoder" assume "sim s s'"
  then have "rel_sum (=) (rel_prod (=) sim) (m s) (m s')" using assms(1) by (rule simulatedD [rotated])
  then show "rel_sum (=) (rel_prod (=) sim) (bindS m f s) (bindS m f s')"
    by cases (auto simp: bindS_def intro: simulatedD [OF assms(2)])
qed

lemma simulated_basic [sim_rules]:
  "simulated (retS x)" "simulated (failS e)" "simulated (liftS r)"
  "simulated (getS raw_bytes)" "simulated (getS symlink_target)" "simulated (getS (\<lambda>s. length (symlink_target s)))"
  "simulated (modifyS (\<lambda>s. s\<lparr>symlink_target := t\<rparr>))"
  "simulated (modifyS (\<lambda>s. s\<lparr>counters := g (counters s)\<rparr>))"
  by (rule simulatedI; auto simp: sim_def retS_def failS_def getS_def modifyS_def liftS_def split: sum.splits)+

lemma simulated_split [sim_rules]:
  "simulated a \<Longrightarrow> simulated b \<Longrightarrow> simulated (if c then a else b)"
  "simulated a \<Longrightarrow> simulated b \<Longrightarrow> simulated d \<Longrightarrow> simulated (case k of Directory \<Rightarrow> a | Regular \<Rightarrow> b | Symlink \<Rightarrow> d)"
  "simulated a \<Longrightarrow> (\<And>x. simulated (f x)) \<Longrightarrow> simulated (case y of None \<Rightarrow> a | Some x \<Rightarrow> f x)"
  "(\<And>x. simulated (g x)) \<Longrightarrow> (\<And>x. simulated (g' x)) \<Longrightarrow> simulated (case z of Inl x \<Rightarrow> g x | Inr x \<Rightarrow> g' x)"
  "(\<And>x y. simulated (h x y)) \<Longrightarrow> simulated (case p of (x, y) \<Rightarrow> h x y)"
  "simulated a \<Longrightarrow> (\<And>x xs. simulated (h' x xs)) \<Longrightarrow> simulated (case l of [] \<Rightarrow> a | x # xs \<Rightarrow> h' x xs)"
  "simulated a \<Longrightarrow> simulated b \<Longrightarrow> simulated (case e of EndRoot \<Rightarrow> a | EndEntry \<Rightarrow> b)"
  by (auto split: RootKind.splits option.splits sum.splits prod.splits list.splits DirectoryEnd.splits)

lemma read_exact_same_stream:
  "same_stream r r' \<Longrightarrow>
   rel_sum (=) (\<lambda>(bs, q) (bs', q'). bs' = bs \<and> same_stream q q') (read_exact n r) (read_exact n r')"
proof (cases "n \<le> length (reader_bytes r)")
  case True
  assume "same_stream r r'"
  then show ?thesis
    using read_exact_enough [OF True] read_exact_enough [of n r'] True by (auto simp: same_stream_def)
next
  case False
  assume "same_stream r r'"
  then show ?thesis
    using False read_exact_short [of r n] read_exact_short [of r' n] by (simp add: same_stream_def)
qed

lemma simulated_effects [sim_rules]:
  "simulated (emit env ev)" "simulated (bump_work env)" "simulated (count_entry env)"
  by (rule simulatedI; auto simp: sim_def emit_def bump_work_def count_entry_def Let_def
      split: sum.splits option.splits)+

lemma simulated_read_hashed [sim_rules]:
  "simulated (read_hashed_limited_bytes env n)" "simulated (read_raw env n)"
proof -
  show "simulated (read_hashed_limited_bytes env n)"
  proof (rule simulatedI)
    fix s s' :: "'a Decoder" assume s: "sim s s'"
    then have "rel_sum (=) (\<lambda>(bs, q) (bs', q'). bs' = bs \<and> same_stream q q')
        (read_exact n (reader s)) (read_exact n (reader s'))"
      by (intro read_exact_same_stream) (simp add: sim_def)
    then show "rel_sum (=) (rel_prod (=) sim) (read_hashed_limited_bytes env n s) (read_hashed_limited_bytes env n s')"
      using s by cases (auto simp: sim_def read_hashed_limited_bytes_def bindR_def split: sum.splits prod.splits)
  qed
  then show "simulated (read_raw env n)" by (simp add: read_raw_def)
qed

lemma simulated_tokens [sim_rules]:
  "simulated (read_padding env n)" "simulated (read_control_token env)"
  "simulated (read_bounded_string_length env n)" "simulated (expect env t)"
  "simulated (read_string_into env n b)" "simulated (read_u64 env)"
  unfolding read_padding_def read_control_token_def read_bounded_string_length_def read_u64_def
    expect_def read_string_into_def
  by (intro sim_rules)+

lemma simulated_chunks [sim_rules]: "simulated (stream_chunks env offset sz)"
proof (induction env offset sz rule: stream_chunks.induct)
  case (1 env offset sz)
  then show ?case
    unfolding stream_chunks.simps [of env offset sz] read_file_chunk_def
    by (cases "offset < sz") (simp_all only: if_True if_False, (intro sim_rules; simp)+)
qed

lemma simulated_decode_node [sim_rules]: "simulated (decode_node env depth)"
  unfolding decode_node_def read_node_kind_def decode_regular_file_node_def
    read_regular_file_executable_flag_def stream_file_contents_def decode_symlink_node_def
    read_symlink_target_def
  by (intro sim_rules)

lemma simulated_directory_step: "simulated (decode_directory_child_or_end env frame parents)"
  unfolding decode_directory_child_or_end_def read_next_directory_entry_name_def
    decode_child_node_def finish_directory_def
  by (intro sim_rules)

lemma simulated_decode_loop [sim_rules]: "simulated (decode_loop env frame parents)"
proof (rule simulatedI)
  fix s s' :: "'a Decoder" assume "sim s s'"
  then show "rel_sum (=) (rel_prod (=) sim) (decode_loop env frame parents s) (decode_loop env frame parents s')"
  proof (induction env frame parents s arbitrary: s' rule: decode_loop.induct)
    case (1 env frame parents s)
    note IH = "1.IH"
    have "rel_sum (=) (rel_prod (=) sim) (decode_directory_child_or_end env frame parents s)
        (decode_directory_child_or_end env frame parents s')"
      by (rule simulatedD [OF simulated_directory_step "1.prems"])
    then consider e where "decode_directory_child_or_end env frame parents s = Inl e"
        "decode_directory_child_or_end env frame parents s' = Inl e"
      | fo qs t t' where "decode_directory_child_or_end env frame parents s = Inr ((fo, qs), t)"
        "decode_directory_child_or_end env frame parents s' = Inr ((fo, qs), t')" "sim t t'"
      by cases auto
    then show ?case
    proof cases
      case 1
      then show ?thesis by (simp add: decode_loop.simps [of env frame parents])
    next
      case 2
      show ?thesis
      proof (cases fo)
        case None
        then show ?thesis using 2 by (simp add: decode_loop.simps [of env frame parents])
      next
        case (Some fr)
        from IH [OF 2(1) refl refl Some 2(3)] show ?thesis
          using 2 Some by (simp add: decode_loop.simps [of env frame parents])
      qed
    qed
  qed
qed

lemma retry_read_same_stream:
  "same_stream r r' \<Longrightarrow> 0 < n \<Longrightarrow>
   rel_sum (=) (\<lambda>(bs, q) (bs', q'). bs = [] \<longleftrightarrow> bs' = []) (retry_read n r) (retry_read n r')"
  using retry_read_Inr [of n r] retry_read_Inr [of n r'] retry_read_Inl [of n r] retry_read_Inl [of n r']
  by (cases "retry_read n r"; cases "retry_read n r'") (fastforce simp: same_stream_def split: if_splits)+

lemma check_trailing_same:
  assumes "sim s s'"
  obtains e where "check_trailing s = (Inl e :: 'e DecodeError + _)" "check_trailing s' = (Inl e :: 'e DecodeError + _)"
  | r r' where "check_trailing s = (Inr ((), s\<lparr>reader := r\<rparr>) :: 'e DecodeError + _)" 
      "check_trailing s' = (Inr ((), s'\<lparr>reader := r'\<rparr>) :: 'e DecodeError + _)"
  using retry_read_same_stream [of "reader s" "reader s'" 1] assms
  by (auto simp: check_trailing_def sim_def elim!: rel_sum.cases split: prod.splits if_splits)

lemma simulated_decode_tree [sim_rules]: "simulated (decode_tree env)"
  unfolding decode_tree_def by (intro sim_rules)

text \<open>C2: two readers that deliver the same bytes and end in the same way give the same result: the same
  summary and sink state, or the same error.  How the stream is cut into reads and where reads are
  interrupted is invisible.\<close>

theorem decode_same_stream:
  fixes env :: "('s, 'e) decode_env"
  assumes "reader_bytes r = reader_bytes r'" and "reader_fault r = reader_fault r'"
  shows "decode sha256 env r k = decode sha256 env r' k"
proof -
  have "sim (with_limits r k) (with_limits r' k)"
    using assms by (simp add: sim_def with_limits_def same_stream_def)
  moreover have "simulated (bindS (expect env (ascii ''nix-archive-1'')) (\<lambda>_. decode_tree env))"
    by (intro sim_rules)
  ultimately have "rel_sum (=) (rel_prod (=) sim) (decode_body env (with_limits r k)) (decode_body env (with_limits r' k))"
    by (rule simulatedD [rotated])
  then consider e where "decode_body env (with_limits r k) = Inl e" "decode_body env (with_limits r' k) = Inl e"
    | root s s' where "decode_body env (with_limits r k) = Inr (root, s)" "decode_body env (with_limits r' k) = Inr (root, s')" "sim s s'"
    by cases auto
  then show ?thesis
  proof cases
    case 1
    then show ?thesis by (simp add: decode_via_body )
  next
    case 2
    from 2(3) show ?thesis
      by (rule check_trailing_same [where ?'e = 'e]) (use 2 in \<open>simp_all add: decode_via_body bindS_apply [of check_trailing] sim_def\<close>)
  qed
qed

theorem decode_same_stream_witness:
  "decode id recording_env [Data (nar_bytes sample_nar)] [] =
   decode id recording_env [Interrupted, Data (take 3 (nar_bytes sample_nar)), Interrupted, Data (drop 3 (nar_bytes sample_nar))] []"
proof -
  have "length (nar_bytes sample_nar) > 3"
    by (simp add: sample_nar_def nar_bytes_def directory_head_def length_nar_str padding_len_def)
  then show ?thesis by (intro decode_same_stream) auto
qed

end
