(* ===== verification/Nar_Canonical.thy ===== *)
theory Nar_Canonical
  imports Nar_Decode_Correct
begin

section \<open>The encoding is unambiguous\<close>

text \<open>
  Length-prefixed tokens make the archive encoding of \<open>src/src/nar.rs\<close> prefix free: the bytes of a tree
  are no proper prefix of another tree's, and two trees with the same bytes are equal.  Together with the
  exact acceptance of the decoder this gives: truncated archives are refused, trailing bytes are refused
  with their own error, and the events the sink saw are those of the one tree the bytes stand for.
\<close>

lemma nar_str_append_eq:
  assumes "length a \<le> u64_max" and "length b \<le> u64_max"
  shows "nar_str a @ x = nar_str b @ y \<longleftrightarrow> a = b \<and> x = y"
proof
  assume eq: "nar_str a @ x = nar_str b @ y"
  then have "u64_to_le_bytes (length a) = u64_to_le_bytes (length b)"
    by (simp add: nar_str_def append_eq_append_conv)
  then have "length a = length b"
    using assms by (metis u64_from_to_le_bytes)
  with eq show "a = b \<and> x = y"
    by (simp add: nar_str_def append_eq_append_conv pad_zeros_def)
qed simp

lemma tok_append_eq: "length s \<le> 20 \<Longrightarrow> length s' \<le> 20 \<Longrightarrow> tok s @ x = tok s' @ y \<longleftrightarrow> s = s' \<and> x = y"
  by (subst nar_str_append_eq) (simp_all add: u64_max_def)

lemma length_nar_str_le: "length (nar_str a) \<le> n \<Longrightarrow> length a \<le> n"
  by (simp add: length_nar_str)

lemma node_bytes_prefix_free:
  "length (node_bytes t) \<le> u64_max \<Longrightarrow> length (node_bytes t') \<le> u64_max \<Longrightarrow>
   node_bytes t @ x = node_bytes t' @ y \<Longrightarrow> t = t' \<and> x = y"
  "length (entries_bytes es) \<le> u64_max \<Longrightarrow> length (entries_bytes es') \<le> u64_max \<Longrightarrow>
   entries_bytes es @ tok '')'' @ x = entries_bytes es' @ tok '')'' @ y \<Longrightarrow> es = es' \<and> x = y"
proof (induction t and es arbitrary: t' x y and es' x y rule: node_bytes_entries_bytes.induct)
  case (1 e body)
  then show ?case
    by (cases t') (auto simp: regular_head_def symlink_head_def directory_head_def tok_append_eq nar_str_append_eq
        length_nar_str split: if_splits)
next
  case (2 target)
  then show ?case
    by (cases t') (auto simp: regular_head_def symlink_head_def directory_head_def tok_append_eq nar_str_append_eq
        length_nar_str split: if_splits)
next
  case (3 es)
  show ?case
  proof (cases t')
    case (NDirectory es2)
    have "es = es2 \<and> x = y"
      using "3.prems" by (intro "3.IH") (simp_all add: NDirectory)
    then show ?thesis by (simp add: NDirectory)
  qed (use "3.prems" in \<open>auto simp: regular_head_def symlink_head_def directory_head_def tok_append_eq split: if_splits\<close>)
next
  case 4
  then show ?case
    by (cases es') (auto simp: entry_head_def tok_append_eq)
next
  case (5 name t es)
  show ?case
  proof (cases es')
    case Nil
    then show ?thesis using "5.prems" by (simp add: entry_head_def tok_append_eq)
  next
    case (Cons e es2)
    obtain name' t' where e: "e = (name', t')" by (cases e)
    have n: "length name \<le> u64_max" "length name' \<le> u64_max"
      using "5.prems"(1,2) by (simp_all add: Cons e entry_head_def length_nar_str)
    have "name = name'" and b: "node_bytes t @ tok '')'' @ entries_bytes es @ tok '')'' @ x =
        node_bytes t' @ tok '')'' @ entries_bytes es2 @ tok '')'' @ y"
      using "5.prems"(3) by (simp_all add: Cons e entry_head_def tok_append_eq nar_str_append_eq [OF n])
    moreover have "t = t' \<and> tok '')'' @ entries_bytes es @ tok '')'' @ x = tok '')'' @ entries_bytes es2 @ tok '')'' @ y"
      using "5.prems"(1,2) b by (intro "5.IH"(1)) (simp_all add: Cons e)
    moreover from this have "es = es2 \<and> x = y"
      using "5.prems"(1,2) by (intro "5.IH"(2)) (simp_all add: Cons e tok_append_eq)
    ultimately show ?thesis by (simp add: Cons e)
  qed
qed

lemma nar_bytes_not_Nil: "nar_bytes t \<noteq> []"
  by (simp add: nar_bytes_def nar_str_def ascii_def)

lemma nar_bytes_prefix_free:
  "length (nar_bytes t) \<le> u64_max \<Longrightarrow> length (nar_bytes t') \<le> u64_max \<Longrightarrow>
   nar_bytes t @ x = nar_bytes t' @ y \<Longrightarrow> t = t' \<and> x = y"
  using node_bytes_prefix_free(1) [of t t' x y] by (simp add: nar_bytes_def)


text \<open>C3: the accepted bytes stand for one tree only.  After a success there is exactly one tree (of a size
  that 64-bit lengths can express) with those bytes, it satisfies the format's rules, and the sink received
  exactly its events.\<close>

theorem decode_unique_tree:
  assumes "decode sha256 env r k = Inr (sm, k')"
  shows "\<exists>t. nar_ok (limits env) t \<and> try_fold (sink env) k (nar_events t) = Inr k' \<and> sm = nar_summary sha256 t \<and>
    {t'. length (nar_bytes t') \<le> u64_max \<and> nar_bytes t' = reader_bytes r} = {t}"
proof -
  obtain t where t: "nar_within (limits env) t" "length (nar_bytes t) \<le> u64_max" "reader_bytes r = nar_bytes t"
    "try_fold (sink env) k (nar_events t) = Inr k'" "sm = nar_summary sha256 t"
    using decode_sound [OF assms] by blast
  have u: "length (nar_bytes t') \<le> u64_max \<Longrightarrow> nar_bytes t' = nar_bytes t \<Longrightarrow> t' = t" for t'
    using nar_bytes_prefix_free [of t' t "[]" "[]"] t(2) by simp
  have "{t'. length (nar_bytes t') \<le> u64_max \<and> nar_bytes t' = reader_bytes r} = {t}"
    unfolding t(3) using u t(2) by blast
  with t show ?thesis by (auto simp: nar_within_def)
qed

theorem decode_unique_tree_witness:
  "\<exists>t. nar_ok default_limits t \<and> try_fold (sink recording_env) [] (nar_events t) = Inr (nar_events sample_nar) \<and>
    nar_summary id sample_nar = nar_summary id t \<and>
    {t'. length (nar_bytes t') \<le> u64_max \<and> nar_bytes t' = reader_bytes [Data (nar_bytes sample_nar)]} = {t}"
  using decode_unique_tree [OF decode_sample] by (simp add: recording_env_def)

text \<open>C4: an archive cut off anywhere is refused, whatever the limits, the sink and the reader's cutting.\<close>

theorem decode_truncated:
  assumes "reader_bytes r = take n (nar_bytes t)" and "n < length (nar_bytes t)" "length (nar_bytes t) \<le> u64_max"
  shows "\<exists>e. decode sha256 env r k = Inl e"
proof (cases "decode sha256 env r k")
  case (Inr x)
  obtain sm k' where x: "x = (sm, k')" by (cases x)
  obtain t' where t': "length (nar_bytes t') \<le> u64_max" "reader_bytes r = nar_bytes t'"
    using decode_sound [OF Inr [unfolded x]] by blast
  have "nar_bytes t' @ drop n (nar_bytes t) = nar_bytes t @ []"
    using assms(1) t' by simp
  from nar_bytes_prefix_free [OF t'(1) assms(3) this] assms(2) show ?thesis by simp
qed (rule exI)

theorem decode_truncated_witness:
  "\<exists>e. decode id recording_env [Data (take 50 (nar_bytes sample_nar))] [] = Inl e"
  by (rule decode_truncated [where n = 50 and t = sample_nar])
    (auto simp: sample_nar_def nar_bytes_def directory_head_def length_nar_str padding_len_def entry_head_def
      regular_head_def symlink_head_def u64_max_def)

text \<open>C5: bytes after the root node are refused with the trailing bytes error.\<close>

theorem decode_trailing:
  fixes env :: "('s, 'e) decode_env"
  assumes "env_ok env" and "nar_within (limits env) t" and "reader_bytes r = nar_bytes t @ extra" "extra \<noteq> []"
    and "try_fold (sink env) k (nar_events t) = Inr k'"
  shows "decode sha256 env r k = Inl (Invalid (Message ''trailing bytes after root node''))"
proof -
  obtain s where s: "decode_body env (with_limits r k) = Inr (nar_kind t, s)"
    and e: "has_effect env (with_limits r k) (nar_effect t) s"
    using decode_body_complete [OF assms(1,2,3,5)] by blast
  have "pending s = extra" using nar_effect_state(1) [OF e] assms(3) by simp
  then have "check_trailing s = (Inl (Invalid (Message ''trailing bytes after root node'')) :: 'e DecodeError + _)"
    using assms(4) retry_read_Inr [of 1 "reader s"] retry_read_Inl [of 1 "reader s"]
    by (cases "retry_read 1 (reader s)") (auto simp: check_trailing_def)
  with s show ?thesis by (simp add: decode_via_body bindS_apply [of check_trailing])
qed

theorem decode_trailing_witness:
  "decode id recording_env [Data (nar_bytes sample_nar), Data [0]] [] = Inl (Invalid (Message ''trailing bytes after root node''))"
  by (rule decode_trailing [OF recording_env_ok, where t = sample_nar and extra = "[0]"])
    (use sample_nar_within in \<open>auto simp: recording_env_def try_fold_recording nar_bytes_not_Nil\<close>)

end
