(* ===== verification/Nar_Roundtrip.thy ===== *)
theory Nar_Roundtrip
  imports Nar_Encode_Correct Nar_Reader Nar_Canonical
begin

section \<open>Decoder and encoder together\<close>

text \<open>
  The two directions of the codec.  Feeding the events of a decode straight into an encoder (as the
  storage layer does when it rebuilds an archive) writes the input bytes back, and what an encoder wrote a decoder
  with the same limits accepts, with the same counts.  Last, the encoder's \<open>unreachable!\<close> branches are
  indeed never taken.
\<close>

subsection \<open>Decoded events as encoder events\<close>

fun to_enc :: "Event \<Rightarrow> EncEvent" where
  "to_enc (EvBeginDirectory d) = BeginDirectory"
| "to_enc (EvEntry name) = Entry name"
| "to_enc (EvBeginFile x sz off) = BeginFile x sz"
| "to_enc (EvFileChunk chunk) = FileChunk chunk"
| "to_enc EvEndFile = EndFile"
| "to_enc (EvSymlink target) = SymlinkTo target"
| "to_enc EvEndDirectory = EndDirectory"

lemma entries_spell_append:
  "entries_spell fs gs \<Longrightarrow> entries_spell es xs \<Longrightarrow> entries_spell (es @ fs) (xs @ gs)"
proof (induction fs arbitrary: gs rule: rev_induct)
  case Nil
  then show ?case by (auto elim: entries_spell.cases)
next
  case (snoc e fs)
  from snoc.prems(1) obtain name t us tvs where
    "e = (name, t)" "gs = us @ Entry name # tvs" "entries_spell fs us" "spells t tvs"
    by (cases rule: entries_spell.cases) auto
  with snoc.IH snoc.prems(2) spell_snoc [of "es @ fs" "xs @ us" t tvs name] show ?case by simp
qed

lemma spells_node_events:
  "spells t (map to_enc (node_events d p t))"
  "entries_spell es (map to_enc (entries_events d p es))"
proof (induction d p t and d p es rule: node_events_entries_events.induct)
  case (1 d off x body)
  then show ?case
    using spells_file [OF concat_chunks_of [of body], of x] by (simp add: o_def)
next
  case (2 d off target)
  then show ?case by (simp add: spells_symlink)
next
  case (3 d off es)
  then show ?case using spells_directory by simp
next
  case (4 d off)
  then show ?case by (simp add: spell_none)
next
  case (5 d off name t es)
  have "entries_spell ([] @ [(name, t)]) ([] @ Entry name # map to_enc (node_events d (off + length (entry_head name)) t))"
    by (rule spell_snoc [OF spell_none "5.IH"(1)])
  from entries_spell_append [OF "5.IH"(2) this] show ?case by simp
qed

subsection \<open>Larger limits\<close>

definition limits_le :: "Limits \<Rightarrow> Limits \<Rightarrow> bool" where
  "limits_le a b \<longleftrightarrow> max_depth a \<le> max_depth b \<and> max_name_bytes a \<le> max_name_bytes b \<and>
     max_symlink_target_bytes a \<le> max_symlink_target_bytes b \<and> max_entries a \<le> max_entries b \<and>
     max_file_bytes a \<le> max_file_bytes b"

definition limits_max :: "Limits \<Rightarrow> Limits \<Rightarrow> Limits" where
  "limits_max a b = a\<lparr>max_depth := max (max_depth a) (max_depth b), max_name_bytes := max (max_name_bytes a) (max_name_bytes b),
     max_symlink_target_bytes := max (max_symlink_target_bytes a) (max_symlink_target_bytes b),
     max_entries := max (max_entries a) (max_entries b), max_file_bytes := max (max_file_bytes a) (max_file_bytes b)\<rparr>"

lemma limits_max_le: "limits_le a (limits_max a b)" "limits_le b (limits_max a b)"
  by (simp_all add: limits_le_def limits_max_def)

lemma node_ok_mono:
  "limits_le a b \<Longrightarrow> node_ok a d t \<Longrightarrow> node_ok b d t"
  "limits_le a b \<Longrightarrow> entries_ok a d prev es \<Longrightarrow> entries_ok b d prev es"
  by (induction a d t and a d prev es rule: node_ok_entries_ok.induct) (auto simp: limits_le_def)

lemma advance_mono: "limits_le a b \<Longrightarrow> advance a p ev = Some p' \<Longrightarrow> advance b p ev = Some p'"
  by (cases "(a, p, ev)" rule: advance.cases)
    (auto simp: limits_le_def begin_context_Some split: if_splits)

lemma build_mono: "limits_le a b \<Longrightarrow> build a p evs = Some p' \<Longrightarrow> build b p evs = Some p'"
  by (induction evs arbitrary: p) (auto dest: advance_mono split: option.splits)

subsection \<open>Decode, then encode\<close>

context byte_writer
begin

lemma push_all_spelled:
  assumes put: "write_all env = put" and lim: "max_entries (e_limits env) \<le> u64_max"
    and s0: "encoder_with_limits env w = Inr s0" and s': "push_all env s0 evs = Inr s'"
    and t: "spells t evs" "nar_ok l t" "nar_entries t \<le> max_entries l"
  shows "\<exists>w'. finish sha256 s' = Inr (w', encode_summary sha256 t) \<and> put w (nar_bytes t) = Inr w'"
proof -
  let ?e = "e_limits env" and ?m = "progress_bytes Fresh"
  obtain w1 where w1: "length ?m \<le> total_cap ?e" "put w ?m = Inr w1" "s0 = state_of w1 0 Fresh"
    using s0 unfolding encoder_with_limits_state [OF put] by blast
  obtain p' bs w2 where p': "build ?e Fresh evs = Some p'" "progress_bytes p' = ?m @ bs" "put w1 bs = Inr w2"
      "s' = state_of w2 (work_after 0 (length evs)) p'"
    using s' push_all_state [OF put lim, of Fresh "[]" 0 w1 evs s'] w1 by auto
  have "build (limits_max ?e l) Fresh evs = Some (Done t)"
    using t node_ok_mono(1) [OF limits_max_le(2) , of l 0 t ?e]
    by (auto simp: build_iff nar_ok_def limits_max_def)
  moreover have "build (limits_max ?e l) Fresh evs = Some p'"
    by (rule build_mono [OF limits_max_le(1) p'(1)])
  ultimately have d: "p' = Done t" by simp
  have "put w (nar_bytes t) = Inr w2"
    using p'(2,3) w1(2) d put_append [of w ?m bs w2] by auto
  then show ?thesis
    unfolding p'(4) d by (intro exI [where x = w2] conjI) (simp add: finish_state)
qed

end

definition reencode_sink :: "'w encode_env \<Rightarrow> 'w Encoder \<Rightarrow> Event \<Rightarrow> EncodeError + 'w Encoder" where
  "reencode_sink env enc ev = bindR (push env (to_enc ev) enc) (\<lambda>(_, enc'). Ok enc')"

lemma try_fold_reencode: "try_fold (reencode_sink env) enc es = push_all env enc (map to_enc es)"
  by (induction es arbitrary: enc) (simp_all add: push_all_def reencode_sink_def)

text \<open>The fields a decode summary and an encode summary have in common.\<close>

definition summaries_agree :: "DecodeSummary \<Rightarrow> EncodeSummary \<Rightarrow> bool" where
  "summaries_agree d e \<longleftrightarrow> es_root e = ds_root d \<and> es_raw_size e = ds_raw_size d \<and> es_raw_sha256 e = ds_raw_sha256 d \<and>
     es_entries e = ds_entries d \<and> es_files e = ds_files d \<and> es_symlinks e = ds_symlinks d"

lemma summaries_agree_tree: "summaries_agree (nar_summary sha256 t) (encode_summary sha256 t)"
  by (simp add: summaries_agree_def nar_summary_def encode_summary_def)

text \<open>C7: when every event of a decode is pushed to an encoder and the decode succeeds, finishing that encoder
  succeeds, its destination received exactly the bytes the decoder read, and both summaries agree.  The
  limits of the two may differ.\<close>

theorem reencode_identity:
  assumes "byte_writer (write_all eenv)" and "limits_u64 (e_limits eenv)"
    and "encoder_with_limits eenv w = Inr enc" and "sink env = reencode_sink eenv"
    and "decode sha256 env r enc = Inr (sm, enc')"
  shows "\<exists>w' es. finish sha256 enc' = Inr (w', es) \<and> write_all eenv w (reader_bytes r) = Inr w' \<and> summaries_agree sm es"
proof -
  obtain t where t: "nar_within (limits env) t" "reader_bytes r = nar_bytes t"
      "try_fold (sink env) enc (nar_events t) = Inr enc'" "sm = nar_summary sha256 t"
    using decode_sound [OF assms(5)] by blast
  have p: "push_all eenv enc (map to_enc (nar_events t)) = Inr enc'"
    using t(3) by (simp add: assms(4) try_fold_reencode)
  have sp: "spells t (map to_enc (nar_events t))" by (simp add: nar_events_def spells_node_events)
  have ok: "nar_ok (limits env) t" "nar_entries t \<le> max_entries (limits env)"
    using t(1) by (simp_all add: nar_within_def)
  have "max_entries (e_limits eenv) \<le> u64_max" using assms(2) by (simp add: limits_u64_def)
  from byte_writer.push_all_spelled [OF assms(1) refl this assms(3) p sp ok, of sha256]
  show ?thesis using t(2,4) summaries_agree_tree by auto
qed

definition reencode_env :: "(bytes Encoder, EncodeError) decode_env" where
  "reencode_env = \<lparr>limits = default_limits, sink = reencode_sink vec_env, can_reserve = \<lambda>_. True\<rparr>"

lemma encode_Inr_parts:
  "encode sha256 env w evs = Inr r \<Longrightarrow> \<exists>s s'. encoder_with_limits env w = Inr s \<and> push_all env s evs = Inr s' \<and> finish sha256 s' = Inr r"
  by (auto simp: encode_def bindR_Inr_iff)

lemma sample_reencodable:
  "\<exists>enc enc'. encoder_with_limits vec_env [] = Inr enc \<and> push_all vec_env enc (map to_enc (nar_events sample_tree)) = Inr enc'"
proof -
  have "encodable default_limits sample_tree (map to_enc (nar_events sample_tree))"
    using sample_encodable spells_node_events(1) [of sample_tree]
    by (simp add: encodable_def nar_events_def sample_tree_def chunks_of.simps CHUNK_SIZE_def default_limits_def u64_max_def)
  then have "encode id vec_env [] (map to_enc (nar_events sample_tree)) = Inr (nar_bytes sample_tree, encode_summary id sample_tree)"
    using vec.encode_iff [of vec_env] by (auto simp: vec_env_def default_limits_u64 write_vec_def)
  from encode_Inr_parts [OF this] show ?thesis by blast
qed

theorem reencode_identity_witness:
  "\<exists>enc enc' sm es. encoder_with_limits vec_env [] = Inr enc \<and>
     decode id reencode_env [Data (nar_bytes sample_tree)] enc = Inr (sm, enc') \<and>
     finish id enc' = Inr (nar_bytes sample_tree, es) \<and> summaries_agree sm es"
proof -
  obtain enc enc' where e: "encoder_with_limits vec_env [] = Inr enc"
      "push_all vec_env enc (map to_enc (nar_events sample_tree)) = Inr enc'"
    using sample_reencodable by blast
  have d: "decode id reencode_env [Data (nar_bytes sample_tree)] enc = Inr (nar_summary id sample_tree, enc')"
    by (rule decode_complete)
      (use sample_nar_within e(2) in \<open>simp_all add: reencode_env_def env_ok_def default_limits_u64 try_fold_reencode
        sample_nar_def sample_tree_def\<close>)
  have "byte_writer (write_all vec_env)" "limits_u64 (e_limits vec_env)" "sink reencode_env = reencode_sink vec_env"
    by (simp_all add: vec_env_def vec.byte_writer_axioms default_limits_u64 reencode_env_def)
  from reencode_identity [OF this(1,2) e(1) this(3) d] show ?thesis
    using e(1) d by (auto simp: vec_env_def write_vec_def)
qed

subsection \<open>Encode, then decode\<close>

lemma spells_work:
  "spells t evs \<Longrightarrow> nar_work t \<le> length evs"
  "entries_spell es evs \<Longrightarrow> list_work es \<le> length evs"
proof (induction rule: spells_entries_spell.inducts)
  case (spell_snoc es evs t tvs name)
  have "list_work (es @ [(name, t)]) = list_work es + 1 + nar_work t"
  proof (induction es)
    case (Cons e es)
    then show ?case by (cases e) simp
  qed simp
  with spell_snoc show ?case by simp
qed auto

text \<open>C8: whatever an encoder wrote, a decoder with the same limits accepts, provided its sink takes the
  tree's events, and both summaries agree.\<close>

theorem encode_then_decode:
  assumes "encode sha256 \<lparr>e_limits = limits env, write_all = write_vec\<rparr> [] evs = Inr (out, es)"
    and "env_ok env" and "\<And>k ev. \<exists>k'. sink env k ev = Inr k'"
    and "reader_bytes r = out" and "reader_fault r = None"
  shows "\<exists>sm k'. decode sha256 env r k = Inr (sm, k') \<and> summaries_agree sm es"
proof -
  obtain t where t: "encodable (limits env) t evs" "out = nar_bytes t" "es = encode_summary sha256 t"
    using vec.encode_iff [of "\<lparr>e_limits = limits env, write_all = write_vec\<rparr>" sha256 "[]" evs out es] assms(1,2)
    by (auto simp: env_ok_def write_vec_def)
  have lim: "limits_u64 (limits env)" using assms(2) by (simp add: env_ok_def)
  have w: "nar_work t \<le> length (nar_bytes t)" using node_work_le_bytes(1) [of t] by (simp add: nar_bytes_def)
  have "nar_within (limits env) t"
    using t(1) spells_work(1) [of t evs] w lim by (auto simp: encodable_def nar_within_def limits_u64_def)
  moreover have "\<exists>k'. try_fold (sink env) k xs = Inr k'" for k xs
  proof (induction xs arbitrary: k)
    case (Cons x xs)
    then show ?case using assms(3) [of k x] by (auto simp: bindR_Inr_iff)
  qed simp
  ultimately obtain k' where "decode sha256 env r k = Inr (nar_summary sha256 t, k')"
    using decode_complete [OF assms(2), of t r k _ sha256] assms(4,5) t(2) by blast
  then show ?thesis using t(3) summaries_agree_tree by auto
qed

theorem encode_then_decode_witness:
  "\<exists>out es sm k'. encode id vec_env [] sample_events = Inr (out, es) \<and>
     decode id recording_env [Data out] [] = Inr (sm, k') \<and> summaries_agree sm es"
proof -
  have env: "\<lparr>e_limits = limits recording_env, write_all = write_vec\<rparr> = vec_env"
    by (simp add: recording_env_def vec_env_def)
  have e: "encode id vec_env [] sample_events = Inr (nar_bytes sample_tree, encode_summary id sample_tree)"
    using vec.encode_iff [of vec_env] sample_encodable by (auto simp: vec_env_def default_limits_u64 write_vec_def)
  have "\<exists>sm k'. decode id recording_env [Data (nar_bytes sample_tree)] [] = Inr (sm, k') \<and>
      summaries_agree sm (encode_summary id sample_tree)"
    by (rule encode_then_decode [where evs = sample_events])
      (use e recording_env_ok in \<open>auto simp: env, auto simp: recording_env_def\<close>)
  then show ?thesis using e by blast
qed

subsection \<open>No panics\<close>

definition no_panic :: "('w, 'a) enc \<Rightarrow> bool" where
  "no_panic m \<longleftrightarrow> (\<forall>s msg. m s \<noteq> Inl (EncodePanic msg))"

named_theorems panic_rules \<open>encoder steps that never panic\<close>

lemma no_panic_bindS [panic_rules]: "no_panic m \<Longrightarrow> (\<And>x. no_panic (f x)) \<Longrightarrow> no_panic (bindS m f)"
  by (auto simp: no_panic_def bindS_def split: sum.splits prod.splits)

lemma no_panic_basic [panic_rules]:
  "no_panic (retS x)" "no_panic (getS f)" "no_panic (modifyS g)" "no_panic (push_node nd)"
  "no_panic ensure_open" "no_panic (encoder_bump_work env)" "no_panic check_parent" "no_panic (open_root kd)"
  "no_panic complete_root" "no_panic (write_bytes env bs)" "no_panic (open_child name)" "no_panic (liftS (next_entries env n))"
  "no_panic (failS (EncodeInvalid m))" "no_panic (failS (EncodeNonCanonical m))" "no_panic (failS (EncodeLimitExceeded m a b))"
  by (auto simp: no_panic_def push_node_def ensure_open_def encoder_bump_work_def check_parent_def open_root_def
      complete_root_def write_bytes_def open_child_def next_entries_def Let_def liftS_def
      split: RootState.splits list.splits Node.splits DirectoryState.splits option.splits sum.splits if_splits)

lemma no_panic_split [panic_rules]:
  "no_panic a \<Longrightarrow> no_panic b \<Longrightarrow> no_panic (if c then a else b)"
  "(\<And>x. no_panic (g x)) \<Longrightarrow> (\<And>x. no_panic (g' x)) \<Longrightarrow> no_panic (case z of Inl x \<Rightarrow> g x | Inr x \<Rightarrow> g' x)"
  by (auto split: sum.splits)

lemma no_panic_strings [panic_rules]:
  "no_panic (write_string env v)" "no_panic (write_u64 env n)" "no_panic (write_padding env n)" "no_panic (begin_node env k)"
  unfolding write_string_def write_u64_def write_padding_def begin_node_def by (intro panic_rules)+

lemma write_keeps_stack:
  "write_bytes env bs s = Inr (x, s') \<Longrightarrow> e_stack s' = e_stack s"
  "write_string env v s = Inr (x, s') \<Longrightarrow> e_stack s' = e_stack s"
proof -
  have b: "write_bytes env bs s = Inr (x, s') \<Longrightarrow> e_stack s' = e_stack s" for bs s x s'
    by (auto simp: write_bytes_def split: option.splits if_splits sum.splits)
  then show "write_bytes env bs s = Inr (x, s') \<Longrightarrow> e_stack s' = e_stack s" .
  show "write_string env v s = Inr (x, s') \<Longrightarrow> e_stack s' = e_stack s"
    by (auto simp: write_string_def write_u64_def write_padding_def bindS_Inr_iff dest!: b)
qed

text \<open>The two \<open>unreachable!\<close> sites sit behind a test of the stack that writing does not disturb.\<close>

lemma no_panic_after_write:
  assumes "no_panic w" and "\<And>s x s'. w s = Inr (x, s') \<Longrightarrow> e_stack s' = e_stack s"
    and "\<And>s' msg. e_stack s' = e_stack s \<Longrightarrow> m s' \<noteq> Inl (EncodePanic msg)"
  shows "bindS w (\<lambda>_. m) s \<noteq> Inl (EncodePanic msg)"
  using assms by (auto simp: no_panic_def bindS_def split: sum.splits prod.splits)

lemma no_panic_finish_parent [panic_rules]: "no_panic (finish_parent env)"
proof -
  have "bindS (write_string env (ascii '')'')) (\<lambda>_. mark_child_closed) s \<noteq> Inl (EncodePanic msg)"
    if "e_stack s = NodeDirectory (ChildOpen name) # rest" for s name rest msg
    by (rule no_panic_after_write [OF no_panic_strings(1) write_keeps_stack(2)])
      (use that in \<open>auto simp: mark_child_closed_def\<close>)
  then show ?thesis
    using no_panic_basic(9)
    by (auto simp: no_panic_def finish_parent_def close_directory_entry_def
        split: list.splits Node.splits DirectoryState.splits)
qed

lemma no_panic_finish [panic_rules]: "no_panic (finish_atomic env)" "no_panic (finish_node env k)"
proof -
  show a: "no_panic (finish_atomic env)" unfolding finish_atomic_def by (intro panic_rules)
  then show "no_panic (finish_node env k)"
    by (auto simp: no_panic_def finish_node_def finish_atomic_def split: list.splits)
qed

lemma no_panic_file_chunk [panic_rules]: "no_panic (file_chunk env chunk)"
proof -
  have "bindS (write_bytes env chunk) (\<lambda>_. reduce_remaining (length chunk)) s \<noteq> Inl (EncodePanic msg)"
    if "e_stack s = NodeRegular r z # rest" for s r z rest msg
    by (rule no_panic_after_write [OF no_panic_basic(10) write_keeps_stack(1)])
      (use that in \<open>auto simp: reduce_remaining_def\<close>)
  then show ?thesis
    by (auto simp: no_panic_def file_chunk_def split: list.splits Node.splits)
qed

lemma no_panic_end_file [panic_rules]: "no_panic (end_file env)"
proof -
  have "no_panic (bindS (write_padding env sz) (\<lambda>_. bindS (finish_node env Regular) (\<lambda>_.
      modifyS (\<lambda>s. s\<lparr>e_files := saturating_add_u64 (e_files s) 1\<rparr>))))" for sz
    by (intro panic_rules)
  then show ?thesis
    by (auto simp: no_panic_def end_file_def split: list.splits Node.splits)
qed

lemma no_panic_end_directory [panic_rules]: "no_panic (end_directory env)"
  using no_panic_finish(2) [of env Directory]
  by (auto simp: no_panic_def end_directory_def split: list.splits Node.splits DirectoryState.splits)

text \<open>C9: no event makes the encoder panic, in any state whatever, valid or not.\<close>

theorem push_never_panics: "push env ev s \<noteq> Inl (EncodePanic msg)"
proof -
  have "no_panic (push env ev)"
    unfolding push_def begin_directory_def entry_def begin_file_def symlink_def
    by (rule panic_rules, rule panic_rules, cases ev)
      (simp_all only: EncEvent.case, (intro panic_rules)+)
  then show ?thesis by (simp add: no_panic_def)
qed

end
