(* ===== verification/Rust_Str.thy ===== *)
theory Rust_Str
  imports Narjar_Prelude
begin

section \<open>The string functions of the standard library\<close>

text \<open>
  What the metadata code uses of \<open>str\<close>, \<open>String\<close>, \<open>Vec\<close> and \<open>u64\<close>: stripping and splitting,
  joining, ASCII classification, decimal \<open>parse\<close> and \<open>Display\<close> of a \<open>u64\<close>, UTF-8 validation, and
  the sort-and-dedup of a vector.  A \<open>str\<close> is its UTF-8 encoding, a \<open>string\<close> whose characters are
  bytes, so lengths are byte lengths as in Rust.
\<close>

subsection \<open>Definitions\<close>

fun strip_prefix :: "'a list \<Rightarrow> 'a list \<Rightarrow> 'a list option" where
  "strip_prefix [] s = Some s"
| "strip_prefix (p # ps) [] = None"
| "strip_prefix (p # ps) (x # s) = (if p = x then strip_prefix ps s else None)"

definition strip_suffix :: "'a list \<Rightarrow> 'a list \<Rightarrow> 'a list option" where
  "strip_suffix p s = map_option rev (strip_prefix (rev p) (rev s))"

definition starts_with :: "'a list \<Rightarrow> 'a list \<Rightarrow> bool" where
  "starts_with p s = (strip_prefix p s \<noteq> None)"

definition ends_with :: "'a list \<Rightarrow> 'a list \<Rightarrow> bool" where
  "ends_with p s = (strip_suffix p s \<noteq> None)"

text \<open>\<open>split_once\<close> at a character, and at a string.\<close>

fun split_once :: "'a \<Rightarrow> 'a list \<Rightarrow> ('a list \<times> 'a list) option" where
  "split_once c [] = None"
| "split_once c (x # s) = (if x = c then Some ([], s)
     else case split_once c s of None \<Rightarrow> None | Some (a, b) \<Rightarrow> Some (x # a, b))"

fun split_once_str :: "'a list \<Rightarrow> 'a list \<Rightarrow> ('a list \<times> 'a list) option" where
  "split_once_str p [] = (if p = [] then Some ([], []) else None)"
| "split_once_str p (x # s) = (case strip_prefix p (x # s) of
     Some r \<Rightarrow> Some ([], r)
   | None \<Rightarrow> (case split_once_str p s of None \<Rightarrow> None | Some (a, b) \<Rightarrow> Some (x # a, b)))"

text \<open>\<open>split(c)\<close>, which yields one piece more than there are separators, and \<open>join\<close>.\<close>

fun str_split :: "'a \<Rightarrow> 'a list \<Rightarrow> 'a list list" where
  "str_split c [] = [[]]"
| "str_split c (x # s) = (if x = c then [] # str_split c s
     else case str_split c s of [] \<Rightarrow> [[x]] | p # ps \<Rightarrow> (x # p) # ps)"

fun join :: "'a list \<Rightarrow> 'a list list \<Rightarrow> 'a list" where
  "join sep [] = []"
| "join sep [x] = x"
| "join sep (x # y # xs) = x @ sep @ join sep (y # xs)"

text \<open>\<open>split_ascii_whitespace\<close>: the non-empty pieces between space, tab, line feed, form feed and
  carriage return.\<close>

definition ascii_whitespace :: "char \<Rightarrow> bool" where
  "ascii_whitespace c = (of_char c \<in> {9, 10, 12, 13, 32 :: nat})"

fun whitespace_pieces :: "string \<Rightarrow> string list" where
  "whitespace_pieces [] = [[]]"
| "whitespace_pieces (x # s) = (if ascii_whitespace x then [] # whitespace_pieces s
     else case whitespace_pieces s of [] \<Rightarrow> [[x]] | p # ps \<Rightarrow> (x # p) # ps)"

definition split_ascii_whitespace :: "string \<Rightarrow> string list" where
  "split_ascii_whitespace s = filter (\<lambda>p. p \<noteq> []) (whitespace_pieces s)"

definition ascii_digit :: "char \<Rightarrow> bool" where
  "ascii_digit c = (48 \<le> (of_char c :: nat) \<and> of_char c \<le> (57 :: nat))"

definition ascii_alphanumeric :: "char \<Rightarrow> bool" where
  "ascii_alphanumeric c = (ascii_digit c
     \<or> (65 \<le> (of_char c :: nat) \<and> of_char c \<le> (90 :: nat))
     \<or> (97 \<le> (of_char c :: nat) \<and> of_char c \<le> (122 :: nat)))"

definition ascii_hexdigit :: "char \<Rightarrow> bool" where
  "ascii_hexdigit c = (ascii_digit c
     \<or> (65 \<le> (of_char c :: nat) \<and> of_char c \<le> (70 :: nat))
     \<or> (97 \<le> (of_char c :: nat) \<and> of_char c \<le> (102 :: nat)))"

text \<open>\<open>Display\<close> and \<open>from_str\<close> of \<open>u64\<close>: an optional plus sign, then at least one digit, every
  partial value within 64 bits.\<close>

definition digit_char :: "nat \<Rightarrow> char" where
  "digit_char d = char_of (48 + d)"

fun u64_to_string :: "nat \<Rightarrow> string" where
  "u64_to_string n = (if n < 10 then [digit_char n]
     else u64_to_string (n div 10) @ [digit_char (n mod 10)])"

declare u64_to_string.simps [simp del]

fun parse_digits :: "nat \<Rightarrow> string \<Rightarrow> nat option" where
  "parse_digits acc [] = Some acc"
| "parse_digits acc (c # s) = (if ascii_digit c \<and> acc * 10 + (of_char c - 48) \<le> u64_max
     then parse_digits (acc * 10 + (of_char c - 48)) s else None)"

definition parse_u64 :: "string \<Rightarrow> nat option" where
  "parse_u64 s = (case s of [] \<Rightarrow> None
     | c # r \<Rightarrow> if c = CHR ''+'' then (if r = [] then None else parse_digits 0 r) else parse_digits 0 s)"

text \<open>Well-formed UTF-8: no overlong form, no surrogate, nothing above U+10FFFF.\<close>

definition continuation :: "byte \<Rightarrow> bool" where
  "continuation b = (0x80 \<le> b \<and> b \<le> 0xBF)"

fun valid_utf8 :: "bytes \<Rightarrow> bool" where
  "valid_utf8 [] = True"
| "valid_utf8 (b # bs) =
    (if b < 0x80 then valid_utf8 bs
     else if 0xC2 \<le> b \<and> b \<le> 0xDF then
       (case bs of c # cs \<Rightarrow> continuation c \<and> valid_utf8 cs | _ \<Rightarrow> False)
     else if 0xE0 \<le> b \<and> b \<le> 0xEF then
       (case bs of c # d # cs \<Rightarrow> continuation c \<and> (b = 0xE0 \<longrightarrow> 0xA0 \<le> c) \<and> (b = 0xED \<longrightarrow> c \<le> 0x9F)
          \<and> continuation d \<and> valid_utf8 cs | _ \<Rightarrow> False)
     else if 0xF0 \<le> b \<and> b \<le> 0xF4 then
       (case bs of c # d # e # cs \<Rightarrow> continuation c \<and> (b = 0xF0 \<longrightarrow> 0x90 \<le> c) \<and> (b = 0xF4 \<longrightarrow> c \<le> 0x8F)
          \<and> continuation d \<and> continuation e \<and> valid_utf8 cs | _ \<Rightarrow> False)
     else False)"

definition str_of :: "bytes \<Rightarrow> string" where
  "str_of bs = map (\<lambda>b. char_of (unat b)) bs"

definition from_utf8 :: "bytes \<Rightarrow> string option" where
  "from_utf8 bs = (if valid_utf8 bs then Some (str_of bs) else None)"

text \<open>\<open>Vec::dedup_by\<close>: of neighbouring elements with the same key the first is kept.\<close>

fun dedup_key :: "('a \<Rightarrow> 'b) \<Rightarrow> 'a list \<Rightarrow> 'a list" where
  "dedup_key f [] = []"
| "dedup_key f [x] = [x]"
| "dedup_key f (x # y # xs) = (if f x = f y then dedup_key f (x # xs) else x # dedup_key f (y # xs))"

definition sort_dedup :: "('a \<Rightarrow> 'b::linorder) \<Rightarrow> 'a list \<Rightarrow> 'a list" where
  "sort_dedup f xs = dedup_key f (sort_key f xs)"

text \<open>\<open>map_err\<close> on a \<open>Result\<close>.\<close>

definition map_err :: "('e \<Rightarrow> 'f) \<Rightarrow> 'e + 'a \<Rightarrow> 'f + 'a" where
  "map_err f r = (case r of Inl e \<Rightarrow> Err (f e) | Inr x \<Rightarrow> Ok x)"

lemma map_err_Inr_iff [run_simps]: "map_err f r = Inr x \<longleftrightarrow> r = Inr x"
  by (auto simp: map_err_def split: sum.splits)

lemma map_err_simps [simp]:
  "map_err f (Inr x) = Inr x"
  "map_err f (Inl e) = Inl (f e)"
  by (simp_all add: map_err_def)

subsection \<open>Lemmas: stripping, splitting and joining\<close>

lemma strip_prefix_Some [run_simps]: "strip_prefix p s = Some r \<longleftrightarrow> s = p @ r"
  by (induction p s rule: strip_prefix.induct) auto

lemma strip_prefix_append [simp]: "strip_prefix p (p @ r) = Some r"
  by (simp add: strip_prefix_Some)

lemma strip_suffix_Some [run_simps]: "strip_suffix p s = Some r \<longleftrightarrow> s = r @ p"
proof -
  have "strip_suffix p s = Some r \<longleftrightarrow> (\<exists>q. rev s = rev p @ q \<and> rev q = r)"
    by (auto simp: strip_suffix_def strip_prefix_Some)
  also have "\<dots> \<longleftrightarrow> s = r @ p"
    by (metis rev_append rev_rev_ident)
  finally show ?thesis .
qed

lemma strip_suffix_append [simp]: "strip_suffix p (r @ p) = Some r"
  by (simp add: strip_suffix_Some)

lemma ends_with_iff: "ends_with p s \<longleftrightarrow> (\<exists>r. s = r @ p)"
  by (simp add: ends_with_def run_simps)

lemma starts_with_iff: "starts_with p s \<longleftrightarrow> (\<exists>r. s = p @ r)"
  by (simp add: starts_with_def run_simps)

lemma split_once_Some [run_simps]:
  "split_once c s = Some (a, b) \<longleftrightarrow> s = a @ c # b \<and> c \<notin> set a"
proof (induction s arbitrary: a)
  case Nil
  then show ?case by simp
next
  case (Cons x s)
  show ?case
  proof (cases a)
    case Nil
    then show ?thesis by (auto split: option.splits)
  next
    case a: (Cons y a')
    have "split_once c (x # s) = Some (a, b) \<longleftrightarrow> x \<noteq> c \<and> y = x \<and> split_once c s = Some (a', b)"
      using a by (auto split: option.splits)
    then show ?thesis unfolding Cons.IH using a by auto
  qed
qed

lemma split_once_str_first:
  assumes "c \<notin> set a"
  shows "split_once_str (c # p) (a @ (c # p) @ b) = Some (a, b)"
  using assms
proof (induction a)
  case Nil
  have "strip_prefix (c # p) ((c # p) @ b) = Some b" by (rule strip_prefix_append)
  then show ?case by simp
next
  case (Cons x a)
  then have "strip_prefix (c # p) (x # a @ (c # p) @ b) = None" by simp
  with Cons show ?case by simp
qed

lemma split_once_str_Some: "split_once_str p s = Some (a, b) \<Longrightarrow> s = a @ p @ b"
  by (induction p s arbitrary: a rule: split_once_str.induct)
    (auto split: option.splits if_splits simp: strip_prefix_Some)

lemma str_split_nonempty [simp]: "str_split c s \<noteq> []"
  by (cases s) (auto split: list.splits)

lemma str_split_single: "c \<notin> set s \<Longrightarrow> str_split c s = [s]"
  by (induction s) auto

lemma str_split_append: "c \<notin> set a \<Longrightarrow> str_split c (a @ c # s) = a # str_split c s"
  by (induction a) auto

lemma str_split_pieces: "p \<in> set (str_split c s) \<Longrightarrow> c \<notin> set p \<and> set p \<subseteq> set s"
proof (induction s arbitrary: p)
  case Nil
  then show ?case by simp
next
  case (Cons x s)
  then show ?case by (cases "str_split c s") (fastforce split: if_splits)+
qed

lemma str_split_join:
  "xs \<noteq> [] \<Longrightarrow> (\<And>x. x \<in> set xs \<Longrightarrow> c \<notin> set x) \<Longrightarrow> str_split c (join [c] xs) = xs"
  by (induction "[c]" xs rule: join.induct) (auto simp: str_split_single str_split_append)

lemma join_str_split: "join [c] (str_split c s) = s"
proof (induction s)
  case Nil
  then show ?case by simp
next
  case (Cons x s)
  then show ?case by (cases "str_split c s"; cases "tl (str_split c s)") auto
qed

lemma set_join: "set (join sep xs) \<subseteq> set sep \<union> \<Union> (set ` set xs)"
  by (induction sep xs rule: join.induct) auto

lemma join_inj:
  assumes "join [c] xs = join [c] ys" and "xs \<noteq> []" "ys \<noteq> []"
    and "\<And>x. x \<in> set xs \<Longrightarrow> c \<notin> set x" and "\<And>y. y \<in> set ys \<Longrightarrow> c \<notin> set y"
  shows "xs = ys"
  using str_split_join [of xs c] str_split_join [of ys c] assms by metis

lemma append_sep_eq_iff:
  assumes "c \<notin> set a" "c \<notin> set b"
  shows "a @ c # s = b @ c # t \<longleftrightarrow> a = b \<and> s = t"
proof
  assume "a @ c # s = b @ c # t"
  then have "Some (a, s) = Some (b, t)"
    using assms split_once_Some [of c "a @ c # s" a s] split_once_Some [of c "b @ c # t" b t]
    by metis
  then show "a = b \<and> s = t" by simp
qed simp

subsection \<open>Lemmas: decimal numbers\<close>

lemma of_char_digit_char [simp]: "d < 10 \<Longrightarrow> (of_char (digit_char d) :: nat) = 48 + d"
  by (simp add: digit_char_def)

lemma ascii_digit_digit_char [simp]: "d < 10 \<Longrightarrow> ascii_digit (digit_char d)"
  by (simp add: ascii_digit_def)

lemma u64_to_string_nonempty [simp]: "u64_to_string n \<noteq> []"
  by (subst u64_to_string.simps) simp

lemma u64_to_string_digits: "c \<in> set (u64_to_string n) \<Longrightarrow> ascii_digit c"
proof (induction n rule: u64_to_string.induct)
  case (1 n)
  then show ?case
    by (subst (asm) (2) u64_to_string.simps) (auto split: if_splits)
qed

lemma parse_digits_append:
  "parse_digits acc (a @ b) = (case parse_digits acc a of None \<Rightarrow> None | Some v \<Rightarrow> parse_digits v b)"
  by (induction a arbitrary: acc) auto

lemma parse_digits_u64_to_string: "n \<le> u64_max \<Longrightarrow> parse_digits 0 (u64_to_string n) = Some n"
proof (induction n rule: u64_to_string.induct)
  case (1 n)
  have m: "n div 10 * 10 + (48 + n mod 10 - 48) = n" by simp
  show ?case
  proof (cases "n < 10")
    case True
    with 1(2) show ?thesis by (subst u64_to_string.simps) simp
  next
    case False
    with 1 have "parse_digits 0 (u64_to_string (n div 10)) = Some (n div 10)" by simp
    with False 1(2) m show ?thesis by (subst u64_to_string.simps) (simp add: parse_digits_append)
  qed
qed

lemma parse_u64_to_string [simp]: "n \<le> u64_max \<Longrightarrow> parse_u64 (u64_to_string n) = Some n"
proof -
  assume n: "n \<le> u64_max"
  obtain c r where cr: "u64_to_string n = c # r" by (meson list.exhaust u64_to_string_nonempty)
  with u64_to_string_digits [of c n] have "ascii_digit c" by simp
  then have "c \<noteq> CHR ''+''" by (auto simp: ascii_digit_def)
  with n cr show ?thesis using parse_digits_u64_to_string [OF n] by (simp add: parse_u64_def)
qed

lemma u64_to_string_inj:
  "m \<le> u64_max \<Longrightarrow> n \<le> u64_max \<Longrightarrow> u64_to_string m = u64_to_string n \<Longrightarrow> m = n"
  by (metis option.inject parse_u64_to_string)

lemma parse_digits_le: "parse_digits acc s = Some n \<Longrightarrow> acc \<le> u64_max \<Longrightarrow> n \<le> u64_max"
  by (induction s arbitrary: acc) (auto split: if_splits)

lemma parse_u64_le: "parse_u64 s = Some n \<Longrightarrow> n \<le> u64_max"
  by (auto simp: parse_u64_def intro: parse_digits_le split: list.splits if_splits)

subsection \<open>Lemmas: UTF-8 and bytes of strings\<close>

definition is_ascii :: "string \<Rightarrow> bool" where
  "is_ascii s = (\<forall>c \<in> set s. of_char c < (128 :: nat))"

lemma is_ascii_simps [simp]:
  "is_ascii []"
  "is_ascii (c # s) \<longleftrightarrow> of_char c < (128 :: nat) \<and> is_ascii s"
  "is_ascii (a @ b) \<longleftrightarrow> is_ascii a \<and> is_ascii b"
  by (auto simp: is_ascii_def)

lemma unat_of_char_byte [simp]: "unat (of_char c :: byte) = of_char c"
proof -
  have "(of_char c :: byte) = of_nat (of_char c)" by (simp only: of_nat_of_char)
  moreover have "(of_char c :: nat) < 256" by (cases c) (simp add: of_char_def)
  ultimately show ?thesis by (simp add: unat_of_nat)
qed

lemma str_of_ascii [simp]: "str_of (ascii s) = s"
  by (simp add: str_of_def ascii_def comp_def)

lemma ascii_str_of [simp]: "ascii (str_of bs) = bs"
proof -
  have "(of_char (char_of (unat b)) :: byte) = b" for b :: byte
  proof -
    have "unat b < 256" using unsigned_less [of b, where ?'a=nat] by simp
    then have "(of_char (char_of (unat b)) :: nat) = unat b" by simp
    then have "(of_nat (of_char (char_of (unat b))) :: byte) = of_nat (unat b)" by simp
    then show ?thesis by (simp only: of_nat_of_char) simp
  qed
  then show ?thesis by (simp add: str_of_def ascii_def comp_def)
qed

lemma length_str_of [simp]: "length (str_of bs) = length bs"
  by (simp add: str_of_def)

lemma valid_utf8_ascii: "is_ascii s \<Longrightarrow> valid_utf8 (ascii s)"
proof (induction s)
  case Nil
  then show ?case by simp
next
  case (Cons c s)
  then have "(of_char c :: byte) < 0x80" by (simp add: word_less_nat_alt)
  with Cons show ?case by (simp add: ascii_def)
qed

lemma valid_utf8_append: "valid_utf8 a \<Longrightarrow> valid_utf8 b \<Longrightarrow> valid_utf8 (a @ b)"
proof (induction a rule: valid_utf8.induct)
  case (2 x xs)
  show ?case
  proof (cases "x < 0x80")
    case True
    then show ?thesis using 2 by simp
  next
    case one: False
    show ?thesis
    proof (cases "0xC2 \<le> x \<and> x \<le> 0xDF")
      case True
      then obtain c cs where "xs = c # cs" "continuation c" "valid_utf8 cs"
        using 2(5) one by (simp split: list.split_asm)
      then show ?thesis using 2(2) [OF one True] 2(6) one True by simp
    next
      case two: False
      show ?thesis
      proof (cases "0xE0 \<le> x \<and> x \<le> 0xEF")
        case True
        have eq: "valid_utf8 (x # ys) = (case ys of c # d # cs \<Rightarrow> continuation c \<and> (x = 0xE0 \<longrightarrow> 0xA0 \<le> c) \<and> (x = 0xED \<longrightarrow> c \<le> 0x9F)
          \<and> continuation d \<and> valid_utf8 cs | _ \<Rightarrow> False)" for ys
          using one two True by (simp only: valid_utf8.simps if_False if_True simp_thms)
        obtain c d cs where xs: "xs = c # d # cs"
          using 2(5) unfolding eq by (cases xs; cases "tl xs") simp_all
        show ?thesis using 2(5,6) 2(3) [OF one two True xs refl] unfolding append_Cons eq xs list.case by blast
      next
        case three: False
        have four: "0xF0 \<le> x \<and> x \<le> 0xF4"
          using 2(5) one two three by (simp only: valid_utf8.simps if_False simp_thms split: if_split_asm)
        have eq: "valid_utf8 (x # ys) = (case ys of c # d # e # cs \<Rightarrow> continuation c \<and> (x = 0xF0 \<longrightarrow> 0x90 \<le> c) \<and> (x = 0xF4 \<longrightarrow> c \<le> 0x8F)
          \<and> continuation d \<and> continuation e \<and> valid_utf8 cs | _ \<Rightarrow> False)" for ys
          using one two three four by (simp only: valid_utf8.simps if_False if_True simp_thms)
        obtain c d e cs where xs: "xs = c # d # e # cs"
          using 2(5) unfolding eq by (cases xs; cases "tl xs"; cases "tl (tl xs)") simp_all
        show ?thesis using 2(5,6) 2(4) [OF one two three four xs refl refl] unfolding append_Cons eq xs list.case by blast
      qed
    qed
  qed
qed simp

lemma from_utf8_ascii: "is_ascii s \<Longrightarrow> from_utf8 (ascii s) = Some s"
  by (simp add: from_utf8_def valid_utf8_ascii)

lemma from_utf8_Some: "from_utf8 bs = Some s \<Longrightarrow> ascii s = bs"
  by (auto simp: from_utf8_def split: if_splits)

subsection \<open>Lemmas: sort and dedup\<close>

lemma dedup_key_set: "f ` set (dedup_key f xs) = f ` set xs"
  by (induction f xs rule: dedup_key.induct) auto

lemma dedup_key_subset: "set (dedup_key f xs) \<subseteq> set xs"
  by (induction f xs rule: dedup_key.induct) auto

lemma dedup_key_sorted:
  fixes f :: "'a \<Rightarrow> 'b::linorder"
  shows "sorted (map f xs) \<Longrightarrow> sorted_wrt (<) (map f (dedup_key f xs))"
proof (induction f xs rule: dedup_key.induct)
  case (3 f x y xs)
  show ?case
  proof (cases "f x = f y")
    case True
    with 3(3) have "sorted (map f (x # xs))" by simp
    from 3(1) [OF True this] True show ?thesis by simp
  next
    case False
    with 3(3) have "f x < f y" "\<forall>z \<in> set xs. f y \<le> f z" by (simp_all add: order.not_eq_order_implies_strict)
    then have "\<forall>z \<in> set (y # xs). f x < f z" using order.strict_trans2 by auto
    then have "\<forall>z \<in> f ` set (dedup_key f (y # xs)). f x < z"
      unfolding dedup_key_set by blast
    moreover from 3(3) have "sorted (map f (y # xs))" by simp
    ultimately show ?thesis using False 3(2) [OF False] by simp
  qed
qed simp_all

lemma sort_dedup_sorted: "sorted_wrt (<) (map f (sort_dedup f xs))"
  unfolding sort_dedup_def by (rule dedup_key_sorted) simp

lemma sort_dedup_set: "f ` set (sort_dedup f xs) = f ` set xs"
  unfolding sort_dedup_def by (simp add: dedup_key_set)

lemma sort_dedup_subset: "set (sort_dedup f xs) \<subseteq> set xs"
  unfolding sort_dedup_def using dedup_key_subset [of f "sort_key f xs"] by simp

lemma dedup_key_distinct: "sorted_wrt (<) (map f xs) \<Longrightarrow> dedup_key f xs = xs"
  for f :: "'a \<Rightarrow> 'b::linorder"
  by (induction f xs rule: dedup_key.induct) auto

lemma sort_dedup_id: "sorted_wrt (<) (map f xs) \<Longrightarrow> sort_dedup f xs = xs"
  for f :: "'a \<Rightarrow> 'b::linorder"
  unfolding sort_dedup_def
  using strict_sorted_imp_sorted [of "map f xs"] by (simp add: sorted_sort_id sort_key_id_if_sorted dedup_key_distinct)

subsection \<open>Words of a text\<close>

lemma whitespace_pieces_word:
  "list_all (\<lambda>c. \<not> ascii_whitespace c) w \<Longrightarrow> whitespace_pieces w = [w]"
  by (induction w) auto

lemma whitespace_pieces_append:
  "list_all (\<lambda>c. \<not> ascii_whitespace c) w \<Longrightarrow> whitespace_pieces (w @ CHR '' '' # s) = w # whitespace_pieces s"
  by (induction w) (auto simp: ascii_whitespace_def)

lemma split_whitespace_join:
  "(\<And>w. w \<in> set ws \<Longrightarrow> w \<noteq> [] \<and> list_all (\<lambda>c. \<not> ascii_whitespace c) w) \<Longrightarrow>
    split_ascii_whitespace (join '' '' ws) = ws"
proof (induction "'' ''" ws rule: join.induct)
  case (2 x)
  then show ?case by (simp add: split_ascii_whitespace_def whitespace_pieces_word)
next
  case (3 x y xs)
  then show ?case
    using whitespace_pieces_append [of x "join '' '' (y # xs)"] by (simp add: split_ascii_whitespace_def)
qed (simp add: split_ascii_whitespace_def)

subsection \<open>Lines and letter case\<close>

text \<open>\<open>str::lines\<close>: a line ends with a line feed, and a carriage return before it is dropped; an unterminated last line is kept
  as it is.\<close>

definition strip_cr :: "string \<Rightarrow> string" where
  "strip_cr l = (case strip_suffix [CHR 0x0D] l of Some r \<Rightarrow> r | None \<Rightarrow> l)"

definition str_lines :: "string \<Rightarrow> string list" where
  "str_lines s = (let ps = str_split (CHR 0x0A) s in
     map strip_cr (butlast ps) @ (if last ps = [] then [] else [last ps]))"

definition unlines :: "string list \<Rightarrow> string" where
  "unlines ls = concat (map (\<lambda>l. l @ [CHR 0x0A]) ls)"

lemma strip_cr_id: "CHR 0x0D \<notin> set l \<Longrightarrow> strip_cr l = l"
  by (auto simp: strip_cr_def strip_suffix_Some split: option.split)

lemma str_split_unlines: "(\<And>l. l \<in> set ls \<Longrightarrow> CHR 0x0A \<notin> set l) \<Longrightarrow> str_split (CHR 0x0A) (unlines ls) = ls @ [[]]"
  by (induction ls) (simp_all add: unlines_def str_split_append)

lemma str_lines_unlines:
  assumes "\<And>l. l \<in> set ls \<Longrightarrow> CHR 0x0A \<notin> set l \<and> CHR 0x0D \<notin> set l"
  shows "str_lines (unlines ls) = ls"
proof -
  have "map strip_cr ls = ls" using assms by (intro map_idI strip_cr_id) simp
  then show ?thesis using assms by (simp add: str_lines_def str_split_unlines)
qed

definition ascii_lower :: "char \<Rightarrow> char" where
  "ascii_lower c = (if CHR ''A'' \<le> c \<and> c \<le> CHR ''Z'' then char_of (of_char c + 32 :: nat) else c)"

definition eq_ignore_ascii_case :: "string \<Rightarrow> string \<Rightarrow> bool" where
  "eq_ignore_ascii_case a b = (map ascii_lower a = map ascii_lower b)"

text \<open>\<open>str::trim\<close>: the characters of the Unicode property \<open>White_Space\<close>, by their UTF-8 encodings.\<close>

definition WHITE_SPACE :: "string list" where
  "WHITE_SPACE = map (\<lambda>n. [char_of (n :: nat)]) [9, 10, 11, 12, 13, 32]
    @ map (\<lambda>n. [char_of (0xC2 :: nat), char_of (n :: nat)]) [0x85, 0xA0]
    @ [[char_of (0xE1 :: nat), char_of (0x9A :: nat), char_of (0x80 :: nat)]]
    @ map (\<lambda>n. [char_of (0xE2 :: nat), char_of (0x80 :: nat), char_of (n :: nat)])
        [0x80, 0x81, 0x82, 0x83, 0x84, 0x85, 0x86, 0x87, 0x88, 0x89, 0x8A, 0xA8, 0xA9, 0xAF]
    @ [[char_of (0xE2 :: nat), char_of (0x81 :: nat), char_of (0x9F :: nat)],
       [char_of (0xE3 :: nat), char_of (0x80 :: nat), char_of (0x80 :: nat)]]"

fun first_prefix :: "string list \<Rightarrow> string \<Rightarrow> string option" where
  "first_prefix [] s = None"
| "first_prefix (w # ws) s = (case strip_prefix w s of Some r \<Rightarrow> if w = [] then first_prefix ws s else Some r
     | None \<Rightarrow> first_prefix ws s)"

lemma first_prefix_shorter: "first_prefix ws s = Some r \<Longrightarrow> length r < length s"
  by (induction ws) (auto simp: strip_prefix_Some split: option.splits if_splits)

function trim_start :: "string \<Rightarrow> string" where
  "trim_start s = (case first_prefix WHITE_SPACE s of Some r \<Rightarrow> trim_start r | None \<Rightarrow> s)"
  by auto

termination
  by (relation "measure length") (auto dest: first_prefix_shorter)

declare trim_start.simps [simp del]

text \<open>No white space encoding is a proper part of another character's encoding, so trailing white space is found by reading
  backwards.\<close>

function trim_end_rev :: "string \<Rightarrow> string" where
  "trim_end_rev s = (case first_prefix (map rev WHITE_SPACE) s of Some r \<Rightarrow> trim_end_rev r | None \<Rightarrow> s)"
  by auto

termination
  by (relation "measure length") (auto dest: first_prefix_shorter)

declare trim_end_rev.simps [simp del]

definition str_trim :: "string \<Rightarrow> string" where
  "str_trim s = rev (trim_end_rev (rev (trim_start s)))"

end
