(* ===== verification/Base_Codecs.thy ===== *)
theory Base_Codecs
  imports Rust_Str
begin

section \<open>The text encodings of the \<open>data_encoding\<close> package\<close>

text \<open>
  The program encodes digests in Nix base-32 (\<open>nix32_encoding()\<close> of \<open>src/object.rs\<close> builds that
  encoding from its symbols and its bit order) and keys and signatures in standard base-64
  (\<open>BASE64\<close>).  Both codecs come from the \<open>data_encoding\<close> package and are parameters of the model: a
  record of the four functions the program calls.  The locales \<open>nix32_codec\<close> and \<open>base64_codec\<close>
  state what that package documents: the length of an encoding, its alphabet, that decoding
  inverts encoding, and that only canonical text decodes (trailing bits and padding are checked).
  Two concrete codecs, written with positional digits, show that the laws can hold together; the
  interpretations \<open>lsb32\<close> and \<open>msb64\<close> discharge them.
\<close>

subsection \<open>The interface\<close>

record encodings =
  nix32_encode :: "bytes \<Rightarrow> bytes"
  nix32_decode :: "bytes \<Rightarrow> bytes option"
  base64_encode :: "bytes \<Rightarrow> bytes"
  base64_decode :: "bytes \<Rightarrow> bytes option"

definition NIX32 :: string where
  "NIX32 = ''0123456789abcdfghijklmnpqrsvwxyz''"

definition BASE64_SYMBOLS :: string where
  "BASE64_SYMBOLS = ''ABCDEFGHIJKLMNOPQRSTUVWXYZabcdefghijklmnopqrstuvwxyz0123456789+/''"

locale nix32_codec =
  fixes enc :: "bytes \<Rightarrow> bytes" and dec :: "bytes \<Rightarrow> bytes option"
  assumes encode_length: "length d = 32 \<Longrightarrow> length (enc d) = 52"
    and decode_length: "length s = 52 \<Longrightarrow> dec s = Some d \<Longrightarrow> length d = 32"
    and encode_symbols: "set (enc d) \<subseteq> set (ascii NIX32)"
    and decode_encode: "dec (enc d) = Some d"
    and encode_decode: "dec s = Some d \<Longrightarrow> enc d = s"

locale base64_codec =
  fixes enc :: "bytes \<Rightarrow> bytes" and dec :: "bytes \<Rightarrow> bytes option"
  assumes encode64_symbols: "set (enc d) \<subseteq> set (ascii (BASE64_SYMBOLS @ ''=''))"
    and encode64_nonempty: "d \<noteq> [] \<Longrightarrow> enc d \<noteq> []"
    and decode64_encode: "dec (enc d) = Some d"
    and encode64_decode: "dec s = Some d \<Longrightarrow> enc d = s"

subsection \<open>Positional digits\<close>

fun digits :: "nat \<Rightarrow> nat \<Rightarrow> nat \<Rightarrow> nat list" where
  "digits b 0 v = []"
| "digits b (Suc k) v = v mod b # digits b k (v div b)"

fun digits_value :: "nat \<Rightarrow> nat list \<Rightarrow> nat" where
  "digits_value b [] = 0"
| "digits_value b (d # ds) = d + b * digits_value b ds"

lemma length_digits [simp]: "length (digits b k v) = k"
  by (induction k arbitrary: v) auto

lemma digits_less: "0 < b \<Longrightarrow> d \<in> set (digits b k v) \<Longrightarrow> d < b"
  by (induction k arbitrary: v) auto

lemma digits_value_digits: "digits_value b (digits b k v) = v mod b ^ k"
proof (induction k arbitrary: v)
  case 0
  then show ?case by simp
next
  case (Suc k)
  then show ?case by (simp add: mod_mult2_eq)
qed

lemma digits_digits_value:
  "(\<And>d. d \<in> set ds \<Longrightarrow> d < b) \<Longrightarrow> digits b (length ds) (digits_value b ds) = ds"
proof (induction ds)
  case Nil
  then show ?case by simp
next
  case (Cons d ds)
  from Cons.prems have "d < b" by simp
  then have "(d + b * digits_value b ds) div b = digits_value b ds" by simp
  with Cons \<open>d < b\<close> show ?case by simp
qed

subsection \<open>Symbols of an alphabet\<close>

fun symbol_index :: "string \<Rightarrow> byte \<Rightarrow> nat option" where
  "symbol_index [] b = None"
| "symbol_index (c # cs) b = (if of_char c = b then Some 0 else map_option Suc (symbol_index cs b))"

definition symbol_at :: "string \<Rightarrow> nat \<Rightarrow> byte" where
  "symbol_at alphabet i = of_char (alphabet ! i)"

definition indices :: "string \<Rightarrow> bytes \<Rightarrow> nat list option" where
  "indices alphabet s = those (map (symbol_index alphabet) s)"

lemma symbol_index_Some:
  "symbol_index cs b = Some i \<Longrightarrow> i < length cs \<and> symbol_at cs i = b"
  by (induction cs arbitrary: i) (auto simp: symbol_at_def split: if_splits)

lemma symbol_index_at:
  "distinct cs \<Longrightarrow> i < length cs \<Longrightarrow> symbol_index cs (symbol_at cs i) = Some i"
proof (induction cs arbitrary: i)
  case Nil
  then show ?case by simp
next
  case (Cons c cs)
  show ?case
  proof (cases i)
    case 0
    then show ?thesis by (simp add: symbol_at_def)
  next
    case (Suc j)
    with Cons.prems have "(of_char c :: byte) \<noteq> of_char (cs ! j)"
      by (auto simp: inj_eq [OF inj_of_char_byte])
    moreover have "symbol_index cs (symbol_at cs j) = Some j"
      using Cons Suc by simp
    ultimately show ?thesis using Suc by (simp add: symbol_at_def)
  qed
qed

lemma symbol_at_in: "i < length cs \<Longrightarrow> symbol_at cs i \<in> set (ascii cs)"
  by (simp add: symbol_at_def ascii_def)

lemma indices_Nil [simp]: "indices cs [] = Some []"
  by (simp add: indices_def)

lemma indices_Cons:
  "indices cs (b # s) = (case symbol_index cs b of None \<Rightarrow> None
     | Some i \<Rightarrow> map_option (Cons i) (indices cs s))"
  by (simp add: indices_def split: option.splits)

lemma indices_symbols:
  "distinct cs \<Longrightarrow> (\<And>i. i \<in> set is \<Longrightarrow> i < length cs)
    \<Longrightarrow> indices cs (map (symbol_at cs) is) = Some is"
  by (induction "is") (auto simp: indices_Cons symbol_index_at)

lemma indices_Some:
  "indices cs s = Some is \<Longrightarrow>
    map (symbol_at cs) is = s \<and> length is = length s \<and> (\<forall>i \<in> set is. i < length cs)"
proof (induction s arbitrary: "is")
  case Nil
  then show ?case by simp
next
  case (Cons b s)
  then obtain i is' where i: "symbol_index cs b = Some i" and r: "indices cs s = Some is'"
      and eq: "is = i # is'"
    by (auto simp: indices_Cons split: option.splits)
  from Cons.IH [OF r] symbol_index_Some [OF i] eq show ?case by simp
qed

subsection \<open>Base 32, least significant bit first\<close>

definition lsb32_encode :: "bytes \<Rightarrow> bytes" where
  "lsb32_encode d = map (symbol_at NIX32) (digits 32 ((8 * length d + 4) div 5) (le_value d))"

definition lsb32_decode :: "bytes \<Rightarrow> bytes option" where
  "lsb32_decode s = (case indices NIX32 s of None \<Rightarrow> None
     | Some is \<Rightarrow> (let n = length s * 5 div 8; v = digits_value 32 is in
         if length s = (8 * n + 4) div 5 \<and> v < 256 ^ n then Some (le_bytes n v) else None))"

lemma NIX32_alphabet [simp]: "distinct NIX32" "length NIX32 = 32"
  by (simp_all add: NIX32_def)

lemma length_lsb32_encode [simp]: "length (lsb32_encode d) = (8 * length d + 4) div 5"
  by (simp add: lsb32_encode_def)

lemma enough_digits32: "(256 :: nat) ^ n \<le> 32 ^ ((8 * n + 4) div 5)"
proof -
  have "(256 :: nat) ^ n = 2 ^ (8 * n)" by (simp add: power_mult)
  also have "\<dots> \<le> 2 ^ (5 * ((8 * n + 4) div 5))" by (rule power_increasing) simp_all
  also have "\<dots> = 32 ^ ((8 * n + 4) div 5)" by (simp add: power_mult)
  finally show ?thesis .
qed

lemma lsb32_decode_encode: "lsb32_decode (lsb32_encode d) = Some d"
proof -
  let ?k = "(8 * length d + 4) div 5"
  let ?is = "digits 32 ?k (le_value d)"
  have "indices NIX32 (lsb32_encode d) = Some ?is"
    unfolding lsb32_encode_def by (rule indices_symbols) (simp_all add: digits_less)
  moreover have "?k * 5 div 8 = length d" by arith
  moreover have "digits_value 32 ?is = le_value d"
    using le_value_bound [of d] enough_digits32 [of "length d"] by (simp add: digits_value_digits)
  ultimately show ?thesis
    using le_value_bound [of d] by (simp add: lsb32_decode_def le_bytes_le_value)
qed

lemma lsb32_encode_decode: "lsb32_decode s = Some d \<Longrightarrow> lsb32_encode d = s"
proof -
  assume s: "lsb32_decode s = Some d"
  then obtain "is" where i: "indices NIX32 s = Some is"
    by (auto simp: lsb32_decode_def split: option.splits)
  let ?n = "length s * 5 div 8" and ?v = "digits_value 32 is"
  from s i have n: "length s = (8 * ?n + 4) div 5" and v: "?v < 256 ^ ?n" and d: "d = le_bytes ?n ?v"
    by (auto simp: lsb32_decode_def Let_def split: if_splits)
  from indices_Some [OF i] have "digits 32 (length s) ?v = is"
    using digits_digits_value [of "is" 32] by simp
  moreover have "le_value d = ?v" "length d = ?n" using d v by (simp_all add: le_value_le_bytes)
  ultimately show ?thesis using indices_Some [OF i] n by (simp add: lsb32_encode_def)
qed

interpretation lsb32: nix32_codec lsb32_encode lsb32_decode
proof
  show "length d = 32 \<Longrightarrow> length (lsb32_encode d) = 52" for d by simp
  show "length s = 52 \<Longrightarrow> lsb32_decode s = Some d \<Longrightarrow> length d = 32" for s d
    by (auto simp: lsb32_decode_def Let_def split: option.splits if_splits)
  show "set (lsb32_encode d) \<subseteq> set (ascii NIX32)" for d
    using digits_less [of 32] symbol_at_in [of _ NIX32] by (auto simp: lsb32_encode_def)
qed (rule lsb32_decode_encode, rule lsb32_encode_decode)

subsection \<open>Base 64 with padding\<close>

abbreviation sym64 :: "nat \<Rightarrow> byte" where
  "sym64 i \<equiv> symbol_at BASE64_SYMBOLS i"

abbreviation pad64 :: byte where
  "pad64 \<equiv> of_char (CHR ''='')"

text \<open>One quantum: one to three bytes as two to four symbols, padded to four.\<close>

definition quad_encode :: "bytes \<Rightarrow> bytes" where
  "quad_encode d = rev (map (symbol_at BASE64_SYMBOLS) (digits 64 (Suc (length d)) (le_value (rev d) * 4 ^ (3 - length d))))
     @ replicate (3 - length d) pad64"

definition quad_decode :: "bytes \<Rightarrow> bytes option" where
  "quad_decode q = (let s = takeWhile (\<lambda>b. b \<noteq> pad64) q; p = 4 - length s in
     case indices BASE64_SYMBOLS s of None \<Rightarrow> None
     | Some is \<Rightarrow> (let v = digits_value 64 (rev is) in
         if length q = 4 \<and> p \<le> 2 \<and> q = s @ replicate p pad64 \<and> v mod 4 ^ p = 0
         then Some (rev (le_bytes (3 - p) (v div 4 ^ p))) else None))"

fun msb64_encode :: "bytes \<Rightarrow> bytes" where
  "msb64_encode [] = []"
| "msb64_encode [a] = quad_encode [a]"
| "msb64_encode [a, b] = quad_encode [a, b]"
| "msb64_encode (a # b # c # r) = quad_encode [a, b, c] @ msb64_encode r"

fun msb64_decode :: "bytes \<Rightarrow> bytes option" where
  "msb64_decode [] = Some []"
| "msb64_decode (w # x # y # z # r) = (case quad_decode [w, x, y, z] of None \<Rightarrow> None
     | Some d \<Rightarrow> if r \<noteq> [] \<and> length d < 3 then None else map_option (append d) (msb64_decode r))"
| "msb64_decode _ = None"

lemma BASE64_alphabet [simp]: "distinct BASE64_SYMBOLS" "length BASE64_SYMBOLS = 64"
  by (simp_all add: BASE64_SYMBOLS_def)

lemma sym64_not_pad: "i < 64 \<Longrightarrow> sym64 i \<noteq> pad64"
proof -
  assume i: "i < 64"
  have "CHR ''='' \<notin> set BASE64_SYMBOLS" by (simp add: BASE64_SYMBOLS_def)
  with i have "BASE64_SYMBOLS ! i \<noteq> CHR ''=''" by (metis BASE64_alphabet(2) nth_mem)
  then show ?thesis unfolding symbol_at_def by (simp only: inj_eq [OF inj_of_char_byte]) simp
qed

lemma length_quad_encode: "length d \<le> 3 \<Longrightarrow> length (quad_encode d) = 4"
  by (simp add: quad_encode_def)

lemma quad_value: "length d \<le> 3 \<Longrightarrow> le_value (rev d) * 4 ^ (3 - length d) < 64 ^ Suc (length d)"
proof -
  assume d: "length d \<le> 3"
  have "le_value (rev d) * 4 ^ (3 - length d) < 256 ^ length d * 4 ^ (3 - length d)"
    using le_value_bound [of "rev d"] by simp
  also have "(256 :: nat) ^ length d * 4 ^ (3 - length d) = 4 ^ (4 * length d + (3 - length d))"
    by (simp add: power_add power_mult)
  also have "4 * length d + (3 - length d) = 3 * Suc (length d)" using d by simp
  also have "(4 :: nat) ^ (3 * Suc (length d)) = 64 ^ Suc (length d)" by (simp only: power_mult) simp
  finally show ?thesis .
qed

lemma quad_pad:
  assumes "\<And>i. i \<in> set is \<Longrightarrow> i < 64"
  shows "takeWhile (\<lambda>b. b \<noteq> pad64) (map (symbol_at BASE64_SYMBOLS) is @ replicate p pad64) = map (symbol_at BASE64_SYMBOLS) is"
  using assms sym64_not_pad
  by (subst takeWhile_append2) (auto simp: takeWhile_eq_Nil_iff hd_replicate)

lemma quad_decode_symbols:
  assumes "\<And>i. i \<in> set is \<Longrightarrow> i < 64" and "length is + p = 4" and "p \<le> 2"
    and "digits_value 64 (rev is) = v * 4 ^ p"
  shows "quad_decode (map (symbol_at BASE64_SYMBOLS) is @ replicate p pad64) = Some (rev (le_bytes (3 - p) v))"
proof -
  have tw: "takeWhile (\<lambda>b. b \<noteq> pad64) (map (symbol_at BASE64_SYMBOLS) is @ replicate p pad64)
      = map (symbol_at BASE64_SYMBOLS) is"
    by (rule quad_pad) (rule assms(1))
  have "4 - length is = p" using assms(2) by simp
  moreover have "indices BASE64_SYMBOLS (map (symbol_at BASE64_SYMBOLS) is) = Some is"
    by (rule indices_symbols) (simp_all add: assms(1))
  ultimately show ?thesis
    unfolding quad_decode_def Let_def tw
    using assms(2-4) by (simp del: le_bytes.simps)
qed

lemma quad_decode_encode:
  assumes d: "d \<noteq> []" "length d \<le> 3"
  shows "quad_decode (quad_encode d) = Some d"
proof -
  define ds where "ds = digits 64 (Suc (length d)) (le_value (rev d) * 4 ^ (3 - length d))"
  have less: "\<And>i. i \<in> set (rev ds) \<Longrightarrow> i < 64" unfolding ds_def set_rev by (erule digits_less [rotated]) simp
  have l: "length (rev ds) + (3 - length d) = 4" "3 - length d \<le> 2" using d by (cases d; simp add: ds_def)+
  have v: "digits_value 64 (rev (rev ds)) = le_value (rev d) * 4 ^ (3 - length d)"
    using quad_value [OF d(2)] by (simp add: ds_def digits_value_digits del: digits.simps)
  have "quad_decode (quad_encode d) = Some (rev (le_bytes (3 - (3 - length d)) (le_value (rev d))))"
    unfolding quad_encode_def ds_def [symmetric] rev_map by (rule quad_decode_symbols [OF less l v])
  also have "\<dots> = Some d" using le_bytes_le_value [of "rev d"] d(2) by simp
  finally show ?thesis .
qed

lemma quad_encode_decode:
  assumes q: "quad_decode q = Some d"
  shows "quad_encode d = q \<and> d \<noteq> [] \<and> length d \<le> 3"
proof -
  let ?s = "takeWhile (\<lambda>b. b \<noteq> pad64) q"
  let ?p = "4 - length ?s"
  from q obtain "is" where i: "indices BASE64_SYMBOLS ?s = Some is"
    by (auto simp: quad_decode_def Let_def split: option.splits)
  let ?v = "digits_value 64 (rev is)"
  from q i have q': "length q = 4" "?p \<le> 2" "q = ?s @ replicate ?p pad64" "?v mod 4 ^ ?p = 0"
      "d = rev (le_bytes (3 - ?p) (?v div 4 ^ ?p))"
    by (auto simp: quad_decode_def Let_def simp del: digits.simps split: if_splits)
  have s4: "length ?s \<le> 4" using length_takeWhile_le [of _ q] q'(1) by simp
  then have k: "length ?s = 4 - ?p" "Suc (3 - ?p) = length ?s" using q'(2) by simp_all
  have idx: "digits 64 (length ?s) ?v = rev is"
    using digits_digits_value [of "rev is" 64] indices_Some [OF i] by simp
  have "?v < 64 ^ length ?s"
    using digits_value_digits [of 64 "length ?s" ?v] idx by (metis mod_less_divisor zero_less_numeral zero_less_power)
  also have "(64 :: nat) ^ length ?s = 4 ^ (4 * (3 - ?p) + ?p)"
    using q'(2) k power_mult [of "4 :: nat" 3 "length ?s"] by (simp add: algebra_simps)
  also have "\<dots> = 256 ^ (3 - ?p) * 4 ^ ?p" by (simp only: power_add power_mult) simp
  finally have "?v div 4 ^ ?p < 256 ^ (3 - ?p)" by (simp add: less_mult_imp_div_less)
  then have "le_value (rev d) = ?v div 4 ^ ?p" using q'(5) by (simp add: le_value_le_bytes)
  moreover have l: "length d = 3 - ?p" using q'(5) by simp
  moreover have p3: "3 - (3 - ?p) = ?p" using q'(2) by simp
  ultimately have "le_value (rev d) * 4 ^ (3 - length d) = ?v" using q'(4) by auto
  then have "quad_encode d = rev (map (symbol_at BASE64_SYMBOLS) (rev is)) @ replicate ?p pad64"
    unfolding quad_encode_def l p3 using idx k(2) by (simp only: l)
  also have "\<dots> = ?s @ replicate ?p pad64" using indices_Some [OF i] by (simp only: rev_map rev_rev_ident)
  also have "\<dots> = q" by (rule q'(3) [symmetric])
  finally have "quad_encode d = q" .
  moreover have "0 < length d \<and> length d \<le> 3" unfolding l using q'(2) by linarith
  ultimately show ?thesis by blast
qed

lemma msb64_encode_quad: "d \<noteq> [] \<Longrightarrow> msb64_encode d = quad_encode (take 3 d) @ msb64_encode (drop 3 d)"
  by (cases d rule: msb64_encode.cases) simp_all

lemma msb64_decode_quad:
  assumes "length q = 4"
  shows "msb64_decode (q @ r) = (case quad_decode q of None \<Rightarrow> None
     | Some d \<Rightarrow> if r \<noteq> [] \<and> length d < 3 then None else map_option (append d) (msb64_decode r))"
proof -
  from assms obtain w x y z where "q = [w, x, y, z]"
    by (auto simp: length_Suc_conv numeral_eq_Suc)
  then show ?thesis by simp
qed

lemma msb64_decode_encode: "msb64_decode (msb64_encode d) = Some d"
proof (induction d rule: msb64_encode.induct)
  case (4 a b c r)
  then show ?case by (simp add: msb64_decode_quad length_quad_encode quad_decode_encode)
qed (use msb64_decode_quad [of "quad_encode _" "[]"] in \<open>simp_all add: length_quad_encode quad_decode_encode\<close>)

lemma msb64_encode_decode: "msb64_decode s = Some d \<Longrightarrow> msb64_encode d = s"
proof (induction s arbitrary: d rule: msb64_decode.induct)
  case (2 w x y z r)
  then obtain q e where q: "quad_decode [w, x, y, z] = Some q" and e: "msb64_decode r = Some e"
      and d: "d = q @ e" and full: "r = [] \<or> 3 \<le> length q"
    by (auto split: option.splits if_splits)
  from quad_encode_decode [OF q] have q': "quad_encode q = [w, x, y, z]" "q \<noteq> []" "length q \<le> 3" by simp_all
  have r: "msb64_encode e = r" using 2 q e full by auto
  show ?case
  proof (cases "r = []")
    case True
    then have "e = []" using e by simp
    then show ?thesis using True d q' msb64_encode_quad [of q] by simp
  next
    case False
    then have "length q = 3" using full q'(3) by simp
    then show ?thesis using msb64_encode_quad [of d] d q' r by simp
  qed
qed simp_all

lemma msb64_encode_set:
  "(\<And>q. set (quad_encode q) \<subseteq> S) \<Longrightarrow> set (msb64_encode d) \<subseteq> S"
  by (induction d rule: msb64_encode.induct) simp_all

lemma msb64_symbols: "set (msb64_encode d) \<subseteq> set (ascii (BASE64_SYMBOLS @ ''=''))"
proof (rule msb64_encode_set)
  show "set (quad_encode q) \<subseteq> set (ascii (BASE64_SYMBOLS @ ''=''))" for q
  proof -
    have "i < 64 \<Longrightarrow> symbol_at BASE64_SYMBOLS i \<in> set (ascii BASE64_SYMBOLS)" for i
      by (rule symbol_at_in) simp
    then show ?thesis
      using digits_less [of 64] by (auto simp: quad_encode_def ascii_def simp del: digits.simps)
  qed
qed

interpretation msb64: base64_codec msb64_encode msb64_decode
proof
  show "d \<noteq> [] \<Longrightarrow> msb64_encode d \<noteq> []" for d
    using length_quad_encode [of "take 3 d"] by (auto simp: msb64_encode_quad)
qed (rule msb64_symbols, rule msb64_decode_encode, rule msb64_encode_decode)

definition standard_encodings :: encodings where
  "standard_encodings = \<lparr> nix32_encode = lsb32_encode, nix32_decode = lsb32_decode,
     base64_encode = msb64_encode, base64_decode = msb64_decode \<rparr>"

end
