(* ===== verification/Object.thy ===== *)
theory Object
  imports Base_Codecs
begin

section \<open>Typed identities of archives and payload files (\<open>src/object.rs\<close>)\<close>

text \<open>
  Digests and byte counts carry a phantom type that says whether they describe the decoded archive
  (\<open>LogicalNar\<close>) or an encoded payload file (\<open>EncodedFile\<close>), as in the source.  A digest is the
  byte array \<open>[u8; 32]\<close>; \<open>digest_wf\<close> is its length.  The lemmas show that the textual forms of digests and
  of payload file names are canonical: parsing and displaying are inverse to each other on exactly the
  well-formed values, and the three suffixes never compete.
\<close>

subsection \<open>Digests\<close>

datatype InvalidObjectId = InvalidObjectId

datatype LogicalNar = LogicalNar

datatype EncodedFile = EncodedFile

datatype 'p Sha256Digest = Sha256Digest (digest_bytes: bytes)

type_synonym NarHash = "LogicalNar Sha256Digest"

type_synonym FileHash = "EncodedFile Sha256Digest"

definition NIX32_SHA256_LEN :: nat where
  "NIX32_SHA256_LEN = 52"

definition decode_sha256 :: "encodings \<Rightarrow> string \<Rightarrow> InvalidObjectId + bytes" where
  "decode_sha256 E value =
    (if length value \<noteq> NIX32_SHA256_LEN then Err InvalidObjectId
     else let encoded = rev (ascii value) in
       bindR (ok_or InvalidObjectId (nix32_decode E encoded)) (\<lambda>digest.
         if length digest \<noteq> 32 then Err InvalidObjectId else Ok digest))"

definition encode_nix32 :: "encodings \<Rightarrow> bytes \<Rightarrow> bytes" where
  "encode_nix32 E digest = (let output = nix32_encode E digest in rev output)"

definition digest_parse :: "encodings \<Rightarrow> string \<Rightarrow> InvalidObjectId + 'p Sha256Digest" where
  "digest_parse E value = bindR (decode_sha256 E value) (\<lambda>digest. Ok (Sha256Digest digest))"

text \<open>\<open>Display\<close>; the source \<open>expect\<close>s the encoding to be UTF-8, see \<open>digest_display_utf8\<close>.\<close>

definition digest_display :: "encodings \<Rightarrow> 'p Sha256Digest \<Rightarrow> string" where
  "digest_display E digest = str_of (encode_nix32 E (digest_bytes digest))"

definition from_nar_hash :: "NarHash \<Rightarrow> FileHash" where
  "from_nar_hash hash = Sha256Digest (digest_bytes hash)"

definition as_nar_hash :: "FileHash \<Rightarrow> NarHash" where
  "as_nar_hash hash = Sha256Digest (digest_bytes hash)"

subsection \<open>Byte counts and identities\<close>

datatype 'p ByteCount = ByteCount (count_get: nat)

type_synonym NarSize = "LogicalNar ByteCount"

type_synonym EncodedSize = "EncodedFile ByteCount"

definition count_display :: "'p ByteCount \<Rightarrow> string" where
  "count_display n = u64_to_string (count_get n)"

record 'p ContentIdentity =
  content_hash :: "'p Sha256Digest"
  content_size :: "'p ByteCount"

type_synonym NarIdentity = "LogicalNar ContentIdentity"

definition content_identity :: "'p Sha256Digest \<Rightarrow> 'p ByteCount \<Rightarrow> 'p ContentIdentity" where
  "content_identity hash n = \<lparr> content_hash = hash, content_size = n \<rparr>"

datatype CompressionCodec = Zstd | Xz

datatype WireEncoding = WireRaw | WireCompressed CompressionCodec

datatype InvalidWireEncoding = InvalidWireEncoding

record EncodedIdentity =
  encoded_codec :: CompressionCodec
  encoded_content :: "EncodedFile ContentIdentity"

definition encoded_identity :: "CompressionCodec \<Rightarrow> FileHash \<Rightarrow> EncodedSize \<Rightarrow> EncodedIdentity" where
  "encoded_identity codec hash n =
    \<lparr> encoded_codec = codec, encoded_content = content_identity hash n \<rparr>"

record CompressedNarIdentity =
  compressed_encoded :: EncodedIdentity
  compressed_decoded :: NarIdentity

datatype NarRepresentation = ReprRaw NarIdentity | ReprCompressed CompressedNarIdentity

subsection \<open>Wire encodings and payload file names\<close>

definition codec_suffix :: "CompressionCodec \<Rightarrow> string" where
  "codec_suffix codec = (case codec of Zstd \<Rightarrow> ''.nar.zst'' | Xz \<Rightarrow> ''.nar.xz'')"

definition wire_from_str :: "string \<Rightarrow> InvalidWireEncoding + WireEncoding" where
  "wire_from_str value =
    (if value = ''none'' then Ok WireRaw
     else if value = ''zstd'' then Ok (WireCompressed Zstd)
     else if value = ''xz'' then Ok (WireCompressed Xz)
     else Err InvalidWireEncoding)"

definition compression :: "WireEncoding \<Rightarrow> string" where
  "compression encoding = (case encoding of WireRaw \<Rightarrow> ''none''
     | WireCompressed Zstd \<Rightarrow> ''zstd'' | WireCompressed Xz \<Rightarrow> ''xz'')"

definition wire_suffix :: "WireEncoding \<Rightarrow> string" where
  "wire_suffix encoding = (case encoding of WireRaw \<Rightarrow> ''.nar''
     | WireCompressed codec \<Rightarrow> codec_suffix codec)"

record NarFileName =
  file_name_hash :: FileHash
  file_name_encoding :: WireEncoding

fun find_map :: "('a \<Rightarrow> 'b option) \<Rightarrow> 'a list \<Rightarrow> 'b option" where
  "find_map f [] = None"
| "find_map f (x # xs) = (case f x of Some y \<Rightarrow> Some y | None \<Rightarrow> find_map f xs)"

definition file_name_parse :: "encodings \<Rightarrow> string \<Rightarrow> InvalidObjectId + NarFileName" where
  "file_name_parse E name =
    (case find_map (\<lambda>encoding.
        map_option (\<lambda>hash. bindR (digest_parse E hash) (\<lambda>file_hash.
            Ok \<lparr> file_name_hash = file_hash, file_name_encoding = encoding \<rparr>))
          (strip_suffix (wire_suffix encoding) name))
        [WireCompressed Zstd, WireCompressed Xz, WireRaw] of
      None \<Rightarrow> Err InvalidObjectId
    | Some parsed \<Rightarrow> parsed)"

definition file_name_display :: "encodings \<Rightarrow> NarFileName \<Rightarrow> string" where
  "file_name_display E name =
    digest_display E (file_name_hash name) @ wire_suffix (file_name_encoding name)"

definition file_name_raw :: "NarHash \<Rightarrow> NarFileName" where
  "file_name_raw hash = \<lparr> file_name_hash = from_nar_hash hash, file_name_encoding = WireRaw \<rparr>"

definition raw_hash :: "NarFileName \<Rightarrow> NarHash option" where
  "raw_hash name = (case file_name_encoding name of
      WireRaw \<Rightarrow> Some (as_nar_hash (file_name_hash name))
    | WireCompressed _ \<Rightarrow> None)"

definition encoded_file_name :: "EncodedIdentity \<Rightarrow> NarFileName" where
  "encoded_file_name identity = \<lparr> file_name_hash = content_hash (encoded_content identity),
     file_name_encoding = WireCompressed (encoded_codec identity) \<rparr>"

subsection \<open>Payload representations\<close>

definition repr_compressed :: "EncodedIdentity \<Rightarrow> NarIdentity \<Rightarrow> NarRepresentation" where
  "repr_compressed encoded decoded =
    ReprCompressed \<lparr> compressed_encoded = encoded, compressed_decoded = decoded \<rparr>"

definition repr_identity :: "NarRepresentation \<Rightarrow> NarIdentity" where
  "repr_identity r = (case r of ReprRaw identity \<Rightarrow> identity
     | ReprCompressed identity \<Rightarrow> compressed_decoded identity)"

definition repr_file_name :: "NarRepresentation \<Rightarrow> NarFileName" where
  "repr_file_name r = (case r of ReprRaw identity \<Rightarrow> file_name_raw (content_hash identity)
     | ReprCompressed identity \<Rightarrow> encoded_file_name (compressed_encoded identity))"

definition repr_encoded_size :: "NarRepresentation \<Rightarrow> EncodedSize" where
  "repr_encoded_size r = (case r of ReprRaw identity \<Rightarrow> ByteCount (count_get (content_size identity))
     | ReprCompressed identity \<Rightarrow> content_size (encoded_content (compressed_encoded identity)))"

definition wire_encoding :: "NarRepresentation \<Rightarrow> WireEncoding" where
  "wire_encoding r = (case r of ReprRaw _ \<Rightarrow> WireRaw
     | ReprCompressed identity \<Rightarrow> WireCompressed (encoded_codec (compressed_encoded identity)))"

subsection \<open>Well-formedness: the fixed widths of the source types\<close>

definition digest_wf :: "'p Sha256Digest \<Rightarrow> bool" where
  "digest_wf d = (length (digest_bytes d) = 32)"

definition content_wf :: "'p ContentIdentity \<Rightarrow> bool" where
  "content_wf i = (digest_wf (content_hash i) \<and> count_get (content_size i) \<le> u64_max)"

definition file_name_wf :: "NarFileName \<Rightarrow> bool" where
  "file_name_wf n = digest_wf (file_name_hash n)"

definition repr_wf :: "NarRepresentation \<Rightarrow> bool" where
  "repr_wf r = (case r of ReprRaw i \<Rightarrow> content_wf i
     | ReprCompressed c \<Rightarrow> content_wf (encoded_content (compressed_encoded c)) \<and> content_wf (compressed_decoded c))"

subsection \<open>Lemmas\<close>

abbreviation nix32_of :: "encodings \<Rightarrow> bool" where
  "nix32_of E \<equiv> nix32_codec (nix32_encode E) (nix32_decode E)"

lemma nix32_standard: "nix32_of standard_encodings"
  using lsb32.nix32_codec_axioms by (simp add: standard_encodings_def)

lemma NIX32_is_ascii: "c \<in> set NIX32 \<Longrightarrow> of_char c < (128 :: nat)"
  by (auto simp: NIX32_def)

lemma digest_display_chars:
  assumes "nix32_of E"
  shows "set (digest_display E d) \<subseteq> set NIX32"
proof -
  have "set (nix32_encode E (digest_bytes d)) \<subseteq> set (ascii NIX32)"
    by (rule nix32_codec.encode_symbols [OF assms])
  then have "set (str_of (encode_nix32 E (digest_bytes d))) \<subseteq> set (str_of (ascii NIX32))"
    unfolding str_of_def encode_nix32_def Let_def by auto
  then show ?thesis by (simp add: digest_display_def)
qed

lemma digest_display_ascii: "nix32_of E \<Longrightarrow> is_ascii (digest_display E d)"
  using digest_display_chars [of E d] NIX32_is_ascii by (auto simp: is_ascii_def)

text \<open>The \<open>expect\<close> in \<open>Display\<close> never fails.\<close>

lemma digest_display_utf8:
  "nix32_of E \<Longrightarrow> from_utf8 (encode_nix32 E (digest_bytes d)) = Some (digest_display E d)"
  using digest_display_ascii [of E d] valid_utf8_ascii [of "digest_display E d"]
  by (simp add: from_utf8_def digest_display_def)

lemma length_digest_display:
  "nix32_of E \<Longrightarrow> digest_wf d \<Longrightarrow> length (digest_display E d) = 52"
  using nix32_codec.encode_length [of "nix32_encode E"]
  by (simp add: digest_display_def encode_nix32_def digest_wf_def)

lemma digest_parse_iff:
  assumes E: "nix32_of E"
  shows "digest_parse E s = Ok d \<longleftrightarrow> digest_wf d \<and> s = digest_display E d"
proof
  assume "digest_parse E s = Ok d"
  then have s: "length s = 52" and d: "nix32_decode E (rev (ascii s)) = Some (digest_bytes d)" "length (digest_bytes d) = 32"
    by (auto simp: digest_parse_def decode_sha256_def NIX32_SHA256_LEN_def Let_def run_simps split: if_splits)
  have "nix32_encode E (digest_bytes d) = rev (ascii s)"
    by (rule nix32_codec.encode_decode [OF E d(1)])
  then have "digest_display E d = s" by (simp add: digest_display_def encode_nix32_def)
  with d(2) show "digest_wf d \<and> s = digest_display E d" by (simp add: digest_wf_def)
next
  assume d: "digest_wf d \<and> s = digest_display E d"
  then have "rev (ascii s) = nix32_encode E (digest_bytes d)"
    by (simp add: digest_display_def encode_nix32_def)
  then have "nix32_decode E (rev (ascii s)) = Some (digest_bytes d)"
    using nix32_codec.decode_encode [OF E] by simp
  with d length_digest_display [OF E, of d] show "digest_parse E s = Ok d"
    by (simp add: digest_parse_def decode_sha256_def NIX32_SHA256_LEN_def digest_wf_def)
qed

lemma digest_parse_display [simp]:
  "nix32_of E \<Longrightarrow> digest_wf d \<Longrightarrow> digest_parse E (digest_display E d) = Ok d"
  by (simp add: digest_parse_iff)

lemma wire_from_str_compression [simp]: "wire_from_str (compression e) = Ok e"
  by (cases e rule: WireEncoding.exhaust [case_product CompressionCodec.exhaust])
    (auto simp: compression_def wire_from_str_def split: CompressionCodec.splits)

lemma compression_of_wire: "wire_from_str s = Ok e \<Longrightarrow> s = compression e"
  by (auto simp: compression_def wire_from_str_def split: if_splits)

lemma find_map_Some: "find_map f xs = Some y \<Longrightarrow> \<exists>x \<in> set xs. f x = Some y"
  by (induction xs) (auto split: option.splits)

text \<open>The suffixes end in different letters, so at most one of them can be stripped.\<close>

lemma strip_wire_suffix [simp]:
  "strip_suffix (wire_suffix e) (r @ wire_suffix e') = (if e = e' then Some r else None)"
proof (cases "e = e'")
  case True
  then show ?thesis by simp
next
  case False
  then have "last (wire_suffix e) \<noteq> last (wire_suffix e')"
    by (auto simp: wire_suffix_def codec_suffix_def split: WireEncoding.splits CompressionCodec.splits)
  moreover have "wire_suffix x \<noteq> []" for x
    by (simp add: wire_suffix_def codec_suffix_def split: WireEncoding.splits CompressionCodec.splits)
  ultimately have "r @ wire_suffix e' \<noteq> q @ wire_suffix e" for q
    by (metis last_appendR)
  then show ?thesis using False by (cases "strip_suffix (wire_suffix e) (r @ wire_suffix e')")
    (auto simp: strip_suffix_Some)
qed

lemma wire_encodings: "e \<in> set [WireCompressed Zstd, WireCompressed Xz, WireRaw]"
  by (cases e) (auto intro: CompressionCodec.exhaust)

lemma file_name_parse_suffix:
  "file_name_parse E (h @ wire_suffix e) =
    bindR (digest_parse E h) (\<lambda>d. Ok \<lparr> file_name_hash = d, file_name_encoding = e \<rparr>)"
  using wire_encodings [of e] by (auto simp: file_name_parse_def)

lemma file_name_parse_iff:
  assumes E: "nix32_of E"
  shows "file_name_parse E s = Ok n \<longleftrightarrow> file_name_wf n \<and> s = file_name_display E n"
proof
  assume p: "file_name_parse E s = Ok n"
  then obtain e where "strip_suffix (wire_suffix e) s \<noteq> None"
    by (auto simp: file_name_parse_def dest!: find_map_Some split: option.splits)
  then obtain h where s: "s = h @ wire_suffix e" by (auto simp: strip_suffix_Some)
  with p obtain d where "digest_parse E h = Ok d" "n = \<lparr> file_name_hash = d, file_name_encoding = e \<rparr>"
    by (auto simp: file_name_parse_suffix run_simps)
  with s show "file_name_wf n \<and> s = file_name_display E n"
    by (simp add: digest_parse_iff [OF E] file_name_wf_def file_name_display_def)
next
  assume n: "file_name_wf n \<and> s = file_name_display E n"
  then show "file_name_parse E s = Ok n"
    by (simp add: file_name_display_def file_name_parse_suffix file_name_wf_def E)
qed

lemma file_name_parse_display [simp]:
  "nix32_of E \<Longrightarrow> file_name_wf n \<Longrightarrow> file_name_parse E (file_name_display E n) = Ok n"
  by (simp add: file_name_parse_iff)

lemma repr_file_name_wf: "repr_wf r \<Longrightarrow> file_name_wf (repr_file_name r)"
  by (auto simp: repr_wf_def file_name_wf_def repr_file_name_def content_wf_def file_name_raw_def
      from_nar_hash_def encoded_file_name_def digest_wf_def split: NarRepresentation.splits)

lemma repr_encoding [simp]: "file_name_encoding (repr_file_name r) = wire_encoding r"
  by (simp add: repr_file_name_def wire_encoding_def file_name_raw_def encoded_file_name_def
      split: NarRepresentation.splits)

lemma repr_identity_wf: "repr_wf r \<Longrightarrow> content_wf (repr_identity r)"
  by (auto simp: repr_wf_def repr_identity_def split: NarRepresentation.splits)

lemma repr_encoded_size_wf: "repr_wf r \<Longrightarrow> count_get (repr_encoded_size r) \<le> u64_max"
  by (auto simp: repr_wf_def repr_encoded_size_def content_wf_def split: NarRepresentation.splits)

lemma file_name_display_ascii: "nix32_of E \<Longrightarrow> is_ascii (file_name_display E n)"
  by (auto simp: file_name_display_def digest_display_ascii wire_suffix_def codec_suffix_def
      split: WireEncoding.splits CompressionCodec.splits)

subsection \<open>Properties\<close>

text \<open>A digest every byte of which is zero, as a concrete example.\<close>

definition zero_digest :: "'p Sha256Digest" where
  "zero_digest = Sha256Digest (replicate 32 0)"

lemma zero_digest_wf [simp]: "digest_wf zero_digest"
  by (simp add: digest_wf_def zero_digest_def)

lemma zero_digest_display: "digest_display standard_encodings zero_digest = replicate 52 CHR ''0''"
proof -
  have "le_value (replicate n 0) = 0" for n by (induction n) auto
  moreover have "digits 32 n 0 = replicate n 0" for n by (induction n) auto
  ultimately have "lsb32_encode (replicate 32 0) = replicate 52 (symbol_at NIX32 0)"
    by (simp add: lsb32_encode_def)
  moreover have "char_of (unat (symbol_at NIX32 0)) = CHR ''0''"
    unfolding symbol_at_def by (simp only: unat_of_char_byte char_of_char) (simp add: NIX32_def)
  ultimately show ?thesis
    by (simp only: digest_display_def encode_nix32_def standard_encodings_def encodings.simps
        zero_digest_def Sha256Digest.sel Let_def rev_replicate str_of_def map_replicate)
qed

text \<open>C10: the textual form of a payload file name is canonical.  A string parses to a name exactly
  when that name holds a 32-byte digest and the string is what \<open>Display\<close> prints for it; so parsing
  and printing are inverse to each other, every name has one spelling, and which of the three suffixes
  applies never depends on the order in which they are tried.\<close>

theorem file_name_canonical:
  assumes "nix32_codec (nix32_encode E) (nix32_decode E)"
  shows "file_name_parse E s = Ok n \<longleftrightarrow> file_name_wf n \<and> s = file_name_display E n"
  by (rule file_name_parse_iff [OF assms])

theorem file_name_canonical_witness:
  "file_name_parse standard_encodings (replicate 52 CHR ''0'' @ ''.nar.xz'')
    = Ok \<lparr> file_name_hash = zero_digest, file_name_encoding = WireCompressed Xz \<rparr>"
proof -
  have "file_name_display standard_encodings \<lparr> file_name_hash = zero_digest, file_name_encoding = WireCompressed Xz \<rparr>
      = replicate 52 CHR ''0'' @ ''.nar.xz''"
    unfolding file_name_display_def NarFileName.simps zero_digest_display
    by (simp only: wire_suffix_def codec_suffix_def WireEncoding.case CompressionCodec.case)
  moreover have "file_name_wf \<lparr> file_name_hash = zero_digest, file_name_encoding = WireCompressed Xz \<rparr>"
    by (simp add: file_name_wf_def)
  ultimately show ?thesis
    unfolding file_name_canonical [OF nix32_standard] by (simp only: simp_thms)
qed

text \<open>The file name of a representation determines how its bytes are read.  The name printed for
  a well-formed representation parses back to that name; its encoding is the representation's wire
  encoding; and it gives a logical archive hash exactly for a raw payload, the hash of its identity.\<close>

theorem representation_name:
  assumes "nix32_codec (nix32_encode E) (nix32_decode E)" and "repr_wf r"
  shows "file_name_parse E (file_name_display E (repr_file_name r)) = Ok (repr_file_name r)
    \<and> file_name_encoding (repr_file_name r) = wire_encoding r
    \<and> raw_hash (repr_file_name r) = (if wire_encoding r = WireRaw then Some (content_hash (repr_identity r)) else None)"
  using assms repr_file_name_wf [OF assms(2)]
  by (auto simp: raw_hash_def wire_encoding_def repr_file_name_def repr_identity_def file_name_raw_def
      as_nar_hash_def from_nar_hash_def encoded_file_name_def split: NarRepresentation.splits)

theorem representation_name_witness:
  "raw_hash (repr_file_name (ReprRaw (content_identity zero_digest (ByteCount 120)))) = Some zero_digest"
proof -
  have "repr_wf (ReprRaw (content_identity zero_digest (ByteCount 120)))"
    by (simp add: repr_wf_def content_wf_def content_identity_def u64_max_def)
  then show ?thesis
    using representation_name [OF nix32_standard, of "ReprRaw (content_identity zero_digest (ByteCount 120))"]
    by (simp add: wire_encoding_def repr_identity_def content_identity_def)
qed

end
