(* ===== verification/Store_Ids.thy ===== *)
theory Store_Ids
  imports Object
begin

section \<open>Store hashes and store basenames (\<open>src/storage/ids.rs\<close>)\<close>

text \<open>
  A store basename is \<open><hash>-<name>\<close>: 32 characters of the Nix base-32 alphabet, a dash and a name of
  at most 211 bytes.  The lemmas characterise exactly which strings are accepted and what is returned.
\<close>

datatype StoreHash = StoreHash (store_hash_bytes: bytes)

definition MAX_STORE_NAME_BYTES :: nat where
  "MAX_STORE_NAME_BYTES = 211"

definition valid_nix32 :: "string \<Rightarrow> nat \<Rightarrow> bool" where
  "valid_nix32 value expected_len =
    (length value = expected_len \<and> list_all (\<lambda>byte. byte \<in> set NIX32) value)"

definition store_hash_parse :: "string \<Rightarrow> InvalidObjectId + StoreHash" where
  "store_hash_parse value = (if valid_nix32 value 32
     then (if length (ascii value) = 32 then Ok (StoreHash (ascii value)) else Err InvalidObjectId)
     else Err InvalidObjectId)"

text \<open>\<open>as_str\<close>; the source \<open>expect\<close>s the bytes to be UTF-8, see \<open>store_hash_utf8\<close>.\<close>

definition store_hash_str :: "StoreHash \<Rightarrow> string" where
  "store_hash_str h = str_of (store_hash_bytes h)"

definition store_name_char :: "char \<Rightarrow> bool" where
  "store_name_char byte = (ascii_alphanumeric byte \<or> byte \<in> set ''+-._?='')"

definition validate_store_basename :: "string \<Rightarrow> InvalidObjectId + (StoreHash \<times> string)" where
  "validate_store_basename value =
    bindR (ok_or InvalidObjectId (split_once (CHR ''-'') value)) (\<lambda>(hash, name).
      if name = [] \<or> MAX_STORE_NAME_BYTES < length name \<or> name = ''.'' \<or> name = ''..''
         \<or> starts_with ''.-'' name \<or> starts_with ''..-'' name
         \<or> \<not> list_all store_name_char name
      then Err InvalidObjectId
      else bindR (store_hash_parse hash) (\<lambda>h. Ok (h, name)))"

subsection \<open>Well-formedness and exact acceptance\<close>

definition store_hash_wf :: "StoreHash \<Rightarrow> bool" where
  "store_hash_wf h = valid_nix32 (store_hash_str h) 32"

definition store_name_ok :: "string \<Rightarrow> bool" where
  "store_name_ok name = (name \<noteq> [] \<and> length name \<le> MAX_STORE_NAME_BYTES \<and> name \<noteq> ''.'' \<and> name \<noteq> ''..''
     \<and> \<not> starts_with ''.-'' name \<and> \<not> starts_with ''..-'' name \<and> list_all store_name_char name)"

lemma store_hash_parse_iff: "store_hash_parse s = Ok h \<longleftrightarrow> store_hash_wf h \<and> s = store_hash_str h"
  by (cases h) (auto simp: store_hash_parse_def store_hash_wf_def store_hash_str_def valid_nix32_def)

lemma dash_not_nix32 [simp]: "CHR ''-'' \<notin> set NIX32"
  by (simp add: NIX32_def)

lemma store_hash_chars: "store_hash_wf h \<Longrightarrow> set (store_hash_str h) \<subseteq> set NIX32"
  by (auto simp: store_hash_wf_def valid_nix32_def list_all_iff)

lemma store_hash_no_dash: "store_hash_wf h \<Longrightarrow> CHR ''-'' \<notin> set (store_hash_str h)"
  using store_hash_chars [of h] by auto

lemma store_hash_ascii: "store_hash_wf h \<Longrightarrow> is_ascii (store_hash_str h)"
  using store_hash_chars [of h] NIX32_is_ascii by (auto simp: is_ascii_def)

text \<open>The \<open>expect\<close> in \<open>as_str\<close> never fails.\<close>

lemma store_hash_utf8: "store_hash_wf h \<Longrightarrow> from_utf8 (store_hash_bytes h) = Some (store_hash_str h)"
  using store_hash_ascii [of h] valid_utf8_ascii [of "store_hash_str h"]
  by (simp add: from_utf8_def store_hash_str_def)

lemma validate_store_basename_alt:
  "validate_store_basename s = bindR (ok_or InvalidObjectId (split_once (CHR ''-'') s)) (\<lambda>(hash, name).
     if store_name_ok name then bindR (store_hash_parse hash) (\<lambda>h. Ok (h, name)) else Err InvalidObjectId)"
  unfolding validate_store_basename_def store_name_ok_def not_less [symmetric]
  by (rule arg_cong [where f = "bindR _"]) (rule ext, simp split: prod.splits)

lemma validate_store_basename_iff:
  "validate_store_basename s = Ok (h, name) \<longleftrightarrow>
    store_hash_wf h \<and> store_name_ok name \<and> s = store_hash_str h @ CHR ''-'' # name"
proof (cases "split_once (CHR ''-'') s")
  case None
  then have "s \<noteq> store_hash_str h @ CHR ''-'' # name" if "store_hash_wf h"
    using that store_hash_chars [of h] split_once_Some [of "CHR ''-''" s "store_hash_str h" name] by auto
  with None show ?thesis by (auto simp: validate_store_basename_alt)
next
  case (Some p)
  obtain a b where p: "p = (a, b)" by force
  have s: "s = a @ CHR ''-'' # b" "CHR ''-'' \<notin> set a" using Some p by (simp_all add: split_once_Some)
  have "validate_store_basename s = Ok (h, name) \<longleftrightarrow> store_name_ok b \<and> store_hash_parse a = Ok h \<and> b = name"
    unfolding validate_store_basename_alt Some p by (auto simp: run_simps)
  also have "\<dots> \<longleftrightarrow> store_hash_wf h \<and> store_name_ok name \<and> s = store_hash_str h @ CHR ''-'' # name"
    using s store_hash_no_dash [of h] append_sep_eq_iff [of "CHR ''-''" a "store_hash_str h" b name]
    by (auto simp: store_hash_parse_iff)
  finally show ?thesis .
qed

lemma store_name_char_ascii: "store_name_char c \<Longrightarrow> of_char c < (128 :: nat)"
  by (auto simp: store_name_char_def ascii_alphanumeric_def ascii_digit_def)

lemma store_name_ok_chars: "store_name_ok n \<Longrightarrow> c \<in> set n \<Longrightarrow> store_name_char c"
  by (auto simp: store_name_ok_def list_all_iff)

lemma NIX32_store_name_char: "c \<in> set NIX32 \<Longrightarrow> store_name_char c"
proof -
  have "list_all store_name_char NIX32"
    by (simp add: NIX32_def store_name_char_def ascii_alphanumeric_def ascii_digit_def)
  then show "c \<in> set NIX32 \<Longrightarrow> store_name_char c" by (simp only: list_all_iff)
qed

text \<open>C12: a basename is accepted exactly when it is a hash of 32 base-32 characters, a dash and a
  name of one to 211 allowed bytes that is not a relative path component in disguise; the hash and the
  name returned are the two parts, so the basename is their concatenation and no other reading
  exists, although the name itself may contain dashes.\<close>

theorem store_basename_exact:
  "validate_store_basename s = Ok (h, name) \<longleftrightarrow>
    store_hash_wf h \<and> store_name_ok name \<and> s = store_hash_str h @ ''-'' @ name"
  using validate_store_basename_iff [of s h name] by simp

end
