(* ===== verification/NarInfo.thy ===== *)
theory NarInfo
  imports Store_Ids
begin

section \<open>Narinfo documents (\<open>src/narinfo.rs\<close>)\<close>

text \<open>
  Parsing, validating and writing narinfo metadata.  The model follows the source: store paths, derivers and
  content addresses with their parsers; the logical claims and their fingerprint; the document as a
  map from the eleven unique fields to values and a list of signature lines; the payload described by the
  transport fields; and the bounded writer.  The URI parser and the Ed25519 types are library code
  and appear as the fields of \<open>externals\<close>.
\<close>

datatype NarInfoError = NarInfoError

definition MAX_NARINFO_BYTES :: nat where
  "MAX_NARINFO_BYTES = 1024 * 1024"

subsection \<open>What the code uses of \<open>fluent_uri\<close> and \<open>ed25519_dalek\<close>\<close>

record uri_ref =
  has_fragment :: bool
  uri_scheme :: "string option"
  authority_host :: "string option"

record ('k, 'g) externals =
  uri_parse :: "string \<Rightarrow> uri_ref option"
  signature_from_slice :: "bytes \<Rightarrow> 'g option"
  key_from_bytes :: "bytes \<Rightarrow> 'k option"
  key_as_bytes :: "'k \<Rightarrow> bytes"
  key_is_weak :: "'k \<Rightarrow> bool"
  verify_strict :: "'k \<Rightarrow> bytes \<Rightarrow> 'g \<Rightarrow> bool"

subsection \<open>Store paths, derivers, content addresses\<close>

record NixStorePath =
  path_value :: string
  path_store :: StoreHash

abbreviation store_dir :: string where
  "store_dir \<equiv> ''/nix/store/''"

definition narinfo_validate_store_basename :: "string \<Rightarrow> NarInfoError + (StoreHash \<times> string)" where
  "narinfo_validate_store_basename value = map_err (\<lambda>_. NarInfoError) (validate_store_basename value)"

definition store_path_parse :: "string \<Rightarrow> NarInfoError + NixStorePath" where
  "store_path_parse value =
    bindR (ok_or NarInfoError (strip_prefix store_dir value)) (\<lambda>basename.
    bindR (narinfo_validate_store_basename basename) (\<lambda>(store, _).
      Ok \<lparr> path_value = value, path_store = store \<rparr>))"

definition from_basename :: "string \<Rightarrow> NarInfoError + NixStorePath" where
  "from_basename value = store_path_parse (store_dir @ value)"

text \<open>The source \<open>expect\<close>s the prefix; \<open>basename_defined\<close> below shows it is there.\<close>

definition basename :: "NixStorePath \<Rightarrow> string" where
  "basename p = the (strip_prefix store_dir (path_value p))"

datatype Deriver = UnknownDeriver | DeriverPath NixStorePath

definition deriver_from_store_value :: "string \<Rightarrow> NarInfoError + Deriver" where
  "deriver_from_store_value value = (if value = ''unknown-deriver'' then Ok UnknownDeriver
     else bindR (store_path_parse value) (\<lambda>p. Ok (DeriverPath p)))"

definition deriver_narinfo_value :: "Deriver \<Rightarrow> string" where
  "deriver_narinfo_value d = (case d of UnknownDeriver \<Rightarrow> ''unknown-deriver'' | DeriverPath p \<Rightarrow> basename p)"

definition deriver_from_narinfo_value :: "string \<Rightarrow> NarInfoError + Deriver" where
  "deriver_from_narinfo_value value = (if value = ''unknown-deriver'' then Ok UnknownDeriver
     else bindR (from_basename value) (\<lambda>p. Ok (DeriverPath p)))"

definition content_address_rest :: "string \<Rightarrow> string option" where
  "content_address_rest value = (case strip_prefix ''text:'' value of
     Some rest \<Rightarrow> Some rest
   | None \<Rightarrow> (case strip_prefix ''fixed:'' value of
       Some rest \<Rightarrow> Some (case strip_prefix ''r:'' rest of Some r \<Rightarrow> r
          | None \<Rightarrow> (case strip_prefix ''git:'' rest of Some r \<Rightarrow> r | None \<Rightarrow> rest))
     | None \<Rightarrow> None))"

definition algorithm_bytes :: "string \<Rightarrow> nat option" where
  "algorithm_bytes algorithm =
    (if algorithm = ''md5'' then Some 16
     else if algorithm = ''sha1'' then Some 20
     else if algorithm = ''blake3'' \<or> algorithm = ''sha256'' then Some 32
     else if algorithm = ''sha512'' then Some 64
     else None)"

definition parse_content_address :: "encodings \<Rightarrow> string \<Rightarrow> NarInfoError + unit" where
  "parse_content_address E value =
    bindR (ok_or NarInfoError (content_address_rest value)) (\<lambda>rest.
    bindR (ok_or NarInfoError (split_once (CHR '':'') rest)) (\<lambda>(algorithm, hash).
    bindR (ok_or NarInfoError (algorithm_bytes algorithm)) (\<lambda>hash_bytes.
      if (length hash = hash_bytes * 2 \<and> list_all ascii_hexdigit hash)
         \<or> (length hash = (hash_bytes * 8 + 4) div 5 \<and> list_all (\<lambda>byte. byte \<in> set NIX32) hash)
         \<or> (case base64_decode E (ascii hash) of Some decoded \<Rightarrow> length decoded = hash_bytes | None \<Rightarrow> False)
      then Ok () else Err NarInfoError)))"

datatype ContentAddress = ContentAddress (content_address_str: string)

definition content_address_parse :: "encodings \<Rightarrow> string \<Rightarrow> NarInfoError + ContentAddress" where
  "content_address_parse E value =
    bindR (parse_content_address E value) (\<lambda>_. Ok (ContentAddress value))"

subsection \<open>Logical claims\<close>

record NarInfoClaims =
  claims_store_path :: NixStorePath
  claims_references :: "NixStorePath list"
  claims_identity :: NarIdentity

datatype LogicalClaimsMismatch = MismatchStorePath | MismatchNarIdentity | MismatchReferences

datatype ReferencesFieldHandling = Required | MissingMeansEmpty

definition claims_new :: "string \<Rightarrow> string list \<Rightarrow> NarIdentity \<Rightarrow> NarInfoError + NarInfoClaims" where
  "claims_new store_path references identity =
    bindR (store_path_parse store_path) (\<lambda>store_path.
    bindR (traverse_list store_path_parse references) (\<lambda>references.
      Ok \<lparr> claims_store_path = store_path,
           claims_references = sort_dedup path_value references,
           claims_identity = identity \<rparr>))"

definition claims_store :: "NarInfoClaims \<Rightarrow> StoreHash" where
  "claims_store c = path_store (claims_store_path c)"

definition reference_basenames :: "NarInfoClaims \<Rightarrow> string list" where
  "reference_basenames c = map basename (claims_references c)"

definition references_field :: "NarInfoClaims \<Rightarrow> string" where
  "references_field c = join '' '' (reference_basenames c)"

fun push_references :: "string \<Rightarrow> nat \<Rightarrow> string list \<Rightarrow> string" where
  "push_references fingerprint index [] = fingerprint"
| "push_references fingerprint index (reference # references) =
    push_references ((if index \<noteq> 0 then fingerprint @ '','' else fingerprint) @ store_dir @ reference)
      (index + 1) references"

definition build_fingerprint :: "encodings \<Rightarrow> string \<Rightarrow> NarHash \<Rightarrow> nat \<Rightarrow> string list \<Rightarrow> string" where
  "build_fingerprint E store_path nar_hash nar_size references =
    push_references (''1;'' @ store_path @ '';sha256:'' @ digest_display E nar_hash @ '';''
      @ u64_to_string nar_size @ '';'') 0 references"

definition fingerprint :: "encodings \<Rightarrow> NarInfoClaims \<Rightarrow> string" where
  "fingerprint E c = build_fingerprint E (path_value (claims_store_path c))
     (content_hash (claims_identity c)) (count_get (content_size (claims_identity c))) (reference_basenames c)"

definition compare_logical_claims :: "NarInfoClaims \<Rightarrow> NarInfoClaims \<Rightarrow> LogicalClaimsMismatch + unit" where
  "compare_logical_claims self other =
    (if claims_store_path self \<noteq> claims_store_path other then Err MismatchStorePath
     else if claims_identity self \<noteq> claims_identity other then Err MismatchNarIdentity
     else if claims_references self \<noteq> claims_references other then Err MismatchReferences
     else Ok ())"

definition parse_references :: "string \<Rightarrow> NarInfoError + NixStorePath list" where
  "parse_references value =
    (if value = [] then Ok []
     else bindR (traverse_list from_basename (str_split (CHR '' '') value)) (\<lambda>references.
       Ok (sort_dedup path_value references)))"

subsection \<open>The document: unique fields and signature lines\<close>

datatype NarInfoField =
    FStorePath | FUrl | FCompression | FFileHash | FFileSize | FNarHash | FNarSize
  | FReferences | FDeriver | FSystem | FContentAddress

datatype NarInfoLineField = Unique NarInfoField | SignatureLine

datatype UnknownFieldHandling = Reject | Ignore

definition line_field_parse :: "string \<Rightarrow> NarInfoLineField option" where
  "line_field_parse name =
    (if name = ''StorePath'' then Some (Unique FStorePath)
     else if name = ''URL'' then Some (Unique FUrl)
     else if name = ''Compression'' then Some (Unique FCompression)
     else if name = ''FileHash'' then Some (Unique FFileHash)
     else if name = ''FileSize'' then Some (Unique FFileSize)
     else if name = ''NarHash'' then Some (Unique FNarHash)
     else if name = ''NarSize'' then Some (Unique FNarSize)
     else if name = ''References'' then Some (Unique FReferences)
     else if name = ''Deriver'' then Some (Unique FDeriver)
     else if name = ''System'' then Some (Unique FSystem)
     else if name = ''CA'' then Some (Unique FContentAddress)
     else if name = ''Sig'' then Some SignatureLine
     else None)"

record NarInfoDocument =
  doc_fields :: "NarInfoField \<Rightarrow> string option"
  signature_values :: "string list"

definition set_once :: "string option \<Rightarrow> string \<Rightarrow> NarInfoError + string option" where
  "set_once destination value = (case destination of None \<Rightarrow> Ok (Some value) | Some _ \<Rightarrow> Err NarInfoError)"

definition record_field :: "NarInfoDocument \<Rightarrow> NarInfoLineField \<Rightarrow> string \<Rightarrow> NarInfoError + NarInfoDocument" where
  "record_field doc field value = (case field of
      SignatureLine \<Rightarrow> Ok (doc\<lparr> signature_values := signature_values doc @ [value] \<rparr>)
    | Unique f \<Rightarrow> bindR (set_once (doc_fields doc f) value) (\<lambda>slot.
        Ok (doc\<lparr> doc_fields := (doc_fields doc)(f := slot) \<rparr>)))"

definition record_line :: "UnknownFieldHandling \<Rightarrow> NarInfoDocument \<Rightarrow> string \<Rightarrow> NarInfoError + NarInfoDocument" where
  "record_line unknown_fields doc line =
    bindR (ok_or NarInfoError (split_once_str '': '' line)) (\<lambda>(name, value).
      case line_field_parse name of
        None \<Rightarrow> (case unknown_fields of Reject \<Rightarrow> Err NarInfoError | Ignore \<Rightarrow> Ok doc)
      | Some field \<Rightarrow> record_field doc field value)"

definition empty_document :: NarInfoDocument where
  "empty_document = \<lparr> doc_fields = (\<lambda>_. None), signature_values = [] \<rparr>"

definition parse_with_unknown_fields :: "string \<Rightarrow> UnknownFieldHandling \<Rightarrow> NarInfoError + NarInfoDocument" where
  "parse_with_unknown_fields text unknown_fields =
    bindR (ok_or NarInfoError (strip_suffix [CHR 0x0A] text)) (\<lambda>body.
      try_fold (record_line unknown_fields) empty_document (str_split (CHR 0x0A) body))"

definition document_parse :: "string \<Rightarrow> NarInfoError + NarInfoDocument" where
  "document_parse text = parse_with_unknown_fields text Reject"

definition document_parse_external :: "string \<Rightarrow> NarInfoError + NarInfoDocument" where
  "document_parse_external text = parse_with_unknown_fields text Ignore"

definition required :: "NarInfoDocument \<Rightarrow> NarInfoField \<Rightarrow> NarInfoError + string" where
  "required doc f = ok_or NarInfoError (doc_fields doc f)"

definition parse_narinfo_text :: "bytes \<Rightarrow> NarInfoError + string" where
  "parse_narinfo_text bs =
    (if MAX_NARINFO_BYTES < length bs then Err NarInfoError
     else bindR (ok_or NarInfoError (from_utf8 bs)) (\<lambda>text.
       if \<not> ends_with [CHR 0x0A] text \<or> CHR 0x0D \<in> set text then Err NarInfoError else Ok text))"

subsection \<open>Signatures\<close>

definition valid_name :: "string \<Rightarrow> bool" where
  "valid_name name = (name \<noteq> [] \<and> list_all (\<lambda>byte. ascii_alphanumeric byte \<or> byte \<in> set ''._-'') name)"

record 'g NamedSignature =
  sig_name :: string
  sig_signature :: 'g

definition named_signature_parse ::
    "encodings \<Rightarrow> ('k, 'g) externals \<Rightarrow> string \<Rightarrow> NarInfoError + 'g NamedSignature" where
  "named_signature_parse E X value =
    bindR (ok_or NarInfoError (case split_once (CHR '':'') value of
        Some (name, encoded) \<Rightarrow> if valid_name name \<and> encoded \<noteq> [] then Some (name, encoded) else None
      | None \<Rightarrow> None)) (\<lambda>(name, encoded).
    bindR (ok_or NarInfoError (base64_decode E (ascii encoded))) (\<lambda>bs.
    bindR (ok_or NarInfoError (signature_from_slice X bs)) (\<lambda>signature.
      Ok \<lparr> sig_name = name, sig_signature = signature \<rparr>)))"

definition named_signatures ::
    "encodings \<Rightarrow> ('k, 'g) externals \<Rightarrow> NarInfoDocument \<Rightarrow> NarInfoError + 'g NamedSignature list" where
  "named_signatures E X doc =
    (if signature_values doc = [] then Err NarInfoError
     else traverse_list (named_signature_parse E X) (signature_values doc))"

subsection \<open>Claims of a document\<close>

definition parse_hash_field :: "encodings \<Rightarrow> string \<Rightarrow> 'p Sha256Digest option" where
  "parse_hash_field E value = (case strip_prefix ''sha256:'' value of
     None \<Rightarrow> None
   | Some v \<Rightarrow> (case digest_parse E v of Inr h \<Rightarrow> Some h | Inl _ \<Rightarrow> None))"

definition parse_nonzero :: "string \<Rightarrow> nat option" where
  "parse_nonzero value = (case parse_u64 value of
     Some n \<Rightarrow> if n \<noteq> 0 then Some n else None
   | None \<Rightarrow> None)"

definition from_document_with_references ::
    "encodings \<Rightarrow> StoreHash \<Rightarrow> NarInfoDocument \<Rightarrow> ReferencesFieldHandling \<Rightarrow> NarInfoError + NarInfoClaims" where
  "from_document_with_references E route doc references_handling =
    bindR (bindR (required doc FStorePath) store_path_parse) (\<lambda>store_path.
    if path_store store_path \<noteq> route then Err NarInfoError else
    bindR (bindR (required doc FNarHash) (\<lambda>v. ok_or NarInfoError (parse_hash_field E v))) (\<lambda>nar_hash.
    bindR (bindR (required doc FNarSize) (\<lambda>v. ok_or NarInfoError (parse_nonzero v))) (\<lambda>nar_size.
    bindR (case references_handling of
        Required \<Rightarrow> bindR (required doc FReferences) parse_references
      | MissingMeansEmpty \<Rightarrow> bindR (traverse_option parse_references (doc_fields doc FReferences))
          (\<lambda>r. Ok (case r of None \<Rightarrow> [] | Some rs \<Rightarrow> rs))) (\<lambda>references.
      Ok \<lparr> claims_store_path = store_path, claims_references = references,
           claims_identity = content_identity nar_hash (ByteCount nar_size) \<rparr>))))"

definition claims_from_document :: "encodings \<Rightarrow> StoreHash \<Rightarrow> NarInfoDocument \<Rightarrow> NarInfoError + NarInfoClaims" where
  "claims_from_document E route doc = from_document_with_references E route doc Required"

definition claims_from_external_document ::
    "encodings \<Rightarrow> StoreHash \<Rightarrow> NarInfoDocument \<Rightarrow> NarInfoError + NarInfoClaims" where
  "claims_from_external_document E route doc = from_document_with_references E route doc MissingMeansEmpty"

subsection \<open>Payload and transport of a document\<close>

definition validate_raw_narinfo_identity ::
    "FileHash \<Rightarrow> EncodedSize \<Rightarrow> NarIdentity \<Rightarrow> NarInfoError + NarRepresentation" where
  "validate_raw_narinfo_identity file_hash file_size identity =
    (if file_hash = from_nar_hash (content_hash identity) \<and> count_get file_size = count_get (content_size identity)
     then Ok (ReprRaw identity) else Err NarInfoError)"

definition representation_from_narinfo_fields ::
    "NarFileName \<Rightarrow> FileHash \<Rightarrow> EncodedSize \<Rightarrow> NarIdentity \<Rightarrow> NarInfoError + NarRepresentation" where
  "representation_from_narinfo_fields file_name file_hash file_size identity =
    (if file_name_hash file_name \<noteq> file_hash \<or> count_get (content_size identity) = 0 then Err NarInfoError
     else case file_name_encoding file_name of
        WireRaw \<Rightarrow> validate_raw_narinfo_identity file_hash file_size identity
      | WireCompressed codec \<Rightarrow> Ok (repr_compressed (encoded_identity codec file_hash file_size) identity))"

definition publication_payload ::
    "encodings \<Rightarrow> NarInfoDocument \<Rightarrow> NarIdentity \<Rightarrow> NarInfoError + NarRepresentation" where
  "publication_payload E doc identity =
    (if doc_fields doc FSystem \<noteq> None then Err NarInfoError else
     bindR (required doc FUrl) (\<lambda>url.
     bindR (ok_or NarInfoError (strip_prefix ''nar/'' url)) (\<lambda>value.
     bindR (map_err (\<lambda>_. NarInfoError) (file_name_parse E value)) (\<lambda>file_name.
     bindR (required doc FCompression) (\<lambda>comp.
     if comp \<noteq> compression (file_name_encoding file_name) then Err NarInfoError else
     bindR (bindR (required doc FFileHash) (\<lambda>v. ok_or NarInfoError (parse_hash_field E v))) (\<lambda>file_hash.
     bindR (bindR (required doc FFileSize) (\<lambda>v. ok_or NarInfoError (parse_u64 v))) (\<lambda>file_size.
       representation_from_narinfo_fields file_name file_hash (ByteCount file_size) identity)))))))"

definition external_file_hash :: "encodings \<Rightarrow> NarInfoDocument \<Rightarrow> NarInfoError + FileHash option" where
  "external_file_hash E doc =
    traverse_option (\<lambda>v. ok_or NarInfoError (parse_hash_field E v)) (doc_fields doc FFileHash)"

definition external_file_size :: "NarInfoDocument \<Rightarrow> NarInfoError + EncodedSize option" where
  "external_file_size doc =
    traverse_option (\<lambda>v. ok_or NarInfoError (map_option ByteCount (parse_nonzero v))) (doc_fields doc FFileSize)"

record ExternalNarInfoTransport =
  transport_download_url :: string
  transport_payload :: NarRepresentation

definition external_transport ::
    "encodings \<Rightarrow> NarInfoDocument \<Rightarrow> NarIdentity \<Rightarrow> NarInfoError + ExternalNarInfoTransport" where
  "external_transport E doc identity =
    bindR (required doc FUrl) (\<lambda>download_url.
    bindR (bindR (required doc FCompression) (\<lambda>v. map_err (\<lambda>_. NarInfoError) (wire_from_str v))) (\<lambda>encoding.
    bindR (external_file_hash E doc) (\<lambda>file_hash.
    bindR (external_file_size doc) (\<lambda>file_size.
    bindR (case encoding of
        WireRaw \<Rightarrow>
          (let expected_hash = from_nar_hash (content_hash identity);
               expected_size = ByteCount (count_get (content_size identity)) in
           if (case file_hash of Some hash \<Rightarrow> hash \<noteq> expected_hash | None \<Rightarrow> False)
              \<or> (case file_size of Some n \<Rightarrow> n \<noteq> expected_size | None \<Rightarrow> False)
           then Err NarInfoError else Ok (ReprRaw identity))
      | WireCompressed codec \<Rightarrow>
          (case (file_hash, file_size) of
             (Some hash, Some n) \<Rightarrow> Ok (repr_compressed (encoded_identity codec hash n) identity)
           | _ \<Rightarrow> Err NarInfoError)) (\<lambda>payload.
      Ok \<lparr> transport_download_url = download_url, transport_payload = payload \<rparr>)))))"

definition validate_external_transport ::
    "encodings \<Rightarrow> ('k, 'g) externals \<Rightarrow> NarInfoDocument \<Rightarrow> NarInfoError + unit" where
  "validate_external_transport E X doc =
    bindR (required doc FUrl) (\<lambda>url.
    if url = [] then Err NarInfoError else
    bindR (ok_or NarInfoError (uri_parse X url)) (\<lambda>uri.
    if has_fragment uri
       \<or> (case uri_scheme uri of Some scheme \<Rightarrow> scheme \<notin> set [''http'', ''https''] | None \<Rightarrow> False)
       \<or> (case uri_scheme uri of
            Some _ \<Rightarrow> (case authority_host uri of None \<Rightarrow> True | Some host \<Rightarrow> host = [])
          | None \<Rightarrow> False)
    then Err NarInfoError else
    bindR (bindR (required doc FCompression) (\<lambda>v. map_err (\<lambda>_. NarInfoError) (wire_from_str v))) (\<lambda>_.
    bindR (external_file_hash E doc) (\<lambda>file_hash.
    bindR (external_file_size doc) (\<lambda>file_size.
      case (file_hash, file_size) of
        (None, None) \<Rightarrow> Ok ()
      | (Some _, Some _) \<Rightarrow> Ok ()
      | _ \<Rightarrow> Err NarInfoError)))))"

definition parse_external_logical_claims ::
    "encodings \<Rightarrow> StoreHash \<Rightarrow> bytes \<Rightarrow> NarInfoError + NarInfoClaims" where
  "parse_external_logical_claims E route bs =
    bindR (parse_narinfo_text bs) (\<lambda>text.
    bindR (document_parse_external text) (\<lambda>doc.
      claims_from_external_document E route doc))"

definition parse_external_publication ::
    "encodings \<Rightarrow> ('k, 'g) externals \<Rightarrow> StoreHash \<Rightarrow> bytes \<Rightarrow> NarInfoError + (NarInfoClaims \<times> NarRepresentation)" where
  "parse_external_publication E X route bs =
    bindR (parse_narinfo_text bs) (\<lambda>text.
    bindR (document_parse_external text) (\<lambda>doc.
    bindR (validate_external_transport E X doc) (\<lambda>_.
    bindR (claims_from_external_document E route doc) (\<lambda>claims.
    bindR (publication_payload E doc (claims_identity claims)) (\<lambda>payload.
      Ok (claims, payload))))))"

definition parse_external_narinfo ::
    "encodings \<Rightarrow> ('k, 'g) externals \<Rightarrow> StoreHash \<Rightarrow> bytes \<Rightarrow> NarInfoError + NarInfoClaims" where
  "parse_external_narinfo E X route bs =
    bindR (parse_external_publication E X route bs) (\<lambda>(claims, _). Ok claims)"

definition matches_external_publication ::
    "encodings \<Rightarrow> ('k, 'g) externals \<Rightarrow> NarInfoClaims \<Rightarrow> bytes \<Rightarrow> NarRepresentation \<Rightarrow> bool" where
  "matches_external_publication E X self bs output =
    (case parse_external_publication E X (claims_store self) bs of
       Inr (claims, payload) \<Rightarrow> compare_logical_claims self claims = Ok () \<and> payload = output
     | Inl _ \<Rightarrow> False)"

subsection \<open>Metadata and its bounded serialisation\<close>

record NarInfoMetadata =
  meta_claims :: NarInfoClaims
  meta_deriver :: "Deriver option"
  meta_content_address :: "ContentAddress option"
  meta_signatures :: "string list"

definition from_store_metadata ::
    "encodings \<Rightarrow> string \<Rightarrow> string option \<Rightarrow> string option \<Rightarrow> NarIdentity \<Rightarrow> string list \<Rightarrow> string list
      \<Rightarrow> NarInfoError + NarInfoMetadata" where
  "from_store_metadata E store_path content_address deriver identity references signatures =
    bindR (claims_new store_path references identity) (\<lambda>claims.
    bindR (traverse_option deriver_from_store_value deriver) (\<lambda>deriver.
    bindR (traverse_option (content_address_parse E) content_address) (\<lambda>content_address.
      Ok \<lparr> meta_claims = claims, meta_deriver = deriver, meta_content_address = content_address,
           meta_signatures = signatures \<rparr>)))"

definition add_signature :: "NarInfoMetadata \<Rightarrow> string \<Rightarrow> NarInfoMetadata" where
  "add_signature m signature = m\<lparr> meta_signatures := meta_signatures m @ [signature] \<rparr>"

definition replace_signatures :: "NarInfoMetadata \<Rightarrow> string list \<Rightarrow> NarInfoMetadata" where
  "replace_signatures m signatures = m\<lparr> meta_signatures := signatures \<rparr>"

definition from_document_claims ::
    "encodings \<Rightarrow> NarInfoClaims \<Rightarrow> NarInfoDocument \<Rightarrow> NarInfoError + NarInfoMetadata" where
  "from_document_claims E claims doc =
    bindR (traverse_option deriver_from_narinfo_value (doc_fields doc FDeriver)) (\<lambda>deriver.
    bindR (traverse_option (content_address_parse E) (doc_fields doc FContentAddress)) (\<lambda>content_address.
      Ok \<lparr> meta_claims = claims, meta_deriver = deriver, meta_content_address = content_address,
           meta_signatures = signature_values doc \<rparr>))"

definition metadata_from_document ::
    "encodings \<Rightarrow> StoreHash \<Rightarrow> NarInfoDocument \<Rightarrow> NarInfoError + NarInfoMetadata" where
  "metadata_from_document E route doc =
    bindR (claims_from_document E route doc) (\<lambda>claims. from_document_claims E claims doc)"

text \<open>
  \<open>writeln!\<close> writes the literal pieces of its format string and its arguments one after the other;
  the bounded writer checks every piece.
\<close>

definition bounded_write :: "bytes \<Rightarrow> string \<Rightarrow> NarInfoError + bytes" where
  "bounded_write out piece =
    bindR (ok_or NarInfoError (checked_add_u64 (length out) (length piece))) (\<lambda>new_length.
      if MAX_NARINFO_BYTES < new_length then Err NarInfoError else Ok (out @ ascii piece))"

definition write_pieces :: "bytes \<Rightarrow> string list \<Rightarrow> NarInfoError + bytes" where
  "write_pieces out pieces = try_fold bounded_write out pieces"

definition metadata_write :: "encodings \<Rightarrow> NarInfoMetadata \<Rightarrow> NarRepresentation \<Rightarrow> bytes \<Rightarrow> NarInfoError + bytes" where
  "metadata_write E m r out =
    (let file_name = repr_file_name r; file_size = repr_encoded_size r; claims = meta_claims m in
     bindR (write_pieces out
       [''StorePath: '', path_value (claims_store_path claims),
        CHR 0x0A # ''URL: nar/'', file_name_display E file_name,
        CHR 0x0A # ''Compression: '', compression (file_name_encoding file_name),
        CHR 0x0A # ''FileHash: sha256:'', digest_display E (file_name_hash file_name),
        CHR 0x0A # ''FileSize: '', count_display file_size,
        CHR 0x0A # ''NarHash: sha256:'', digest_display E (content_hash (claims_identity claims)),
        CHR 0x0A # ''NarSize: '', count_display (content_size (claims_identity claims)),
        CHR 0x0A # ''References: '', references_field claims, [CHR 0x0A]]) (\<lambda>out.
     bindR (try_fold (\<lambda>out signature. write_pieces out [''Sig: '', signature, [CHR 0x0A]]) out
       (meta_signatures m)) (\<lambda>out.
     bindR (case meta_deriver m of
         Some deriver \<Rightarrow> write_pieces out [''Deriver: '', deriver_narinfo_value deriver, [CHR 0x0A]]
       | None \<Rightarrow> Ok out) (\<lambda>out.
     case meta_content_address m of
         Some content_address \<Rightarrow> write_pieces out [''CA: '', content_address_str content_address, [CHR 0x0A]]
       | None \<Rightarrow> Ok out))))"

definition serialize :: "encodings \<Rightarrow> NarInfoMetadata \<Rightarrow> NarRepresentation \<Rightarrow> NarInfoError + bytes" where
  "serialize E m r =
    (if repr_identity r \<noteq> claims_identity (meta_claims m) then Err NarInfoError
     else metadata_write E m r [])"

end
