(* ===== verification/NarInfo_Trust.thy ===== *)
theory NarInfo_Trust
  imports NarInfo
begin

section \<open>Trusted keys, verification and binding (\<open>src/narinfo/trust.rs\<close>, \<open>src/narinfo.rs\<close>, \<open>src/narinfo_signing.rs\<close>)\<close>

text \<open>
  The states a narinfo passes through: unverified publication, validated by a trusted signature,
  bound to a stored archive.  The trust store is a \<open>BTreeMap\<close>, an association list sorted by name.
  The signing side reads a Nix secret key and signs fingerprints.
\<close>

subsection \<open>Ordered maps\<close>

text \<open>\<open>BTreeMap::insert\<close> and \<open>get\<close>, on an association list sorted by key.\<close>

fun btree_insert :: "'a::linorder \<Rightarrow> 'b \<Rightarrow> ('a \<times> 'b) list \<Rightarrow> 'b option \<times> ('a \<times> 'b) list" where
  "btree_insert k v [] = (None, [(k, v)])"
| "btree_insert k v ((k', v') # m) =
    (if k < k' then (None, (k, v) # (k', v') # m)
     else if k = k' then (Some v', (k, v) # m)
     else (let (old, m') = btree_insert k v m in (old, (k', v') # m')))"

subsection \<open>Publication states\<close>

record PublicationNarInfo =
  pub_metadata :: NarInfoMetadata
  pub_payload :: NarRepresentation

record 'g UnverifiedPublicationNarInfo =
  unverified_publication :: PublicationNarInfo
  unverified_signatures :: "'g NamedSignature list"

datatype ValidatedNarInfo = ValidatedNarInfo (validated_publication: PublicationNarInfo)

datatype TrustedNarInfoClaims = TrustedNarInfoClaims (trusted_claims: NarInfoClaims)

record SignatureVerifiedExternalNarInfo =
  external_publication :: ValidatedNarInfo
  external_download_url :: string

datatype PublishedNarInfoError = Malformed | UntrustedSignature

definition unverified_parse ::
    "encodings \<Rightarrow> ('k, 'g) externals \<Rightarrow> StoreHash \<Rightarrow> bytes \<Rightarrow> NarInfoError + 'g UnverifiedPublicationNarInfo" where
  "unverified_parse E X route bs =
    bindR (parse_narinfo_text bs) (\<lambda>text.
    bindR (document_parse text) (\<lambda>doc.
    bindR (metadata_from_document E route doc) (\<lambda>metadata.
    bindR (publication_payload E doc (claims_identity (meta_claims metadata))) (\<lambda>payload.
    bindR (named_signatures E X doc) (\<lambda>signatures.
      Ok \<lparr> unverified_publication = \<lparr> pub_metadata = metadata, pub_payload = payload \<rparr>,
           unverified_signatures = signatures \<rparr>)))))"

subsection \<open>The trust store\<close>

type_synonym 'k TrustedPublicKeys = "(string \<times> 'k) list"

datatype io_kind = IoNotFound | IoInvalidData | IoOther

datatype TrustError = InvalidTrustFile | TrustIo io_kind

definition MAX_TRUST_FILE_BYTES :: nat where
  "MAX_TRUST_FILE_BYTES = 1024 * 1024"

definition encoded_keys :: "encodings \<Rightarrow> ('k, 'g) externals \<Rightarrow> 'k TrustedPublicKeys \<Rightarrow> string list" where
  "encoded_keys E X keys =
    map (\<lambda>(name, key). name @ '':'' @ str_of (base64_encode E (key_as_bytes X key))) keys"

definition verifies ::
    "('k, 'g) externals \<Rightarrow> 'k TrustedPublicKeys \<Rightarrow> bytes \<Rightarrow> 'g NamedSignature list \<Rightarrow> bool" where
  "verifies X keys message signatures =
    list_ex (\<lambda>signature. case map_of keys (sig_name signature) of
        Some key \<Rightarrow> verify_strict X key message (sig_signature signature)
      | None \<Rightarrow> False) signatures"

definition verifies_signature ::
    "encodings \<Rightarrow> ('k, 'g) externals \<Rightarrow> 'k TrustedPublicKeys \<Rightarrow> bytes \<Rightarrow> string \<Rightarrow> bool" where
  "verifies_signature E X keys message signature =
    (case named_signature_parse E X signature of
       Inr parsed \<Rightarrow> verifies X keys message [parsed]
     | Inl _ \<Rightarrow> False)"

definition trust_entry ::
    "encodings \<Rightarrow> ('k, 'g) externals \<Rightarrow> 'k TrustedPublicKeys \<Rightarrow> string \<Rightarrow> TrustError + 'k TrustedPublicKeys" where
  "trust_entry E X keys entry =
    bindR (ok_or InvalidTrustFile (case split_once (CHR '':'') entry of
        Some (name, encoded) \<Rightarrow> if valid_name name \<and> encoded \<noteq> [] then Some (name, encoded) else None
      | None \<Rightarrow> None)) (\<lambda>(name, encoded).
    bindR (ok_or InvalidTrustFile (case base64_decode E (ascii encoded) of
        Some bs \<Rightarrow> if length bs = 32 then Some bs else None
      | None \<Rightarrow> None)) (\<lambda>bs.
    bindR (ok_or InvalidTrustFile (key_from_bytes X bs)) (\<lambda>key.
      if key_is_weak X key then Err InvalidTrustFile
      else (case btree_insert name key keys of
              (Some _, _) \<Rightarrow> Err InvalidTrustFile
            | (None, keys') \<Rightarrow> Ok keys'))))"

definition trust_parse ::
    "encodings \<Rightarrow> ('k, 'g) externals \<Rightarrow> string \<Rightarrow> TrustError + 'k TrustedPublicKeys" where
  "trust_parse E X contents =
    (if MAX_TRUST_FILE_BYTES < length contents then Err InvalidTrustFile
     else try_fold (trust_entry E X) [] (split_ascii_whitespace contents))"

text \<open>
  Loading the trust file: opening it, checking its permissions and reading it give an I/O result
  each; the contents are cut at one byte more than the limit and must be UTF-8.
\<close>

record trust_file =
  file_privacy :: "io_kind + unit"
  file_contents :: "io_kind + bytes"

definition trust_load ::
    "encodings \<Rightarrow> ('k, 'g) externals \<Rightarrow> io_kind + trust_file \<Rightarrow> TrustError + 'k TrustedPublicKeys" where
  "trust_load E X opened =
    (case opened of
       Inl IoNotFound \<Rightarrow> Ok []
     | Inl e \<Rightarrow> Err (TrustIo e)
     | Inr file \<Rightarrow>
        bindR (case file_privacy file of
            Inr () \<Rightarrow> Ok ()
          | Inl IoInvalidData \<Rightarrow> Err InvalidTrustFile
          | Inl e \<Rightarrow> Err (TrustIo e)) (\<lambda>_.
        bindR (map_err TrustIo (file_contents file)) (\<lambda>bs.
        bindR (ok_or (TrustIo IoInvalidData) (from_utf8 (take (MAX_TRUST_FILE_BYTES + 1) bs))) (\<lambda>contents.
          trust_parse E X contents))))"

definition verify_with ::
    "encodings \<Rightarrow> ('k, 'g) externals \<Rightarrow> 'g UnverifiedPublicationNarInfo \<Rightarrow> 'k TrustedPublicKeys
      \<Rightarrow> PublishedNarInfoError + ValidatedNarInfo" where
  "verify_with E X self trusted_keys =
    (if \<not> verifies X trusted_keys
          (ascii (fingerprint E (meta_claims (pub_metadata (unverified_publication self)))))
          (unverified_signatures self)
     then Err UntrustedSignature
     else Ok (ValidatedNarInfo (unverified_publication self)))"

definition inspect ::
    "encodings \<Rightarrow> ('k, 'g) externals \<Rightarrow> 'k TrustedPublicKeys \<Rightarrow> StoreHash \<Rightarrow> bytes
      \<Rightarrow> PublishedNarInfoError + ValidatedNarInfo" where
  "inspect E X keys route bs =
    bindR (map_err (\<lambda>_. Malformed) (unverified_parse E X route bs)) (\<lambda>narinfo. verify_with E X narinfo keys)"

definition validate ::
    "encodings \<Rightarrow> ('k, 'g) externals \<Rightarrow> 'k TrustedPublicKeys \<Rightarrow> StoreHash \<Rightarrow> bytes \<Rightarrow> NarInfoError + ValidatedNarInfo" where
  "validate E X keys route bs = map_err (\<lambda>_. NarInfoError) (inspect E X keys route bs)"

definition verify_external_document ::
    "encodings \<Rightarrow> ('k, 'g) externals \<Rightarrow> 'k TrustedPublicKeys \<Rightarrow> StoreHash \<Rightarrow> string
      \<Rightarrow> NarInfoError + (NarInfoDocument \<times> NarInfoClaims)" where
  "verify_external_document E X keys route text =
    bindR (document_parse_external text) (\<lambda>doc.
    bindR (validate_external_transport E X doc) (\<lambda>_.
    bindR (claims_from_external_document E route doc) (\<lambda>claims.
    bindR (named_signatures E X doc) (\<lambda>signatures.
      if \<not> verifies X keys (ascii (fingerprint E claims)) signatures then Err NarInfoError
      else Ok (doc, claims)))))"

definition verify_external_narinfo ::
    "encodings \<Rightarrow> ('k, 'g) externals \<Rightarrow> 'k TrustedPublicKeys \<Rightarrow> StoreHash \<Rightarrow> bytes
      \<Rightarrow> NarInfoError + TrustedNarInfoClaims" where
  "verify_external_narinfo E X keys route bs =
    bindR (parse_narinfo_text bs) (\<lambda>text.
    bindR (verify_external_document E X keys route text) (\<lambda>(_, claims).
      Ok (TrustedNarInfoClaims claims)))"

definition verify_external_narinfo_for_transfer ::
    "encodings \<Rightarrow> ('k, 'g) externals \<Rightarrow> 'k TrustedPublicKeys \<Rightarrow> StoreHash \<Rightarrow> bytes
      \<Rightarrow> NarInfoError + SignatureVerifiedExternalNarInfo" where
  "verify_external_narinfo_for_transfer E X keys route bs =
    bindR (parse_narinfo_text bs) (\<lambda>text.
    bindR (verify_external_document E X keys route text) (\<lambda>(doc, claims).
    bindR (from_document_claims E claims doc) (\<lambda>metadata.
    bindR (external_transport E doc (claims_identity (meta_claims metadata))) (\<lambda>transport.
      Ok \<lparr> external_publication = ValidatedNarInfo
             \<lparr> pub_metadata = metadata, pub_payload = transport_payload transport \<rparr>,
           external_download_url = transport_download_url transport \<rparr>))))"

subsection \<open>Binding to a stored archive\<close>

record 'v BoundNarInfo =
  bound_narinfo :: PublicationNarInfo
  bound_stored :: 'v
  bound_output :: NarRepresentation
  bound_writer :: "string option"

definition bind_to_stored_nar ::
    "('v \<Rightarrow> NarIdentity) \<Rightarrow> ValidatedNarInfo \<Rightarrow> 'v \<Rightarrow> NarRepresentation \<Rightarrow> NarInfoError + 'v BoundNarInfo" where
  "bind_to_stored_nar stored_identity self stored output =
    (if repr_identity (pub_payload (validated_publication self)) \<noteq> stored_identity stored then Err NarInfoError
     else Ok \<lparr> bound_narinfo = validated_publication self, bound_stored = stored,
               bound_output = output, bound_writer = None \<rparr>)"

definition output_bytes :: "encodings \<Rightarrow> 'v BoundNarInfo \<Rightarrow> NarInfoError + bytes" where
  "output_bytes E b = metadata_write E (pub_metadata (bound_narinfo b)) (bound_output b) []"

definition attributed_to :: "'v BoundNarInfo \<Rightarrow> string \<Rightarrow> 'v BoundNarInfo" where
  "attributed_to b writer = b\<lparr> bound_writer := Some writer \<rparr>"

subsection \<open>Signing\<close>

record ('k, 'g, 's) signing_key_ops =
  signing_from_seed :: "bytes \<Rightarrow> 's"
  signing_verifying_key :: "'s \<Rightarrow> 'k"
  sign_message :: "'s \<Rightarrow> bytes \<Rightarrow> 'g"
  signature_to_bytes :: "'g \<Rightarrow> bytes"

record 's NixSigningKey =
  signing_name :: string
  signing_key :: 's

datatype SigningKeyError = KeyUnreadable | KeyEmpty | KeyMultiple | KeyInvalid | KeyLength | KeyPublicHalf

definition signing_key_read ::
    "encodings \<Rightarrow> ('k, 'g) externals \<Rightarrow> ('k, 'g, 's) signing_key_ops \<Rightarrow> string option
      \<Rightarrow> SigningKeyError + 's NixSigningKey" where
  "signing_key_read E X S file =
    bindR (ok_or KeyUnreadable file) (\<lambda>contents.
    case split_ascii_whitespace contents of
      [] \<Rightarrow> Err KeyEmpty
    | _ # _ # _ \<Rightarrow> Err KeyMultiple
    | [key] \<Rightarrow>
      bindR (ok_or KeyInvalid (case split_once (CHR '':'') key of
          Some (name, secret) \<Rightarrow> if valid_name name \<and> secret \<noteq> [] then Some (name, secret) else None
        | None \<Rightarrow> None)) (\<lambda>(name, encoded_secret).
      bindR (ok_or KeyInvalid (base64_decode E (ascii encoded_secret))) (\<lambda>secret.
      if length secret \<noteq> 64 then Err KeyLength else
      let seed = take 32 secret; signing = signing_from_seed S seed in
      if key_as_bytes X (signing_verifying_key S signing) \<noteq> drop 32 secret then Err KeyPublicHalf
      else Ok \<lparr> signing_name = name, signing_key = signing \<rparr>)))"

definition sign_fingerprint :: "encodings \<Rightarrow> ('k, 'g, 's) signing_key_ops \<Rightarrow> 's NixSigningKey \<Rightarrow> string \<Rightarrow> string" where
  "sign_fingerprint E S k message =
    (let signature = sign_message S (signing_key k) (ascii message) in
     signing_name k @ '':'' @ str_of (base64_encode E (signature_to_bytes S signature)))"

end
