(* ===== verification/NarInfo_Correct.thy ===== *)
theory NarInfo_Correct
  imports NarInfo_Trust
begin

section \<open>Correctness of narinfo parsing, fingerprints and serialisation\<close>

text \<open>
  The invariants of store paths, claims and metadata and that every constructor establishes them; the
  fingerprint as an injective encoding of the logical claims; what a document holds in terms of its
  lines; and that serialised metadata parses back to itself.
\<close>

subsection \<open>Store paths\<close>

definition path_wf :: "NixStorePath \<Rightarrow> bool" where
  "path_wf p = (\<exists>name. store_hash_wf (path_store p) \<and> store_name_ok name
     \<and> path_value p = store_dir @ store_hash_str (path_store p) @ CHR ''-'' # name)"

lemma store_path_parse_iff: "store_path_parse s = Ok p \<longleftrightarrow> path_wf p \<and> path_value p = s"
proof -
  have "store_path_parse s = Ok p \<longleftrightarrow>
      (\<exists>b h n. s = store_dir @ b \<and> validate_store_basename b = Ok (h, n) \<and> p = \<lparr> path_value = s, path_store = h \<rparr>)"
    by (auto simp: store_path_parse_def narinfo_validate_store_basename_def run_simps)
  also have "\<dots> \<longleftrightarrow> path_wf p \<and> path_value p = s"
    by (cases p) (auto simp: path_wf_def validate_store_basename_iff)
  finally show ?thesis .
qed

lemma basename_defined:
  assumes "path_wf p"
  shows "strip_prefix store_dir (path_value p) = Some (basename p)" "path_value p = store_dir @ basename p"
  using assms by (auto simp: path_wf_def basename_def)

lemma from_basename_iff: "from_basename s = Ok p \<longleftrightarrow> path_wf p \<and> basename p = s"
  using basename_defined [of p] by (auto simp: from_basename_def store_path_parse_iff)

lemma path_eqI: "path_wf p \<Longrightarrow> path_wf q \<Longrightarrow> path_value p = path_value q \<Longrightarrow> p = q"
  using store_path_parse_iff [of "path_value p" p] store_path_parse_iff [of "path_value p" q] by simp

lemma inj_on_path_value: "(\<And>p. p \<in> S \<Longrightarrow> path_wf p) \<Longrightarrow> inj_on path_value S"
  by (auto intro!: inj_onI path_eqI)

lemma basename_split:
  "path_wf p \<Longrightarrow> split_once (CHR ''-'') (basename p) \<noteq> None
    \<and> length (fst (the (split_once (CHR ''-'') (basename p)))) = 32"
proof -
  assume p: "path_wf p"
  then obtain n where n: "basename p = store_hash_str (path_store p) @ CHR ''-'' # n" "store_hash_wf (path_store p)"
    by (auto simp: path_wf_def basename_def)
  then have "split_once (CHR ''-'') (basename p) = Some (store_hash_str (path_store p), n)"
    by (simp add: split_once_Some store_hash_no_dash)
  then show ?thesis using n(2) by (simp add: store_hash_wf_def valid_nix32_def)
qed

lemma basename_not_unknown: "path_wf p \<Longrightarrow> basename p \<noteq> ''unknown-deriver''"
  using basename_split [of p] by auto

lemma basename_chars: "path_wf p \<Longrightarrow> c \<in> set (basename p) \<Longrightarrow> store_name_char c"
  using store_hash_chars [of "path_store p"] NIX32_store_name_char store_name_ok_chars
  by (auto simp: path_wf_def basename_def) (auto simp: store_name_char_def)

lemma basename_nonempty [simp]: "path_wf p \<Longrightarrow> basename p \<noteq> []"
  by (auto simp: path_wf_def basename_def)

lemma not_store_name_char [simp]:
  "\<not> store_name_char (CHR '';'')" "\<not> store_name_char (CHR '','')" "\<not> store_name_char (CHR '' '')"
  "\<not> store_name_char (CHR 0x0A)" "\<not> store_name_char (CHR 0x0D)"
  by (simp_all add: store_name_char_def ascii_alphanumeric_def ascii_digit_def)

lemma basename_not_in: "path_wf p \<Longrightarrow> \<not> store_name_char c \<Longrightarrow> c \<notin> set (basename p)"
  using basename_chars by blast

lemma path_value_chars:
  assumes "path_wf p"
  shows "CHR '';'' \<notin> set (path_value p)" "CHR '','' \<notin> set (path_value p)"
    "CHR 0x0A \<notin> set (path_value p)" "CHR 0x0D \<notin> set (path_value p)" "is_ascii (path_value p)"
  using basename_chars [OF assms] store_name_char_ascii unfolding basename_defined(2) [OF assms]
  by (simp_all add: is_ascii_def basename_not_in [OF assms])

subsection \<open>Claims\<close>

definition references_wf :: "NixStorePath list \<Rightarrow> bool" where
  "references_wf rs = ((\<forall>p \<in> set rs. path_wf p) \<and> sorted_wrt (<) (map path_value rs))"

definition claims_wf :: "NarInfoClaims \<Rightarrow> bool" where
  "claims_wf c = (path_wf (claims_store_path c) \<and> references_wf (claims_references c)
     \<and> content_wf (claims_identity c))"

lemma sort_dedup_references: "(\<And>p. p \<in> set rs \<Longrightarrow> path_wf p) \<Longrightarrow> references_wf (sort_dedup path_value rs)"
  using sort_dedup_subset [of path_value rs] sort_dedup_sorted [of path_value rs]
  by (auto simp: references_wf_def)

lemma traverse_list_all: "traverse_list f xs = Ok ys \<Longrightarrow> y \<in> set ys \<Longrightarrow> \<exists>x \<in> set xs. f x = Ok y"
  by (force simp: traverse_list_Inr_iff list_all2_conv_all_nth in_set_conv_nth)

lemma claims_new_wf:
  "claims_new sp rs i = Ok c \<Longrightarrow> content_wf i \<Longrightarrow> claims_wf c \<and> path_value (claims_store_path c) = sp
    \<and> path_value ` set (claims_references c) = set rs \<and> claims_identity c = i"
proof -
  assume c: "claims_new sp rs i = Ok c" and i: "content_wf i"
  then obtain p ps where p: "store_path_parse sp = Ok p" and ps: "traverse_list store_path_parse rs = Ok ps"
      and c': "c = \<lparr> claims_store_path = p, claims_references = sort_dedup path_value ps, claims_identity = i \<rparr>"
    by (auto simp: claims_new_def run_simps)
  have all: "list_all2 (\<lambda>s q. path_wf q \<and> path_value q = s) rs ps"
    using ps by (simp add: traverse_list_Inr_iff store_path_parse_iff)
  have wf: "\<And>q. q \<in> set ps \<Longrightarrow> path_wf q"
    using traverse_list_all [OF ps] by (auto simp: store_path_parse_iff)
  from all have "map path_value ps = rs"
    by (auto simp: list_all2_conv_all_nth intro!: nth_equalityI)
  then have "path_value ` set ps = set rs" by auto
  then show ?thesis
    using p i wf c' sort_dedup_references [of ps] by (simp add: claims_wf_def store_path_parse_iff sort_dedup_set)
qed

lemma parse_references_wf:
  assumes "parse_references s = Ok rs"
  shows "references_wf rs"
proof (cases "s = []")
  case True
  with assms show ?thesis by (simp add: parse_references_def references_wf_def)
next
  case False
  with assms obtain ps where ps: "traverse_list from_basename (str_split (CHR '' '') s) = Ok ps"
      and rs: "rs = sort_dedup path_value ps"
    by (auto simp: parse_references_def run_simps)
  have "path_wf p" if "p \<in> set ps" for p
    using traverse_list_all [OF ps that] by (auto simp: from_basename_iff)
  then show ?thesis unfolding rs by (rule sort_dedup_references)
qed

lemma parse_references_field:
  assumes "references_wf rs"
  shows "parse_references (join '' '' (map basename rs)) = Ok rs"
proof (cases "rs = []")
  case True
  then show ?thesis by (simp add: parse_references_def)
next
  case False
  have wf: "\<And>p. p \<in> set rs \<Longrightarrow> path_wf p" using assms by (simp add: references_wf_def)
  have "str_split (CHR '' '') (join '' '' (map basename rs)) = map basename rs"
    by (rule str_split_join) (use False wf basename_not_in in auto)
  moreover have "traverse_list from_basename (map basename rs) = Ok rs"
    using wf by (auto simp: traverse_list_Inr_iff list_all2_conv_all_nth from_basename_iff)
  moreover have "join '' '' (map basename rs) \<noteq> []"
  proof -
    obtain p ps where "rs = p # ps" using False by (cases rs) auto
    with wf [of p] show ?thesis by (cases ps) auto
  qed
  moreover have "sort_dedup path_value rs = rs"
    using assms by (intro sort_dedup_id) (simp add: references_wf_def)
  ultimately show ?thesis by (simp add: parse_references_def)
qed

subsection \<open>The fingerprint is an injective encoding of the claims\<close>

lemma push_references_join:
  "push_references fp i rs =
    fp @ (if i \<noteq> 0 \<and> rs \<noteq> [] then '','' else []) @ join '','' (map (append store_dir) rs)"
proof (induction fp i rs rule: push_references.induct)
  case (2 fp i r rs)
  then show ?case by (cases rs) (simp_all del: append_Cons)
qed simp

lemma fingerprint_eq:
  "fingerprint E c = ''1;'' @ path_value (claims_store_path c) @ '';sha256:''
     @ digest_display E (content_hash (claims_identity c)) @ '';''
     @ u64_to_string (count_get (content_size (claims_identity c))) @ '';''
     @ join '','' (map (append store_dir \<circ> basename) (claims_references c))"
  by (simp add: fingerprint_def build_fingerprint_def push_references_join reference_basenames_def)

lemma reference_values: "references_wf rs \<Longrightarrow> map (append store_dir \<circ> basename) rs = map path_value rs"
  using basename_defined(2) by (auto simp: references_wf_def)

lemma references_eqI:
  assumes "references_wf rs" "references_wf ss" "map path_value rs = map path_value ss"
  shows "rs = ss"
proof (rule map_inj_on [OF assms(3)])
  show "inj_on path_value (set rs \<union> set ss)"
    by (rule inj_on_path_value) (use assms in \<open>auto simp: references_wf_def\<close>)
qed

lemma join_references_inj:
  assumes rs: "references_wf rs" and ss: "references_wf ss"
    and eq: "join '','' (map path_value rs) = join '','' (map path_value ss)"
  shows "rs = ss"
proof -
  have wf: "\<And>p. p \<in> set rs \<union> set ss \<Longrightarrow> path_wf p" using rs ss by (auto simp: references_wf_def)
  have nonempty: "join '','' (map path_value qs) = [] \<longleftrightarrow> qs = []" if "set qs \<subseteq> set rs \<union> set ss" for qs
    using that wf basename_defined(2) by (cases qs; cases "tl qs") auto
  show ?thesis
  proof (cases "rs = []")
    case True
    then show ?thesis using eq nonempty [of ss] by simp
  next
    case False
    then have "ss \<noteq> []" using eq nonempty [of rs] by auto
    have "map path_value rs = map path_value ss"
      by (rule join_inj [OF eq]) (use False \<open>ss \<noteq> []\<close> wf path_value_chars(2) in auto)
    then show ?thesis by (rule references_eqI [OF rs ss])
  qed
qed

lemma NIX32_no_semicolon [simp]: "CHR '';'' \<notin> set NIX32" "CHR 0x0A \<notin> set NIX32" "CHR 0x0D \<notin> set NIX32"
  by (simp_all add: NIX32_def)

lemma decimal_chars:
  "CHR '';'' \<notin> set (u64_to_string n)" "CHR 0x0A \<notin> set (u64_to_string n)" "CHR 0x0D \<notin> set (u64_to_string n)"
  "is_ascii (u64_to_string n)"
  using u64_to_string_digits [of _ n] by (fastforce simp: ascii_digit_def is_ascii_def)+

lemma fingerprint_inj:
  assumes E: "nix32_of E" and c: "claims_wf c" and d: "claims_wf d"
    and eq: "fingerprint E c = fingerprint E d"
  shows "c = d"
proof -
  let ?sp = "\<lambda>c. path_value (claims_store_path c)"
  let ?h = "\<lambda>c. digest_display E (content_hash (claims_identity c))"
  let ?n = "\<lambda>c. count_get (content_size (claims_identity c))"
  have cwf: "path_wf (claims_store_path c)" "references_wf (claims_references c)" "content_wf (claims_identity c)"
    and dwf: "path_wf (claims_store_path d)" "references_wf (claims_references d)" "content_wf (claims_identity d)"
    using c d by (simp_all add: claims_wf_def)
  have no_semi: "CHR '';'' \<notin> set (?h e)" for e
    using digest_display_chars [OF E] NIX32_no_semicolon(1) by blast
  have "?sp c @ CHR '';'' # ''sha256:'' @ ?h c @ CHR '';'' # u64_to_string (?n c) @ CHR '';'' # join '','' (map path_value (claims_references c))
      = ?sp d @ CHR '';'' # ''sha256:'' @ ?h d @ CHR '';'' # u64_to_string (?n d) @ CHR '';'' # join '','' (map path_value (claims_references d))"
    using eq unfolding fingerprint_eq reference_values [OF cwf(2)] reference_values [OF dwf(2)] by simp
  then have sp: "?sp c = ?sp d" and h: "?h c = ?h d" and n: "u64_to_string (?n c) = u64_to_string (?n d)"
      and r: "join '','' (map path_value (claims_references c)) = join '','' (map path_value (claims_references d))"
    by (simp_all add: append_sep_eq_iff path_value_chars cwf(1) dwf(1) no_semi decimal_chars)
  have "claims_store_path c = claims_store_path d" by (rule path_eqI [OF cwf(1) dwf(1) sp])
  moreover have "content_hash (claims_identity c) = content_hash (claims_identity d)"
    using h cwf(3) dwf(3) digest_parse_display [OF E] by (metis content_wf_def sum.inject(2))
  moreover have "content_size (claims_identity c) = content_size (claims_identity d)"
    using u64_to_string_inj [OF _ _ n] cwf(3) dwf(3) by (simp add: content_wf_def ByteCount.expand)
  moreover have "claims_references c = claims_references d" by (rule join_references_inj [OF cwf(2) dwf(2) r])
  ultimately show ?thesis by simp
qed

subsection \<open>What a document holds\<close>

definition slot_list :: "'a option \<Rightarrow> 'a list" where
  "slot_list x = (case x of None \<Rightarrow> [] | Some v \<Rightarrow> [v])"

text \<open>The values of the lines whose name stands for a field, in the order of the lines.\<close>

definition line_value :: "NarInfoLineField \<Rightarrow> string \<Rightarrow> string option" where
  "line_value f line = (case split_once_str '': '' line of
     Some (name, value) \<Rightarrow> if line_field_parse name = Some f then Some value else None
   | None \<Rightarrow> None)"

definition field_values :: "NarInfoLineField \<Rightarrow> string list \<Rightarrow> string list" where
  "field_values f lines = List.map_filter (line_value f) lines"

definition line_ok :: "UnknownFieldHandling \<Rightarrow> string \<Rightarrow> bool" where
  "line_ok u line = (case split_once_str '': '' line of
     Some (name, value) \<Rightarrow> u = Ignore \<or> line_field_parse name \<noteq> None
   | None \<Rightarrow> False)"

lemma field_values_simps [simp]:
  "field_values f [] = []"
  "field_values f (l # ls) = slot_list (line_value f l) @ field_values f ls"
  by (simp_all add: field_values_def List.map_filter_simps slot_list_def split: option.splits)

lemma field_values_append: "field_values f (ls @ ms) = field_values f ls @ field_values f ms"
  by (induction ls) auto

lemma slot_list_simps [simp]: "slot_list None = []" "slot_list (Some v) = [v]"
  by (simp_all add: slot_list_def)

lemma slot_list_inject: "slot_list x = slot_list y \<longleftrightarrow> x = y"
  by (cases x; cases y) auto

lemma slot_list_append:
  "slot_list x = slot_list y @ zs @ ws \<Longrightarrow> \<exists>m. slot_list m = slot_list y @ zs"
  by (cases x; cases y; cases zs) (auto intro: exI [of _ None] exI [of _ "Some _"])

lemma set_once_iff: "set_once x v = Ok y \<longleftrightarrow> slot_list y = slot_list x @ [v]"
  by (cases x; cases y) (auto simp: set_once_def)

lemma record_line_iff:
  "record_line u d l = Ok e \<longleftrightarrow> line_ok u l
    \<and> (\<forall>f. slot_list (doc_fields e f) = slot_list (doc_fields d f) @ slot_list (line_value (Unique f) l))
    \<and> signature_values e = signature_values d @ slot_list (line_value SignatureLine l)"
proof (cases "split_once_str '': '' l")
  case None
  then show ?thesis by (simp add: record_line_def line_ok_def)
next
  case (Some p)
  obtain name v where p: "p = (name, v)" by force
  have same: "(\<forall>f. slot_list (doc_fields e f) = slot_list (doc_fields d f)) \<longleftrightarrow> doc_fields e = doc_fields d"
    by (auto simp: slot_list_inject)
  show ?thesis
  proof (cases "line_field_parse name")
    case None
    with Some p same show ?thesis
      by (cases u) (auto simp: record_line_def line_ok_def line_value_def)
  next
    case field: (Some field)
    show ?thesis
    proof (cases field)
      case SignatureLine
      with Some p field same show ?thesis
        by (auto simp: record_line_def line_ok_def line_value_def record_field_def)
    next
      case (Unique g)
      have "record_line u d l = Ok e \<longleftrightarrow>
          (\<exists>s. slot_list s = slot_list (doc_fields d g) @ [v] \<and> e = d\<lparr> doc_fields := (doc_fields d)(g := s) \<rparr>)"
        using Some p field Unique by (auto simp: record_line_def record_field_def run_simps set_once_iff)
      also have "\<dots> \<longleftrightarrow> (\<forall>f. slot_list (doc_fields e f) = slot_list (doc_fields d f) @ (if f = g then [v] else []))
          \<and> signature_values e = signature_values d" (is "?L \<longleftrightarrow> ?R")
      proof
        assume ?R
        then have "doc_fields e f = ((doc_fields d)(g := doc_fields e g)) f" for f
          using slot_list_inject [of "doc_fields e f" "doc_fields d f"] by (cases "f = g") simp_all
        then have "doc_fields e = (doc_fields d)(g := doc_fields e g)" by (rule ext)
        with \<open>?R\<close> show ?L by (intro exI [of _ "doc_fields e g"]) auto
      qed auto
      finally show ?thesis
        using Some p field Unique by (auto simp: line_ok_def line_value_def)
    qed
  qed
qed

lemma ex_conj_pull: "(\<exists>m. (a \<and> P m) \<and> b \<and> Q m) \<longleftrightarrow> a \<and> b \<and> (\<exists>m. P m \<and> Q m)"
  by blast

lemma record_lines_iff:
  "try_fold (record_line u) d ls = Ok e \<longleftrightarrow> list_all (line_ok u) ls
    \<and> (\<forall>f. slot_list (doc_fields e f) = slot_list (doc_fields d f) @ field_values (Unique f) ls)
    \<and> signature_values e = signature_values d @ field_values SignatureLine ls"
proof (induction ls arbitrary: d)
  case Nil
  have "(\<forall>f. slot_list (doc_fields e f) = slot_list (doc_fields d f)) \<longleftrightarrow> doc_fields e = doc_fields d"
    by (auto simp: slot_list_inject)
  then show ?case by auto
next
  case (Cons l ls)
  let ?P = "\<lambda>m :: NarInfoDocument. (\<forall>f. slot_list (doc_fields m f) = slot_list (doc_fields d f) @ slot_list (line_value (Unique f) l))
    \<and> signature_values m = signature_values d @ slot_list (line_value SignatureLine l)"
  let ?Q = "\<lambda>m :: NarInfoDocument. (\<forall>f. slot_list (doc_fields e f) = slot_list (doc_fields m f) @ field_values (Unique f) ls)
    \<and> signature_values e = signature_values m @ field_values SignatureLine ls"
  have "try_fold (record_line u) d (l # ls) = Ok e \<longleftrightarrow>
      line_ok u l \<and> list_all (line_ok u) ls \<and> (\<exists>m. ?P m \<and> ?Q m)"
    by (simp only: try_fold.simps bindR_Inr_iff record_line_iff Cons.IH ex_conj_pull)
  also have "(\<exists>m. ?P m \<and> ?Q m) \<longleftrightarrow>
      (\<forall>f. slot_list (doc_fields e f) = slot_list (doc_fields d f) @ field_values (Unique f) (l # ls))
      \<and> signature_values e = signature_values d @ field_values SignatureLine (l # ls)" (is "?L \<longleftrightarrow> ?R")
  proof
    assume R: ?R
    then have "\<forall>f. \<exists>s. slot_list s = slot_list (doc_fields d f) @ slot_list (line_value (Unique f) l)"
      using slot_list_append by fastforce
    then obtain g where "\<forall>f. slot_list (g f) = slot_list (doc_fields d f) @ slot_list (line_value (Unique f) l)"
      by metis
    with R show ?L
      by (intro exI [of _ "\<lparr> doc_fields = g, signature_values = signature_values d @ slot_list (line_value SignatureLine l) \<rparr>"]) auto
  qed auto
  finally show ?case by auto
qed

lemma document_lines_iff:
  "parse_with_unknown_fields text u = Ok d \<longleftrightarrow> (\<exists>body. text = body @ [CHR 0x0A]
    \<and> list_all (line_ok u) (str_split (CHR 0x0A) body)
    \<and> (\<forall>f. slot_list (doc_fields d f) = field_values (Unique f) (str_split (CHR 0x0A) body))
    \<and> signature_values d = field_values SignatureLine (str_split (CHR 0x0A) body))"
  by (auto simp: parse_with_unknown_fields_def run_simps record_lines_iff empty_document_def)

end
