(* ===== verification/NarInfo_Serialize.thy ===== *)
theory NarInfo_Serialize
  imports NarInfo_Correct
begin

section \<open>Serialised narinfo: exact bytes, bounds, and the way back\<close>

text \<open>
  The bounded writer produces either the complete document or an error; the document it produces
  parses back to the same metadata, payload and signatures.
\<close>

subsection \<open>The bounded writer\<close>

definition bounded_append :: "bytes \<Rightarrow> string \<Rightarrow> NarInfoError + bytes" where
  "bounded_append out s = (if length out + length s \<le> MAX_NARINFO_BYTES then Ok (out @ ascii s) else Err NarInfoError)"

lemma ascii_append [simp]: "ascii (a @ b) = ascii a @ ascii b"
  by (simp add: ascii_def)

lemma MAX_NARINFO_u64: "MAX_NARINFO_BYTES \<le> u64_max"
  by (simp add: MAX_NARINFO_BYTES_def u64_max_def)

lemma bounded_write_append: "bounded_write out p = bounded_append out p"
  using MAX_NARINFO_u64 by (auto simp: bounded_write_def bounded_append_def checked_add_u64_def)

lemma bounded_append_bind:
  "bindR (bounded_append out a) (\<lambda>o'. bounded_append o' b) = bounded_append out (a @ b)"
  by (auto simp: bounded_append_def)

lemma bounded_append_Nil: "length out \<le> MAX_NARINFO_BYTES \<Longrightarrow> bounded_append out [] = Ok out"
  by (simp add: bounded_append_def)

lemma write_pieces_append: "p \<noteq> [] \<Longrightarrow> write_pieces out p = bounded_append out (concat p)"
proof (induction p arbitrary: out)
  case (Cons x p)
  show ?case
  proof (cases "p = []")
    case True
    then show ?thesis by (simp add: write_pieces_def bounded_write_append bindR_def split: sum.splits)
  next
    case False
    have "write_pieces out (x # p) = bindR (bounded_append out x) (\<lambda>o'. write_pieces o' p)"
      by (simp add: write_pieces_def bounded_write_append)
    then show ?thesis using Cons.IH False by (simp add: bounded_append_bind)
  qed
qed simp

text \<open>The lines of a serialised document, as names and values.\<close>

definition lines_text :: "(string \<times> string) list \<Rightarrow> string" where
  "lines_text kvs = concat (map (\<lambda>(k, v). k @ '': '' @ v @ [CHR 0x0A]) kvs)"

definition narinfo_head :: "encodings \<Rightarrow> NarInfoMetadata \<Rightarrow> NarRepresentation \<Rightarrow> (string \<times> string) list" where
  "narinfo_head E m r =
    [(''StorePath'', path_value (claims_store_path (meta_claims m))),
     (''URL'', ''nar/'' @ file_name_display E (repr_file_name r)),
     (''Compression'', compression (file_name_encoding (repr_file_name r))),
     (''FileHash'', ''sha256:'' @ digest_display E (file_name_hash (repr_file_name r))),
     (''FileSize'', count_display (repr_encoded_size r)),
     (''NarHash'', ''sha256:'' @ digest_display E (content_hash (claims_identity (meta_claims m)))),
     (''NarSize'', count_display (content_size (claims_identity (meta_claims m)))),
     (''References'', references_field (meta_claims m))]"

definition narinfo_lines :: "encodings \<Rightarrow> NarInfoMetadata \<Rightarrow> NarRepresentation \<Rightarrow> (string \<times> string) list" where
  "narinfo_lines E m r = narinfo_head E m r
    @ map (\<lambda>s. (''Sig'', s)) (meta_signatures m)
    @ map (\<lambda>d. (''Deriver'', deriver_narinfo_value d)) (slot_list (meta_deriver m))
    @ map (\<lambda>a. (''CA'', content_address_str a)) (slot_list (meta_content_address m))"

lemma lines_text_append: "lines_text (a @ b) = lines_text a @ lines_text b"
  by (simp add: lines_text_def)

lemma bindR_bounded_cong:
  assumes "\<And>o'. length o' \<le> MAX_NARINFO_BYTES \<Longrightarrow> f o' = g o'"
  shows "bindR (bounded_append out a) f = bindR (bounded_append out a) g"
  using assms by (auto simp: bounded_append_def)

lemma write_signatures:
  "length out \<le> MAX_NARINFO_BYTES \<Longrightarrow>
    try_fold (\<lambda>out signature. write_pieces out [''Sig: '', signature, [CHR 0x0A]]) out sigs
      = bounded_append out (lines_text (map (\<lambda>s. (''Sig'', s)) sigs))"
proof (induction sigs arbitrary: out)
  case Nil
  then show ?case by (simp add: lines_text_def bounded_append_Nil)
next
  case (Cons s sigs)
  let ?f = "\<lambda>out signature. write_pieces out [''Sig: '', signature, [CHR 0x0A]]"
  let ?rest = "lines_text (map (\<lambda>s. (''Sig'', s)) sigs)"
  have w: "?f out s = bounded_append out (lines_text [(''Sig'', s)])"
    by (simp add: write_pieces_append lines_text_def)
  have "try_fold ?f out (s # sigs) = bindR (bounded_append out (lines_text [(''Sig'', s)])) (\<lambda>o'. try_fold ?f o' sigs)"
    by (simp only: try_fold.simps w)
  also have "\<dots> = bindR (bounded_append out (lines_text [(''Sig'', s)])) (\<lambda>o'. bounded_append o' ?rest)"
    by (rule bindR_bounded_cong) (rule Cons.IH)
  also have "\<dots> = bounded_append out (lines_text ([(''Sig'', s)] @ map (\<lambda>s. (''Sig'', s)) sigs))"
    by (simp only: bounded_append_bind lines_text_append)
  finally show ?case by (simp only: list.map append_Cons append_Nil)
qed

lemma bounded_append_bind_assoc:
  "bindR (bounded_append out a) (\<lambda>o'. bindR (bounded_append o' b) f) = bindR (bounded_append out (a @ b)) f"
  by (auto simp: bounded_append_def)

lemma metadata_write_lines:
  "metadata_write E m r [] = bounded_append [] (lines_text (narinfo_lines E m r))"
proof -
  let ?sigs = "map (\<lambda>s. (''Sig'', s)) (meta_signatures m)"
  let ?der = "map (\<lambda>d. (''Deriver'', deriver_narinfo_value d)) (slot_list (meta_deriver m))"
  let ?ca = "map (\<lambda>a. (''CA'', content_address_str a)) (slot_list (meta_content_address m))"
  have d: "(case meta_deriver m of Some deriver \<Rightarrow> write_pieces o' [''Deriver: '', deriver_narinfo_value deriver, [CHR 0x0A]]
        | None \<Rightarrow> Ok o') = bounded_append o' (lines_text ?der)" if "length o' \<le> MAX_NARINFO_BYTES" for o'
    using that by (simp add: write_pieces_append lines_text_def bounded_append_Nil split: option.splits)
  have c: "(case meta_content_address m of Some a \<Rightarrow> write_pieces o' [''CA: '', content_address_str a, [CHR 0x0A]]
        | None \<Rightarrow> Ok o') = bounded_append o' (lines_text ?ca)" if "length o' \<le> MAX_NARINFO_BYTES" for o'
    using that by (simp add: write_pieces_append lines_text_def bounded_append_Nil split: option.splits)
  have w: "metadata_write E m r [] = bindR (bounded_append [] (lines_text (narinfo_head E m r))) (\<lambda>o'.
      bindR (try_fold (\<lambda>out signature. write_pieces out [''Sig: '', signature, [CHR 0x0A]]) o' (meta_signatures m)) (\<lambda>o'.
      bindR (case meta_deriver m of Some deriver \<Rightarrow> write_pieces o' [''Deriver: '', deriver_narinfo_value deriver, [CHR 0x0A]]
        | None \<Rightarrow> Ok o') (\<lambda>o'.
      case meta_content_address m of Some a \<Rightarrow> write_pieces o' [''CA: '', content_address_str a, [CHR 0x0A]]
        | None \<Rightarrow> Ok o')))"
    unfolding metadata_write_def Let_def
    by (rule arg_cong [where f = "\<lambda>x. bindR x _"]) (simp add: write_pieces_append narinfo_head_def lines_text_def)
  have "metadata_write E m r [] = bindR (bounded_append [] (lines_text (narinfo_head E m r))) (\<lambda>o'.
      bindR (bounded_append o' (lines_text ?sigs)) (\<lambda>o'.
      bindR (bounded_append o' (lines_text ?der)) (\<lambda>o'. bounded_append o' (lines_text ?ca))))"
    unfolding w
    by (rule bindR_bounded_cong, subst write_signatures, assumption,
        rule bindR_bounded_cong, subst d, assumption, rule bindR_bounded_cong, rule c)
  also have "\<dots> = bounded_append [] (lines_text (narinfo_head E m r @ ?sigs @ ?der @ ?ca))"
    by (simp only: bounded_append_bind_assoc bounded_append_bind lines_text_append append_assoc)
  also have "narinfo_head E m r @ ?sigs @ ?der @ ?ca = narinfo_lines E m r" by (simp only: narinfo_lines_def append_assoc)
  finally show ?thesis .
qed

subsection \<open>Parsing lines back\<close>

definition text_char :: "char \<Rightarrow> bool" where
  "text_char c = (c \<noteq> CHR 0x0A \<and> c \<noteq> CHR 0x0D \<and> of_char c < (128 :: nat))"

abbreviation text_ok :: "string \<Rightarrow> bool" where
  "text_ok s \<equiv> list_all text_char s"

definition line_of :: "string \<times> string \<Rightarrow> string" where
  "line_of kv = fst kv @ '': '' @ snd kv"

definition line_wf :: "string \<times> string \<Rightarrow> bool" where
  "line_wf kv = (text_ok (fst kv) \<and> CHR '':'' \<notin> set (fst kv) \<and> line_field_parse (fst kv) \<noteq> None \<and> text_ok (snd kv))"

definition kv_values :: "NarInfoLineField \<Rightarrow> (string \<times> string) list \<Rightarrow> string list" where
  "kv_values f kvs = concat (map (\<lambda>(k, v). if line_field_parse k = Some f then [v] else []) kvs)"

lemma kv_values_simps [simp]:
  "kv_values f [] = []"
  "kv_values f ((k, v) # kvs) = (if line_field_parse k = Some f then v # kv_values f kvs else kv_values f kvs)"
  "kv_values f (a @ b) = kv_values f a @ kv_values f b"
  by (simp_all add: kv_values_def)

lemma text_ok_no_newline: "text_ok s \<Longrightarrow> CHR 0x0A \<notin> set s" "text_ok s \<Longrightarrow> CHR 0x0D \<notin> set s" "text_ok s \<Longrightarrow> is_ascii s"
  by (auto simp: list_all_iff text_char_def is_ascii_def)

lemma split_line_of: "line_wf kv \<Longrightarrow> split_once_str '': '' (line_of kv) = Some kv"
  using split_once_str_first [of "CHR '':''" "fst kv" "'' ''" "snd kv"]
  by (simp add: line_of_def line_wf_def)

lemma line_of_facts:
  assumes "line_wf kv"
  shows "line_ok u (line_of kv)" "slot_list (line_value f (line_of kv)) = kv_values f [kv]"
    "CHR 0x0A \<notin> set (line_of kv)"
proof -
  obtain k v where kv: "kv = (k, v)" by force
  show "line_ok u (line_of kv)" "slot_list (line_value f (line_of kv)) = kv_values f [kv]"
    using split_line_of [OF assms] assms by (auto simp: kv line_ok_def line_value_def line_wf_def)
  show "CHR 0x0A \<notin> set (line_of kv)"
    using assms text_ok_no_newline(1) by (auto simp: kv line_of_def line_wf_def)
qed

lemma lines_text_join: "kvs \<noteq> [] \<Longrightarrow> lines_text kvs = join [CHR 0x0A] (map line_of kvs) @ [CHR 0x0A]"
proof (induction kvs)
  case (Cons kv kvs)
  obtain k v where kv: "kv = (k, v)" by force
  show ?case
  proof (cases kvs)
    case Nil
    then show ?thesis by (simp add: kv lines_text_def line_of_def)
  next
    case (Cons x xs)
    with Cons.IH have "lines_text kvs = join [CHR 0x0A] (map line_of kvs) @ [CHR 0x0A]" by simp
    moreover have "lines_text (kv # kvs) = line_of kv @ [CHR 0x0A] @ lines_text kvs"
      by (simp add: kv lines_text_def line_of_def)
    ultimately show ?thesis using Cons by simp
  qed
qed simp

lemma field_values_lines:
  "(\<And>kv. kv \<in> set kvs \<Longrightarrow> line_wf kv) \<Longrightarrow> field_values f (map line_of kvs) = kv_values f kvs"
proof (induction kvs)
  case (Cons kv kvs)
  then have "field_values f (map line_of kvs) = kv_values f kvs" "line_wf kv" by simp_all
  then show ?case
    using line_of_facts(2) [of kv f] kv_values_simps(3) [of f "[kv]" kvs] by (simp del: kv_values_simps)
qed simp

lemma parse_lines_text:
  assumes kvs: "kvs \<noteq> []" and wf: "\<And>kv. kv \<in> set kvs \<Longrightarrow> line_wf kv"
    and fields: "\<And>f. slot_list (doc_fields d f) = kv_values (Unique f) kvs"
    and sigs: "signature_values d = kv_values SignatureLine kvs"
  shows "parse_with_unknown_fields (lines_text kvs) u = Ok d"
proof -
  have "str_split (CHR 0x0A) (join [CHR 0x0A] (map line_of kvs)) = map line_of kvs"
    by (rule str_split_join) (use kvs wf line_of_facts(3) in auto)
  then show ?thesis
    unfolding document_lines_iff lines_text_join [OF kvs]
    using field_values_lines [OF wf] fields sigs wf line_of_facts(1)
    by (auto simp: list_all_iff)
qed

lemma parse_narinfo_text_lines:
  assumes kvs: "kvs \<noteq> []" and wf: "\<And>kv. kv \<in> set kvs \<Longrightarrow> line_wf kv"
    and len: "length (lines_text kvs) \<le> MAX_NARINFO_BYTES"
  shows "parse_narinfo_text (ascii (lines_text kvs)) = Ok (lines_text kvs)"
proof -
  have nl: "is_ascii [CHR 0x0A]" "is_ascii '': ''" by simp_all
  have "is_ascii (lines_text kvs) \<and> CHR 0x0D \<notin> set (lines_text kvs)"
    using wf
  proof (induction kvs)
    case (Cons kv kvs)
    then have "text_ok (fst kv)" "text_ok (snd kv)" by (simp_all add: line_wf_def)
    moreover have "lines_text (kv # kvs) = fst kv @ '': '' @ snd kv @ [CHR 0x0A] @ lines_text kvs"
      by (simp add: lines_text_def split: prod.splits)
    ultimately show ?case
      using Cons.IH Cons.prems by (simp add: text_ok_no_newline)
  qed (simp add: lines_text_def)
  moreover have "ends_with [CHR 0x0A] (lines_text kvs)"
    unfolding lines_text_join [OF kvs] by (simp add: ends_with_iff)
  ultimately show ?thesis
    using len by (simp add: parse_narinfo_text_def from_utf8_ascii)
qed

subsection \<open>Every value written is one line of ASCII text\<close>

abbreviation base64_of :: "encodings \<Rightarrow> bool" where
  "base64_of E \<equiv> base64_codec (base64_encode E) (base64_decode E)"

lemma base64_standard: "base64_of standard_encodings"
  using msb64.base64_codec_axioms by (simp add: standard_encodings_def)

lemma text_ok_NIX32: "list_all (\<lambda>c. c \<in> set NIX32) s \<Longrightarrow> text_ok s"
proof -
  have "text_ok NIX32" by (simp add: NIX32_def text_char_def)
  then show "list_all (\<lambda>c. c \<in> set NIX32) s \<Longrightarrow> text_ok s" by (auto simp: list_all_iff)
qed

lemma text_ok_digest: "nix32_of E \<Longrightarrow> text_ok (digest_display E d)"
  using digest_display_chars [of E d] by (intro text_ok_NIX32) (auto simp: list_all_iff)

lemma text_ok_base64:
  assumes E: "base64_of E" and d: "base64_decode E (ascii s) = Some d"
  shows "text_ok s"
proof -
  have "text_ok (BASE64_SYMBOLS @ ''='')" by (simp add: BASE64_SYMBOLS_def text_char_def)
  moreover have "set (str_of (ascii s)) \<subseteq> set (str_of (ascii (BASE64_SYMBOLS @ ''='')))"
    using base64_codec.encode64_symbols [OF E, of d] unfolding base64_codec.encode64_decode [OF E d] str_of_def set_map
    by (rule image_mono)
  ultimately show ?thesis unfolding str_of_ascii by (auto simp: list_all_iff)
qed

lemma text_char_alnum: "ascii_alphanumeric c \<Longrightarrow> text_char c" "ascii_hexdigit c \<Longrightarrow> text_char c" "ascii_digit c \<Longrightarrow> text_char c"
  by (auto simp: text_char_def ascii_alphanumeric_def ascii_hexdigit_def ascii_digit_def)

lemma text_char_store_name: "store_name_char c \<Longrightarrow> text_char c"
  by (auto simp: store_name_char_def text_char_def ascii_alphanumeric_def ascii_digit_def)

lemma text_ok_basename: "path_wf p \<Longrightarrow> text_ok (basename p)"
  using basename_chars text_char_store_name by (auto simp: list_all_iff)

lemma text_ok_path: "path_wf p \<Longrightarrow> text_ok (path_value p)"
  using text_ok_basename [of p] by (simp add: basename_defined(2) text_char_def)

lemma text_ok_decimal: "text_ok (u64_to_string n)"
  using u64_to_string_digits [of _ n] text_char_alnum(3) by (auto simp: list_all_iff)

lemma text_ok_join: "text_ok sep \<Longrightarrow> (\<And>x. x \<in> set xs \<Longrightarrow> text_ok x) \<Longrightarrow> text_ok (join sep xs)"
  using set_join [of sep xs] by (fastforce simp: list_all_iff)

lemma valid_name_text: "valid_name n \<Longrightarrow> text_ok n"
  unfolding valid_name_def by (auto simp: list_all_iff text_char_def ascii_alphanumeric_def ascii_digit_def)

lemma valid_name_no_colon: "valid_name n \<Longrightarrow> CHR '':'' \<notin> set n"
  unfolding valid_name_def by (auto simp: list_all_iff ascii_alphanumeric_def ascii_digit_def)

text \<open>The form \<open>name:data\<close> of signatures, trusted keys and secret keys.\<close>

lemma named_data_iff:
  "(case split_once (CHR '':'') v of
      Some (name, encoded) \<Rightarrow> if valid_name name \<and> encoded \<noteq> [] then Some (name, encoded) else None
    | None \<Rightarrow> None) = Some (n, e) \<longleftrightarrow> v = n @ CHR '':'' # e \<and> valid_name n \<and> e \<noteq> []"
proof -
  have "(case split_once (CHR '':'') v of
      Some (name, encoded) \<Rightarrow> if valid_name name \<and> encoded \<noteq> [] then Some (name, encoded) else None
    | None \<Rightarrow> None) = Some (n, e) \<longleftrightarrow> split_once (CHR '':'') v = Some (n, e) \<and> valid_name n \<and> e \<noteq> []"
    by (cases "split_once (CHR '':'') v") (auto split: if_splits)
  then show ?thesis using valid_name_no_colon [of n] by (auto simp: split_once_Some)
qed

lemma named_signature_parse_iff:
  "named_signature_parse E X s = Ok g \<longleftrightarrow> (\<exists>e d. s = sig_name g @ CHR '':'' # e \<and> valid_name (sig_name g) \<and> e \<noteq> []
    \<and> base64_decode E (ascii e) = Some d \<and> signature_from_slice X d = Some (sig_signature g))"
proof -
  have "named_signature_parse E X s = Ok g \<longleftrightarrow> (\<exists>n e d y. (s = n @ CHR '':'' # e \<and> valid_name n \<and> e \<noteq> [])
      \<and> base64_decode E (ascii e) = Some d \<and> signature_from_slice X d = Some y
      \<and> g = \<lparr> sig_name = n, sig_signature = y \<rparr>)"
    unfolding named_signature_parse_def bindR_Inr_iff ok_or_Inr_iff split_paired_Ex named_data_iff prod.case
    by auto
  then show ?thesis by (cases g) auto
qed

lemma text_ok_signature:
  assumes E: "base64_of E" and s: "named_signature_parse E X s = Ok g"
  shows "text_ok s"
proof -
  from s obtain e d where s': "s = sig_name g @ CHR '':'' # e" and n: "valid_name (sig_name g)"
      and d: "base64_decode E (ascii e) = Some d"
    unfolding named_signature_parse_iff by blast
  have "text_char (CHR '':'')" by (simp add: text_char_def)
  then show ?thesis using valid_name_text [OF n] text_ok_base64 [OF E d] by (simp add: s')
qed

lemma text_ok_content_address_rest: "content_address_rest v = Some r \<Longrightarrow> text_ok r \<Longrightarrow> text_ok v"
  by (auto simp: content_address_rest_def strip_prefix_Some text_char_def split: option.splits)

lemma text_ok_content_address:
  assumes E: "base64_of E" and v: "parse_content_address E v = Ok ()"
  shows "text_ok v"
proof -
  from v obtain r a h n where r: "content_address_rest v = Some r" and s: "r = a @ CHR '':'' # h"
      and a: "algorithm_bytes a = Some n" and h: "(length h = n * 2 \<and> list_all ascii_hexdigit h)
         \<or> (length h = (n * 8 + 4) div 5 \<and> list_all (\<lambda>byte. byte \<in> set NIX32) h)
         \<or> (case base64_decode E (ascii h) of Some decoded \<Rightarrow> length decoded = n | None \<Rightarrow> False)"
    by (fastforce simp: parse_content_address_def run_simps split: if_splits)
  have "text_ok a" using a by (auto simp: algorithm_bytes_def text_char_def split: if_splits)
  moreover from h consider "list_all ascii_hexdigit h" | "list_all (\<lambda>byte. byte \<in> set NIX32) h"
    | d where "base64_decode E (ascii h) = Some d"
    by (auto split: option.splits)
  then have "text_ok h"
  proof cases
    case 1
    then show ?thesis using text_char_alnum(2) by (simp add: list_all_iff)
  qed (use text_ok_NIX32 text_ok_base64 [OF E] in blast)+
  ultimately show ?thesis using text_ok_content_address_rest [OF r] by (simp add: s text_char_def)
qed

subsection \<open>Metadata and its invariant\<close>

definition deriver_wf :: "Deriver \<Rightarrow> bool" where
  "deriver_wf d = (case d of UnknownDeriver \<Rightarrow> True | DeriverPath p \<Rightarrow> path_wf p)"

definition metadata_wf :: "encodings \<Rightarrow> NarInfoMetadata \<Rightarrow> bool" where
  "metadata_wf E m = (claims_wf (meta_claims m)
     \<and> (case meta_deriver m of None \<Rightarrow> True | Some d \<Rightarrow> deriver_wf d)
     \<and> (case meta_content_address m of None \<Rightarrow> True | Some a \<Rightarrow> parse_content_address E (content_address_str a) = Ok ()))"

lemma deriver_roundtrip: "deriver_wf d \<Longrightarrow> deriver_from_narinfo_value (deriver_narinfo_value d) = Ok d"
  by (cases d) (auto simp: deriver_wf_def deriver_from_narinfo_value_def deriver_narinfo_value_def
      basename_not_unknown run_simps from_basename_iff)

lemma text_ok_deriver: "deriver_wf d \<Longrightarrow> text_ok (deriver_narinfo_value d)"
  by (cases d) (auto simp: deriver_wf_def deriver_narinfo_value_def text_ok_basename text_char_def)

lemma deriver_values_wf:
  "deriver_from_store_value v = Ok d \<Longrightarrow> deriver_wf d"
  "deriver_from_narinfo_value v = Ok d \<Longrightarrow> deriver_wf d"
  by (auto simp: deriver_from_store_value_def deriver_from_narinfo_value_def deriver_wf_def run_simps
      store_path_parse_iff from_basename_iff split: if_splits)

lemma content_address_parse_iff:
  "content_address_parse E v = Ok a \<longleftrightarrow> parse_content_address E v = Ok () \<and> a = ContentAddress v"
  by (auto simp: content_address_parse_def run_simps)

lemma narinfo_lines_wf:
  assumes E: "nix32_of E" "base64_of E" and m: "metadata_wf E m" and r: "repr_wf r"
    and sigs: "\<And>s. s \<in> set (meta_signatures m) \<Longrightarrow> text_ok s"
    and kv: "kv \<in> set (narinfo_lines E m r)"
  shows "line_wf kv"
proof -
  have c: "claims_wf (meta_claims m)" using m by (simp add: metadata_wf_def)
  have refs: "text_ok (references_field (meta_claims m))"
    unfolding references_field_def reference_basenames_def
    by (rule text_ok_join) (use c text_ok_basename in \<open>auto simp: claims_wf_def references_wf_def text_char_def\<close>)
  have name: "text_ok (file_name_display E n)" for n
    using text_ok_digest [OF E(1)]
    by (auto simp: file_name_display_def wire_suffix_def codec_suffix_def text_char_def
        split: WireEncoding.splits CompressionCodec.splits)
  have comp: "text_ok (compression e)" for e
    by (auto simp: compression_def text_char_def split: WireEncoding.splits CompressionCodec.splits)
  have der: "meta_deriver m = Some d \<Longrightarrow> text_ok (deriver_narinfo_value d)" for d
    using m text_ok_deriver by (simp add: metadata_wf_def)
  have ca: "meta_content_address m = Some a \<Longrightarrow> text_ok (content_address_str a)" for a
    using m text_ok_content_address [OF E(2)] by (simp add: metadata_wf_def)
  have path: "text_ok (path_value (claims_store_path (meta_claims m)))"
    using c text_ok_path by (simp add: claims_wf_def)
  from kv consider "kv \<in> set (narinfo_head E m r)" | s where "s \<in> set (meta_signatures m)" "kv = (''Sig'', s)"
    | d where "meta_deriver m = Some d" "kv = (''Deriver'', deriver_narinfo_value d)"
    | a where "meta_content_address m = Some a" "kv = (''CA'', content_address_str a)"
    by (cases "meta_deriver m"; cases "meta_content_address m") (auto simp: narinfo_lines_def)
  then show ?thesis
  proof cases
    case 1
    then show ?thesis
      using refs name comp path text_ok_decimal
      by (auto simp: text_ok_digest [OF E(1)] narinfo_head_def line_wf_def line_field_parse_def count_display_def text_char_def)
  qed (use sigs der ca in \<open>auto simp: line_wf_def line_field_parse_def text_char_def\<close>)
qed

subsection \<open>The document that was written\<close>

definition written_document :: "encodings \<Rightarrow> NarInfoMetadata \<Rightarrow> NarRepresentation \<Rightarrow> NarInfoDocument" where
  "written_document E m r = \<lparr>
     doc_fields = (\<lambda>f. case f of
         FStorePath \<Rightarrow> Some (path_value (claims_store_path (meta_claims m)))
       | FUrl \<Rightarrow> Some (''nar/'' @ file_name_display E (repr_file_name r))
       | FCompression \<Rightarrow> Some (compression (file_name_encoding (repr_file_name r)))
       | FFileHash \<Rightarrow> Some (''sha256:'' @ digest_display E (file_name_hash (repr_file_name r)))
       | FFileSize \<Rightarrow> Some (count_display (repr_encoded_size r))
       | FNarHash \<Rightarrow> Some (''sha256:'' @ digest_display E (content_hash (claims_identity (meta_claims m))))
       | FNarSize \<Rightarrow> Some (count_display (content_size (claims_identity (meta_claims m))))
       | FReferences \<Rightarrow> Some (references_field (meta_claims m))
       | FDeriver \<Rightarrow> map_option deriver_narinfo_value (meta_deriver m)
       | FSystem \<Rightarrow> None
       | FContentAddress \<Rightarrow> map_option content_address_str (meta_content_address m)),
     signature_values = meta_signatures m \<rparr>"

lemma kv_values_signatures:
  "kv_values (Unique f) (map (\<lambda>s. (''Sig'', s)) sigs) = []"
  "kv_values SignatureLine (map (\<lambda>s. (''Sig'', s)) sigs) = sigs"
  by (induction sigs) (simp_all add: line_field_parse_def)

lemma kv_values_head_signature: "kv_values SignatureLine (narinfo_head E m r) = []"
  by (simp add: narinfo_head_def line_field_parse_def)

lemma written_document_signatures:
  "signature_values (written_document E m r) = kv_values SignatureLine (narinfo_lines E m r)"
  by (cases "meta_deriver m"; cases "meta_content_address m")
    (simp_all add: written_document_def narinfo_lines_def kv_values_signatures kv_values_head_signature line_field_parse_def)

lemma kv_values_head:
  "kv_values (Unique f) (narinfo_head E m r) @ (if f = FDeriver \<or> f = FContentAddress then xs else [])
    = (if f = FDeriver \<or> f = FContentAddress then xs else slot_list (doc_fields (written_document E m r) f))"
  by (cases f) (simp_all add: narinfo_head_def line_field_parse_def written_document_def)

lemma written_document_fields:
  "slot_list (doc_fields (written_document E m r) f) = kv_values (Unique f) (narinfo_lines E m r)"
  using kv_values_head [of f E m r "[]"]
  by (cases f; cases "meta_deriver m"; cases "meta_content_address m")
    (simp_all add: narinfo_lines_def kv_values_signatures line_field_parse_def written_document_def)

lemma written_document_parse:
  assumes "nix32_of E" "base64_of E" "metadata_wf E m" "repr_wf r"
    and "\<And>s. s \<in> set (meta_signatures m) \<Longrightarrow> text_ok s"
    and "length (lines_text (narinfo_lines E m r)) \<le> MAX_NARINFO_BYTES"
  shows "bindR (parse_narinfo_text (ascii (lines_text (narinfo_lines E m r)))) (\<lambda>text. parse_with_unknown_fields text u)
    = Ok (written_document E m r)"
proof -
  have wf: "\<And>kv. kv \<in> set (narinfo_lines E m r) \<Longrightarrow> line_wf kv"
    by (rule narinfo_lines_wf) (use assms in auto)
  have ne: "narinfo_lines E m r \<noteq> []" by (simp add: narinfo_lines_def narinfo_head_def)
  have "parse_narinfo_text (ascii (lines_text (narinfo_lines E m r))) = Ok (lines_text (narinfo_lines E m r))"
    by (rule parse_narinfo_text_lines [OF ne wf assms(6)])
  moreover have "parse_with_unknown_fields (lines_text (narinfo_lines E m r)) u = Ok (written_document E m r)"
    by (rule parse_lines_text [OF ne wf]) (simp_all add: written_document_fields written_document_signatures)
  ultimately show ?thesis by simp
qed

subsection \<open>Reading the written document\<close>

lemma parse_hash_field_display [simp]:
  "nix32_of E \<Longrightarrow> digest_wf d \<Longrightarrow> parse_hash_field E (''sha256:'' @ digest_display E d) = Some d"
  unfolding parse_hash_field_def strip_prefix_append by simp

lemma parse_nonzero_display [simp]:
  "n \<le> u64_max \<Longrightarrow> n \<noteq> 0 \<Longrightarrow> parse_nonzero (u64_to_string n) = Some n"
  by (simp add: parse_nonzero_def)

lemma content_identity_eta [simp]: "content_identity (content_hash i) (content_size i) = i"
  by (simp add: content_identity_def)

lemma written_claims:
  assumes "nix32_of E" "claims_wf (meta_claims m)" "count_get (content_size (claims_identity (meta_claims m))) \<noteq> 0"
  shows "from_document_with_references E (claims_store (meta_claims m)) (written_document E m r) h = Ok (meta_claims m)"
proof -
  let ?c = "meta_claims m"
  have "store_path_parse (path_value (claims_store_path ?c)) = Ok (claims_store_path ?c)"
    using assms(2) by (simp add: store_path_parse_iff claims_wf_def)
  moreover have "parse_references (references_field ?c) = Ok (claims_references ?c)"
    using assms(2) parse_references_field by (simp add: references_field_def reference_basenames_def claims_wf_def)
  moreover have "digest_wf (content_hash (claims_identity ?c))" "count_get (content_size (claims_identity ?c)) \<le> u64_max"
    using assms(2) by (simp_all add: claims_wf_def content_wf_def)
  ultimately show ?thesis
    using assms(1,3) parse_hash_field_display [OF assms(1), of "content_hash (claims_identity ?c)"]
    by (cases h) (simp_all add: from_document_with_references_def required_def written_document_def claims_store_def count_display_def)
qed

lemma written_payload:
  assumes E: "nix32_of E" and r: "repr_wf r" and n: "count_get (content_size (repr_identity r)) \<noteq> 0"
  shows "publication_payload E (written_document E m r) (repr_identity r) = Ok r"
proof -
  have f: "file_name_wf (repr_file_name r)" by (rule repr_file_name_wf [OF r])
  have "strip_prefix ''nar/'' (''nar/'' @ file_name_display E (repr_file_name r)) = Some (file_name_display E (repr_file_name r))"
    by (rule strip_prefix_append)
  moreover have "parse_hash_field E (''sha256:'' @ digest_display E (file_name_hash (repr_file_name r))) = Some (file_name_hash (repr_file_name r))"
    using f E by (simp only: parse_hash_field_display file_name_wf_def)
  moreover have "parse_u64 (count_display (repr_encoded_size r)) = Some (count_get (repr_encoded_size r))"
    using repr_encoded_size_wf [OF r] by (simp add: count_display_def)
  ultimately have "publication_payload E (written_document E m r) (repr_identity r) =
      representation_from_narinfo_fields (repr_file_name r) (file_name_hash (repr_file_name r))
        (ByteCount (count_get (repr_encoded_size r))) (repr_identity r)"
    using E f by (simp add: publication_payload_def required_def written_document_def)
  also have "\<dots> = Ok r"
    using n by (cases r)
      (auto simp: representation_from_narinfo_fields_def repr_file_name_def repr_identity_def repr_encoded_size_def
        file_name_raw_def encoded_file_name_def validate_raw_narinfo_identity_def repr_compressed_def encoded_identity_def
        content_identity_def)
  finally show ?thesis .
qed

lemma written_metadata:
  assumes "metadata_wf E m"
  shows "from_document_claims E (meta_claims m) (written_document E m r) = Ok m"
proof -
  have "traverse_option deriver_from_narinfo_value (map_option deriver_narinfo_value (meta_deriver m)) = Ok (meta_deriver m)"
    using assms by (auto simp: metadata_wf_def deriver_roundtrip split: option.splits)
  moreover have "traverse_option (content_address_parse E) (map_option content_address_str (meta_content_address m)) = Ok (meta_content_address m)"
    using assms by (auto simp: metadata_wf_def content_address_parse_def split: option.splits)
  ultimately show ?thesis by (simp add: from_document_claims_def written_document_def)
qed

subsection \<open>Properties\<close>

text \<open>A concrete document: two references, a deriver, a content address and one signature.\<close>

definition sample_path :: "string \<Rightarrow> NixStorePath" where
  "sample_path name = \<lparr> path_value = store_dir @ NIX32 @ ''-'' @ name, path_store = StoreHash (ascii NIX32) \<rparr>"

definition sample_metadata :: NarInfoMetadata where
  "sample_metadata = \<lparr> meta_claims = \<lparr> claims_store_path = sample_path ''hello-2.12'',
       claims_references = [sample_path ''glibc'', sample_path ''hello-2.12''],
       claims_identity = content_identity zero_digest (ByteCount 226560) \<rparr>,
     meta_deriver = Some (DeriverPath (sample_path ''hello.drv'')),
     meta_content_address = Some (ContentAddress (''fixed:r:md5:'' @ replicate 32 CHR ''0'')),
     meta_signatures = [''cache-1:AAAA''] \<rparr>"

definition sample_externals :: "(bytes, bytes) externals" where
  "sample_externals = \<lparr> uri_parse = (\<lambda>_. None), signature_from_slice = Some, key_from_bytes = Some,
     key_as_bytes = (\<lambda>k. k), key_is_weak = (\<lambda>_. False), verify_strict = (\<lambda>k m g. True) \<rparr>"

definition sample_repr :: NarRepresentation where
  "sample_repr = ReprRaw (content_identity zero_digest (ByteCount 226560))"

lemma sample_path_wf: "store_name_ok name \<Longrightarrow> path_wf (sample_path name)"
  unfolding path_wf_def sample_path_def
  by (intro exI [of _ name])
    (simp add: store_hash_wf_def store_hash_str_def valid_nix32_def list_all_iff)

lemma sample_names: "store_name_ok ''hello-2.12''" "store_name_ok ''glibc''" "store_name_ok ''hello.drv''"
  by (simp_all add: store_name_ok_def MAX_STORE_NAME_BYTES_def starts_with_def store_name_char_def
      ascii_alphanumeric_def ascii_digit_def)

lemma sample_identity_wf: "content_wf (content_identity zero_digest (ByteCount 226560))"
  by (simp add: content_wf_def content_identity_def u64_max_def)

lemma append_less_iff: "a @ s < a @ t \<longleftrightarrow> s < (t :: 'a :: order list)"
  by (induction a) simp_all

lemma md5_address:
  "length h = 32 \<Longrightarrow> list_all ascii_hexdigit h \<Longrightarrow> parse_content_address E (''fixed:r:md5:'' @ h) = Ok ()"
  by (simp add: parse_content_address_def content_address_rest_def algorithm_bytes_def)

lemma sample_metadata_wf: "metadata_wf standard_encodings sample_metadata"
proof -
  have "path_value (sample_path ''glibc'') < path_value (sample_path ''hello-2.12'')"
    unfolding sample_path_def by (simp add: append_less_iff)
  moreover have "parse_content_address standard_encodings (''fixed:r:md5:'' @ replicate 32 CHR ''0'') = Ok ()"
    by (rule md5_address) (simp_all only: length_replicate list_all_iff set_replicate, simp add: ascii_hexdigit_def ascii_digit_def)
  ultimately show ?thesis
    using sample_path_wf sample_names sample_identity_wf
    by (simp add: metadata_wf_def sample_metadata_def claims_wf_def references_wf_def deriver_wf_def)
qed

lemma sample_signature:
  "traverse_list (named_signature_parse standard_encodings sample_externals) (meta_signatures sample_metadata)
    = Ok [\<lparr> sig_name = ''cache-1'', sig_signature = [0, 0, 0] \<rparr>]"
proof -
  have "msb64_encode [0, 0, 0] = ascii ''AAAA''"
    by (simp add: quad_encode_def symbol_at_def BASE64_SYMBOLS_def ascii_def)
  then have "base64_decode standard_encodings (ascii ''AAAA'') = Some [0, 0, 0]"
    using msb64_decode_encode [of "[0, 0, 0]"] by (simp add: standard_encodings_def)
  then have "named_signature_parse standard_encodings sample_externals (''cache-1'' @ CHR '':'' # ''AAAA'')
      = Ok \<lparr> sig_name = ''cache-1'', sig_signature = [0, 0, 0] \<rparr>"
    unfolding named_signature_parse_iff
    by (intro exI [of _ "''AAAA''"] exI [of _ "[0, 0, 0]"])
      (simp add: sample_externals_def valid_name_def ascii_alphanumeric_def ascii_digit_def)
  then show ?thesis by (simp add: sample_metadata_def)
qed

lemma sample_serialize_with:
  assumes "length s \<le> 1000"
  shows "serialize standard_encodings (sample_metadata\<lparr> meta_signatures := [s] \<rparr>) sample_repr
    = Ok (ascii (lines_text (narinfo_lines standard_encodings (sample_metadata\<lparr> meta_signatures := [s] \<rparr>) sample_repr)))"
proof -
  have d: "length (digest_display standard_encodings (zero_digest :: 'p Sha256Digest)) = 52"
    by (rule length_digest_display [OF nix32_standard]) simp
  have z: "from_nar_hash zero_digest = zero_digest" by (simp add: from_nar_hash_def zero_digest_def)
  have n: "length (u64_to_string 226560) = 6" by (simp add: u64_to_string.simps)
  have b: "basename (sample_path s) = NIX32 @ ''-'' @ s" for s by (simp add: basename_def sample_path_def)
  have "length (lines_text (narinfo_lines standard_encodings (sample_metadata\<lparr> meta_signatures := [s] \<rparr>) sample_repr)) \<le> MAX_NARINFO_BYTES"
    using assms
    by (simp add: lines_text_def narinfo_lines_def narinfo_head_def sample_metadata_def sample_repr_def
        count_display_def repr_file_name_def file_name_raw_def file_name_display_def wire_suffix_def
        compression_def content_identity_def repr_encoded_size_def references_field_def reference_basenames_def
        deriver_narinfo_value_def d z n b MAX_NARINFO_BYTES_def) (simp add: sample_path_def)
  then show ?thesis
    by (simp add: serialize_def metadata_write_lines bounded_append_def sample_repr_def sample_metadata_def repr_identity_def)
qed

lemma sample_serialize:
  "serialize standard_encodings sample_metadata sample_repr
    = Ok (ascii (lines_text (narinfo_lines standard_encodings sample_metadata sample_repr)))"
proof -
  have "sample_metadata\<lparr> meta_signatures := [''cache-1:AAAA''] \<rparr> = sample_metadata" by (simp add: sample_metadata_def)
  then show ?thesis using sample_serialize_with [of "''cache-1:AAAA''"] by simp
qed

lemma sample_repr_facts: "repr_wf sample_repr" "count_get (content_size (repr_identity sample_repr)) \<noteq> 0"
  using sample_identity_wf by (simp_all add: repr_wf_def sample_repr_def repr_identity_def content_identity_def)

lemma unverified_parse_serialized:
  assumes "nix32_of E" and "base64_of E"
    and "metadata_wf E m" and "repr_wf r"
    and "count_get (content_size (repr_identity r)) \<noteq> 0"
    and "meta_signatures m \<noteq> []"
    and "traverse_list (named_signature_parse E X) (meta_signatures m) = Ok sigs"
    and "serialize E m r = Ok bs"
  shows "unverified_parse E X (claims_store (meta_claims m)) bs =
    Ok \<lparr> unverified_publication = \<lparr> pub_metadata = m, pub_payload = r \<rparr>, unverified_signatures = sigs \<rparr>"
proof -
  have ident: "repr_identity r = claims_identity (meta_claims m)"
    and len: "length (lines_text (narinfo_lines E m r)) \<le> MAX_NARINFO_BYTES"
    and bs: "bs = ascii (lines_text (narinfo_lines E m r))"
    using assms(8) by (auto simp: serialize_def metadata_write_lines bounded_append_def split: if_splits)
  have "text_ok s" if "s \<in> set (meta_signatures m)" for s
    using that assms(7) text_ok_signature [OF assms(2)]
    by (fastforce simp: traverse_list_Inr_iff list_all2_conv_all_nth in_set_conv_nth)
  then have doc: "bindR (parse_narinfo_text bs) document_parse = Ok (written_document E m r)"
    unfolding bs document_parse_def by (rule written_document_parse [OF assms(1-4) _ len])
  have "claims_from_document E (claims_store (meta_claims m)) (written_document E m r) = Ok (meta_claims m)"
    unfolding claims_from_document_def using assms(1,3,5) ident by (intro written_claims) (simp_all add: metadata_wf_def)
  moreover have "named_signatures E X (written_document E m r) = Ok sigs"
    using assms(6,7) by (simp add: named_signatures_def written_document_def)
  ultimately show ?thesis
    using doc written_metadata [OF assms(3)] written_payload [OF assms(1,4,5)] ident
    by (auto simp: unverified_parse_def metadata_from_document_def run_simps)
qed

text \<open>C13: writing a narinfo never produces more than the limit and never a truncated document: the
  serialisation succeeds exactly when the payload describes the same archive as the claims and the whole text
  fits into \<open>MAX_NARINFO_BYTES\<close>, and then it is the whole text, line by line.\<close>

theorem serialize_complete_or_error:
  "serialize E m r =
    (if repr_identity r = claims_identity (meta_claims m) \<and> length (lines_text (narinfo_lines E m r)) \<le> MAX_NARINFO_BYTES
     then Ok (ascii (lines_text (narinfo_lines E m r))) else Err NarInfoError)"
  by (simp add: serialize_def metadata_write_lines bounded_append_def)

text \<open>C14: serialised metadata is read back unchanged.  When metadata with parsable signatures is
  serialised for a payload, the publication parser, asked for the route of its store path, accepts
  the bytes and returns the same claims, deriver, content address and signatures, the same payload and
  the parsed signatures.\<close>

theorem serialize_then_parse:
  assumes "nix32_codec (nix32_encode E) (nix32_decode E)" and "base64_codec (base64_encode E) (base64_decode E)"
    and "metadata_wf E m" and "repr_wf r"
    and "count_get (content_size (repr_identity r)) \<noteq> 0"
    and "meta_signatures m \<noteq> []"
    and "traverse_list (named_signature_parse E X) (meta_signatures m) = Ok sigs"
    and "serialize E m r = Ok bs"
  shows "unverified_parse E X (claims_store (meta_claims m)) bs =
    Ok \<lparr> unverified_publication = \<lparr> pub_metadata = m, pub_payload = r \<rparr>, unverified_signatures = sigs \<rparr>"
  by (rule unverified_parse_serialized [OF assms])

theorem serialize_then_parse_witness:
  "\<exists>bs. serialize standard_encodings sample_metadata sample_repr = Ok bs
    \<and> unverified_parse standard_encodings sample_externals (StoreHash (ascii NIX32)) bs
      = Ok \<lparr> unverified_publication = \<lparr> pub_metadata = sample_metadata, pub_payload = sample_repr \<rparr>,
             unverified_signatures = [\<lparr> sig_name = ''cache-1'', sig_signature = [0, 0, 0] \<rparr>] \<rparr>"
proof -
  note sample_repr_facts
  moreover have "meta_signatures sample_metadata \<noteq> []" "claims_store (meta_claims sample_metadata) = StoreHash (ascii NIX32)"
    by (simp_all add: sample_metadata_def claims_store_def sample_path_def)
  ultimately show ?thesis
    using serialize_then_parse [OF nix32_standard base64_standard sample_metadata_wf _ _ _ sample_signature sample_serialize]
      sample_serialize by metis
qed

end
