(* ===== verification/NarInfo_Security.thy ===== *)
theory NarInfo_Security
  imports NarInfo_Serialize
begin

section \<open>What a validated narinfo guarantees\<close>

text \<open>
  The invariants every constructor establishes, the exact meaning of a parsed document, what
  verification guarantees about signatures and payload, and that a document signed with a trusted key
  and serialised by this program is validated again.
\<close>

subsection \<open>Documents give well-formed claims\<close>

lemma parse_hash_field_wf: "nix32_of E \<Longrightarrow> parse_hash_field E v = Some h \<Longrightarrow> digest_wf h"
  by (auto simp: parse_hash_field_def digest_parse_iff split: option.splits sum.splits)

lemma parse_nonzero_bounds: "parse_nonzero v = Some n \<Longrightarrow> n \<noteq> 0 \<and> n \<le> u64_max"
  by (auto simp: parse_nonzero_def parse_u64_le split: option.splits if_splits)

lemma document_references_wf:
  "(case h of
      Required \<Rightarrow> bindR (required doc FReferences) parse_references
    | MissingMeansEmpty \<Rightarrow> bindR (traverse_option parse_references (doc_fields doc FReferences))
        (\<lambda>r. Ok (case r of None \<Rightarrow> [] | Some rs \<Rightarrow> rs))) = Ok rs \<Longrightarrow> references_wf rs"
  using parse_references_wf
  by (cases h; cases "doc_fields doc FReferences")
    (auto simp: run_simps required_def references_wf_def [of "[]"])

lemma from_document_wf:
  assumes E: "nix32_of E" and c: "from_document_with_references E route doc h = Ok c"
  shows "claims_wf c \<and> claims_store c = route \<and> count_get (content_size (claims_identity c)) \<noteq> 0"
proof -
  from c obtain sp hv nv p d n rs where p: "store_path_parse sp = Ok p" "path_store p = route"
      and d: "parse_hash_field E hv = Some d" and n: "parse_nonzero nv = Some n"
      and rs: "(case h of Required \<Rightarrow> bindR (required doc FReferences) parse_references
        | MissingMeansEmpty \<Rightarrow> bindR (traverse_option parse_references (doc_fields doc FReferences))
        (\<lambda>r. Ok (case r of None \<Rightarrow> [] | Some rs \<Rightarrow> rs))) = Ok rs"
      and c': "c = \<lparr> claims_store_path = p, claims_references = rs, claims_identity = content_identity d (ByteCount n) \<rparr>"
    unfolding from_document_with_references_def
    by (auto simp: bindR_Inr_iff ok_or_Inr_iff split: if_splits)
  have "path_wf p" using p(1) by (simp add: store_path_parse_iff)
  moreover have "digest_wf d" by (rule parse_hash_field_wf [OF E d])
  moreover have "n \<noteq> 0 \<and> n \<le> u64_max" by (rule parse_nonzero_bounds [OF n])
  ultimately show ?thesis
    using p(2) document_references_wf [OF rs]
    by (simp add: c' claims_wf_def content_wf_def content_identity_def claims_store_def)
qed

lemma from_document_claims_wf:
  assumes "from_document_claims E c doc = Ok m" and "claims_wf c"
  shows "metadata_wf E m \<and> meta_claims m = c \<and> meta_signatures m = signature_values doc"
  using assms deriver_values_wf(2)
  by (cases "doc_fields doc FDeriver"; cases "doc_fields doc FContentAddress")
    (auto simp: from_document_claims_def run_simps metadata_wf_def content_address_parse_iff)

lemma metadata_from_document_wf:
  assumes "nix32_of E" and "metadata_from_document E route doc = Ok m"
  shows "metadata_wf E m \<and> claims_store (meta_claims m) = route
    \<and> count_get (content_size (claims_identity (meta_claims m))) \<noteq> 0"
proof -
  from assms(2) obtain c where c: "claims_from_document E route doc = Ok c" and m: "from_document_claims E c doc = Ok m"
    by (auto simp: metadata_from_document_def run_simps)
  from from_document_wf [OF assms(1) c [unfolded claims_from_document_def]] from_document_claims_wf [OF m]
  show ?thesis by simp
qed

lemma from_store_metadata_wf:
  assumes "from_store_metadata E sp ca d i rs sigs = Ok m" and "content_wf i"
  shows "metadata_wf E m"
proof -
  from assms(1) obtain c d' ca' where c: "claims_new sp rs i = Ok c"
      and d: "traverse_option deriver_from_store_value d = Ok d'"
      and ca: "traverse_option (content_address_parse E) ca = Ok ca'"
      and m: "m = \<lparr> meta_claims = c, meta_deriver = d', meta_content_address = ca', meta_signatures = sigs \<rparr>"
    by (auto simp: from_store_metadata_def run_simps)
  have "case d' of None \<Rightarrow> True | Some x \<Rightarrow> deriver_wf x"
    using d deriver_values_wf(1) by (cases d) (auto simp: run_simps)
  moreover have "case ca' of None \<Rightarrow> True | Some a \<Rightarrow> parse_content_address E (content_address_str a) = Ok ()"
    using ca by (cases ca) (auto simp: run_simps content_address_parse_iff)
  ultimately show ?thesis using claims_new_wf [OF c assms(2)] by (simp add: metadata_wf_def m)
qed

subsection \<open>Payloads describe the claimed archive\<close>

lemma representation_identity:
  assumes "nix32_of E" and "representation_from_narinfo_fields n h s i = Ok r"
    and "digest_wf h" and "count_get s \<le> u64_max" and "content_wf i"
  shows "repr_identity r = i \<and> repr_wf r \<and> repr_file_name r = n \<and> repr_encoded_size r = s"
  using assms
  by (cases "file_name_encoding n"; cases n; cases s)
    (auto simp: representation_from_narinfo_fields_def validate_raw_narinfo_identity_def repr_identity_def
      repr_compressed_def repr_wf_def encoded_identity_def content_wf_def content_identity_def
      repr_file_name_def file_name_raw_def encoded_file_name_def repr_encoded_size_def split: if_splits)

lemma publication_payload_wf:
  assumes E: "nix32_of E" and r: "publication_payload E doc i = Ok r" and i: "content_wf i"
  shows "repr_identity r = i \<and> repr_wf r \<and> doc_fields doc FSystem = None
    \<and> doc_fields doc FUrl = Some (''nar/'' @ file_name_display E (repr_file_name r))
    \<and> doc_fields doc FCompression = Some (compression (wire_encoding r))"
proof -
  from r obtain url v n cmp hv h sv s where sys: "doc_fields doc FSystem = None"
      and url: "doc_fields doc FUrl = Some url" "strip_prefix ''nar/'' url = Some v" "file_name_parse E v = Ok n"
      and cmp: "doc_fields doc FCompression = Some cmp" "cmp = compression (file_name_encoding n)"
      and h: "parse_hash_field E hv = Some h" and s: "parse_u64 sv = Some s"
      and rep: "representation_from_narinfo_fields n h (ByteCount s) i = Ok r"
    unfolding publication_payload_def required_def [of doc FUrl] required_def [of doc FCompression]
    by (auto simp: bindR_Inr_iff ok_or_Inr_iff map_err_Inr_iff split: if_splits)
  have "digest_wf h" by (rule parse_hash_field_wf [OF E h])
  moreover have "s \<le> u64_max" by (rule parse_u64_le [OF s])
  ultimately have r': "repr_identity r = i \<and> repr_wf r \<and> repr_file_name r = n"
    using representation_identity [OF E rep] i by simp
  moreover have "url = ''nar/'' @ file_name_display E n"
    using url(2,3) by (simp add: strip_prefix_Some file_name_parse_iff [OF E])
  ultimately show ?thesis using sys url(1) cmp repr_encoding [of r] by simp
qed

subsection \<open>Verification\<close>

lemma verifies_iff:
  "verifies X keys msg sigs \<longleftrightarrow> (\<exists>g \<in> set sigs. \<exists>key. map_of keys (sig_name g) = Some key
     \<and> verify_strict X key msg (sig_signature g))"
  by (auto simp: verifies_def list_ex_iff split: option.splits)

lemma named_signatures_all:
  "named_signatures E X doc = Ok sigs \<Longrightarrow> g \<in> set sigs \<Longrightarrow>
    \<exists>s \<in> set (signature_values doc). named_signature_parse E X s = Ok g"
  using traverse_list_all [of "named_signature_parse E X"] by (auto simp: named_signatures_def split: if_splits)

text \<open>A signature line of the metadata whose key is trusted and which verifies for the claims.\<close>

definition trusted_for ::
    "encodings \<Rightarrow> ('k, 'g) externals \<Rightarrow> 'k TrustedPublicKeys \<Rightarrow> NarInfoClaims \<Rightarrow> string list \<Rightarrow> bool" where
  "trusted_for E X keys c lines = (\<exists>s \<in> set lines. \<exists>g key. named_signature_parse E X s = Ok g
     \<and> map_of keys (sig_name g) = Some key \<and> verify_strict X key (ascii (fingerprint E c)) (sig_signature g))"

lemma verified_trusted_for:
  assumes "named_signatures E X doc = Ok sigs" and "verifies X keys (ascii (fingerprint E c)) sigs"
  shows "trusted_for E X keys c (signature_values doc)"
  using assms(2) named_signatures_all [OF assms(1)] unfolding verifies_iff trusted_for_def by blast

lemma inspect_sound:
  assumes E: "nix32_of E" and v: "inspect E X keys route bs = Ok v"
    and m: "m = pub_metadata (validated_publication v)" and r: "r = pub_payload (validated_publication v)"
  shows "metadata_wf E m \<and> claims_store (meta_claims m) = route \<and> repr_wf r
    \<and> repr_identity r = claims_identity (meta_claims m) \<and> count_get (content_size (repr_identity r)) \<noteq> 0
    \<and> trusted_for E X keys (meta_claims m) (meta_signatures m)"
proof -
  from v obtain doc sigs where m': "metadata_from_document E route doc = Ok m"
      and r': "publication_payload E doc (claims_identity (meta_claims m)) = Ok r"
      and sigs: "named_signatures E X doc = Ok sigs" "verifies X keys (ascii (fingerprint E (meta_claims m))) sigs"
    by (auto simp: inspect_def unverified_parse_def verify_with_def bindR_Inr_iff map_err_Inr_iff m r split: if_splits)
  from m' obtain c where c: "from_document_claims E c doc = Ok m" "claims_from_document E route doc = Ok c"
    by (auto simp: metadata_from_document_def bindR_Inr_iff)
  have lines: "meta_signatures m = signature_values doc"
    using c(1) by (auto simp: from_document_claims_def bindR_Inr_iff)
  have wf: "metadata_wf E m" "claims_store (meta_claims m) = route"
      "count_get (content_size (claims_identity (meta_claims m))) \<noteq> 0"
    using metadata_from_document_wf [OF E m'] by simp_all
  then have "repr_identity r = claims_identity (meta_claims m) \<and> repr_wf r"
    using publication_payload_wf [OF E r'] by (simp add: metadata_wf_def claims_wf_def)
  then show ?thesis using wf verified_trusted_for [OF sigs] by (simp add: lines)
qed

lemma external_transport_wf:
  assumes E: "nix32_of E" and t: "external_transport E doc i = Ok t" and i: "content_wf i"
  shows "repr_identity (transport_payload t) = i \<and> repr_wf (transport_payload t)
    \<and> doc_fields doc FUrl = Some (transport_download_url t)"
proof -
  from t obtain enc fh fs p where u: "doc_fields doc FUrl = Some (transport_download_url t)"
      and fh: "external_file_hash E doc = Ok fh" and fs: "external_file_size doc = Ok fs" and tp: "transport_payload t = p"
      and case_p: "(case enc of
        WireRaw \<Rightarrow>
          (if (case fh of Some hash \<Rightarrow> hash \<noteq> from_nar_hash (content_hash i) | None \<Rightarrow> False)
              \<or> (case fs of Some n \<Rightarrow> n \<noteq> ByteCount (count_get (content_size i)) | None \<Rightarrow> False)
           then Err NarInfoError else Ok (ReprRaw i))
      | WireCompressed codec \<Rightarrow>
          (case (fh, fs) of
             (Some hash, Some n) \<Rightarrow> Ok (repr_compressed (encoded_identity codec hash n) i)
           | _ \<Rightarrow> Err NarInfoError)) = Ok p"
    unfolding external_transport_def required_def Let_def bindR_Inr_iff ok_or_Inr_iff by auto
  have p: "case enc of WireRaw \<Rightarrow> p = ReprRaw i
        | WireCompressed codec \<Rightarrow> \<exists>h n. fh = Some h \<and> fs = Some n \<and> p = repr_compressed (encoded_identity codec h n) i"
    using case_p by (cases enc; cases fh; cases fs) (auto split: if_splits)
  have "digest_wf h" if "fh = Some h" for h
    using fh that parse_hash_field_wf [OF E]
    by (cases "doc_fields doc FFileHash") (auto simp: external_file_hash_def bindR_Inr_iff ok_or_Inr_iff)
  moreover have "count_get n \<le> u64_max" if "fs = Some n" for n
    using fs that parse_nonzero_bounds
    by (cases "doc_fields doc FFileSize") (auto simp: external_file_size_def bindR_Inr_iff ok_or_Inr_iff)
  ultimately show ?thesis
    using p u i tp by (auto simp: repr_identity_def repr_wf_def repr_compressed_def encoded_identity_def
        content_wf_def content_identity_def split: WireEncoding.splits)
qed

lemma external_transfer_facts:
  assumes E: "nix32_of E" and v: "verify_external_narinfo_for_transfer E X keys route bs = Ok v"
    and m: "m = pub_metadata (validated_publication (external_publication v))"
    and r: "r = pub_payload (validated_publication (external_publication v))"
  shows "metadata_wf E m \<and> claims_store (meta_claims m) = route \<and> repr_wf r
    \<and> repr_identity r = claims_identity (meta_claims m)
    \<and> trusted_for E X keys (meta_claims m) (meta_signatures m)"
proof -
  from v obtain doc c sigs t where c: "claims_from_external_document E route doc = Ok c"
      and sigs: "named_signatures E X doc = Ok sigs" "verifies X keys (ascii (fingerprint E c)) sigs"
      and m': "from_document_claims E c doc = Ok m"
      and t: "external_transport E doc (claims_identity (meta_claims m)) = Ok t" and r': "r = transport_payload t"
    by (auto simp: verify_external_narinfo_for_transfer_def verify_external_document_def bindR_Inr_iff m r split: if_splits)
  have cwf: "claims_wf c \<and> claims_store c = route"
    using from_document_wf [OF E c [unfolded claims_from_external_document_def]] by simp
  then have mwf: "metadata_wf E m \<and> meta_claims m = c \<and> meta_signatures m = signature_values doc"
    using from_document_claims_wf [OF m'] by simp
  then have "content_wf (claims_identity (meta_claims m))" using cwf by (simp add: claims_wf_def)
  from external_transport_wf [OF E t this] show ?thesis
    using cwf mwf verified_trusted_for [OF sigs] r' by simp
qed

subsection \<open>Signing\<close>

text \<open>What \<open>ed25519_dalek\<close> documents: the bytes of a signature read back as that signature and are not
  empty, and a signature made with a key verifies strictly under its verifying key.\<close>

definition signature_laws :: "('k, 'g) externals \<Rightarrow> ('k, 'g, 's) signing_key_ops \<Rightarrow> bool" where
  "signature_laws X S = ((\<forall>g. signature_from_slice X (signature_to_bytes S g) = Some g \<and> signature_to_bytes S g \<noteq> [])
     \<and> (\<forall>k msg. verify_strict X (signing_verifying_key S k) msg (sign_message S k msg)))"

lemma sign_fingerprint_parse:
  assumes E: "base64_of E" and S: "signature_laws X S" and n: "valid_name (signing_name k)"
  shows "named_signature_parse E X (sign_fingerprint E S k msg)
    = Ok \<lparr> sig_name = signing_name k, sig_signature = sign_message S (signing_key k) (ascii msg) \<rparr>"
proof -
  let ?g = "sign_message S (signing_key k) (ascii msg)"
  let ?b = "base64_encode E (signature_to_bytes S ?g)"
  have "str_of ?b \<noteq> []"
    using base64_codec.encode64_nonempty [OF E] S by (simp add: signature_laws_def str_of_def)
  moreover have "base64_decode E (ascii (str_of ?b)) = Some (signature_to_bytes S ?g)"
    using base64_codec.decode64_encode [OF E] by simp
  moreover have "signature_from_slice X (signature_to_bytes S ?g) = Some ?g"
    using S by (simp add: signature_laws_def)
  ultimately show ?thesis
    unfolding named_signature_parse_iff using n
    by (intro exI [of _ "str_of ?b"] exI [of _ "signature_to_bytes S ?g"]) (simp add: sign_fingerprint_def)
qed

lemma traverse_list_append:
  "traverse_list f (xs @ ys) = bindR (traverse_list f xs) (\<lambda>a. bindR (traverse_list f ys) (\<lambda>b. Ok (a @ b)))"
  by (induction xs) (auto simp: bindR_def split: sum.splits)

lemma signed_validates:
  assumes E: "nix32_of E" "base64_of E" and S: "signature_laws X S" and k: "valid_name (signing_name k)"
    and key: "map_of keys (signing_name k) = Some (signing_verifying_key S (signing_key k))"
    and m: "metadata_wf E m" and r: "repr_wf r" "count_get (content_size (repr_identity r)) \<noteq> 0"
    and sigs: "traverse_list (named_signature_parse E X) (meta_signatures m) = Ok sigs"
    and m': "m' = add_signature m (sign_fingerprint E S k (fingerprint E (meta_claims m)))"
    and bs: "serialize E m' r = Ok bs"
  shows "inspect E X keys (claims_store (meta_claims m)) bs = Ok (ValidatedNarInfo \<lparr> pub_metadata = m', pub_payload = r \<rparr>)"
proof -
  let ?g = "\<lparr> sig_name = signing_name k, sig_signature = sign_message S (signing_key k) (ascii (fingerprint E (meta_claims m))) \<rparr>"
  have wf: "metadata_wf E m'" "meta_signatures m' \<noteq> []" "meta_claims m' = meta_claims m"
    using m by (simp_all add: m' add_signature_def metadata_wf_def)
  have s': "traverse_list (named_signature_parse E X) (meta_signatures m') = Ok (sigs @ [?g])"
    using sigs sign_fingerprint_parse [OF E(2) S k, of "fingerprint E (meta_claims m)"]
    by (simp add: m' add_signature_def traverse_list_append)
  have p: "unverified_parse E X (claims_store (meta_claims m)) bs
      = Ok \<lparr> unverified_publication = \<lparr> pub_metadata = m', pub_payload = r \<rparr>, unverified_signatures = sigs @ [?g] \<rparr>"
    using unverified_parse_serialized [OF E wf(1) r wf(2) s' bs] by (simp add: wf(3))
  have "verifies X keys (ascii (fingerprint E (meta_claims m))) (sigs @ [?g])"
    using key S by (auto simp: verifies_iff signature_laws_def)
  then show ?thesis by (simp add: inspect_def p verify_with_def wf(3))
qed

subsection \<open>The trust store\<close>

lemma btree_insert_keys: "fst ` set (snd (btree_insert k v m)) = insert k (fst ` set m)"
proof (induction k v m rule: btree_insert.induct)
  case (2 k v k' v' m)
  then show ?case by (cases "btree_insert k v m") (auto simp: insert_commute)
qed simp

lemma btree_insert_sorted:
  "sorted_wrt (<) (map fst m) \<Longrightarrow> sorted_wrt (<) (map fst (snd (btree_insert k v m)))"
proof (induction k v m rule: btree_insert.induct)
  case (2 k v k' v' m)
  note prems = 2(2) and IH = 2(1)
  consider "k < k'" | "k = k'" | "k' < k" by (rule linorder_cases)
  then show ?case
  proof cases
    case 1
    with prems show ?thesis by auto
  next
    case 2
    with prems show ?thesis by simp
  next
    case 3
    then have "sorted_wrt (<) (map fst (snd (btree_insert k v m)))" using IH prems by simp
    moreover have "\<forall>x \<in> fst ` set (snd (btree_insert k v m)). k' < x"
      unfolding btree_insert_keys using prems 3 by auto
    ultimately show ?thesis using 3 by (cases "btree_insert k v m") auto
  qed
qed simp

lemma btree_insert_set: "x \<in> set (snd (btree_insert k v m)) \<Longrightarrow> x = (k, v) \<or> x \<in> set m"
  by (induction k v m rule: btree_insert.induct) (auto split: prod.splits if_splits)

lemma btree_insert_last:
  "\<forall>x \<in> set (map fst m). x < k \<Longrightarrow> btree_insert k v m = (None, m @ [(k, v)])"
  by (induction k v m rule: btree_insert.induct) auto

definition trust_entry_wf :: "('k, 'g) externals \<Rightarrow> string \<times> 'k \<Rightarrow> bool" where
  "trust_entry_wf X e = (valid_name (fst e) \<and> \<not> key_is_weak X (snd e)
     \<and> (\<exists>bs. length bs = 32 \<and> key_from_bytes X bs = Some (snd e)))"

definition trust_wf :: "('k, 'g) externals \<Rightarrow> 'k TrustedPublicKeys \<Rightarrow> bool" where
  "trust_wf X keys = (sorted_wrt (<) (map fst keys) \<and> (\<forall>e \<in> set keys. trust_entry_wf X e))"

lemma trust_entry_iff:
  "trust_entry E X keys entry = Ok keys' \<longleftrightarrow> (\<exists>n e bs key. entry = n @ CHR '':'' # e \<and> valid_name n \<and> e \<noteq> []
    \<and> base64_decode E (ascii e) = Some bs \<and> length bs = 32 \<and> key_from_bytes X bs = Some key \<and> \<not> key_is_weak X key
    \<and> btree_insert n key keys = (None, keys'))"
proof -
  have b: "(case base64_decode E (ascii e) of Some bs \<Rightarrow> if length bs = 32 then Some bs else None | None \<Rightarrow> None) = Some bs
      \<longleftrightarrow> base64_decode E (ascii e) = Some bs \<and> length bs = 32" for e bs
    by (cases "base64_decode E (ascii e)") auto
  have c: "(if key_is_weak X key then Err InvalidTrustFile
      else (case btree_insert n key keys of (Some _, _) \<Rightarrow> Err InvalidTrustFile | (None, keys') \<Rightarrow> Ok keys')) = Ok keys'
      \<longleftrightarrow> \<not> key_is_weak X key \<and> btree_insert n key keys = (None, keys')" for n key
    by (cases "btree_insert n key keys"; cases "fst (btree_insert n key keys)") auto
  show ?thesis
    unfolding trust_entry_def bindR_Inr_iff ok_or_Inr_iff split_paired_Ex named_data_iff prod.case b c
    by (simp only: conj_assoc ex_simps)
qed

lemma trust_entry_keeps:
  assumes "trust_entry E X keys entry = Ok keys'" and wf: "trust_wf X keys"
  shows "trust_wf X keys'"
proof -
  from assms(1) obtain n bs key where n: "valid_name n" "length bs = 32" "key_from_bytes X bs = Some key" "\<not> key_is_weak X key"
      and ins: "btree_insert n key keys = (None, keys')"
    unfolding trust_entry_iff by blast
  have "trust_entry_wf X (n, key)" using n by (auto simp: trust_entry_wf_def)
  moreover have "x = (n, key) \<or> x \<in> set keys" if "x \<in> set keys'" for x
    using btree_insert_set [of x n key keys] that by (simp add: ins)
  moreover have "sorted_wrt (<) (map fst keys')"
    using btree_insert_sorted [of keys n key] wf by (simp add: ins trust_wf_def)
  ultimately show ?thesis using wf unfolding trust_wf_def by blast
qed

lemma trust_parse_wf: "trust_parse E X s = Ok keys \<Longrightarrow> trust_wf X keys"
proof -
  assume "trust_parse E X s = Ok keys"
  then have "try_fold (trust_entry E X) [] (split_ascii_whitespace s) = Ok keys"
    by (simp add: trust_parse_def split: if_splits)
  then show ?thesis
    by (rule try_fold_invariant [where P = "trust_wf X"]) (simp add: trust_wf_def, rule trust_entry_keeps)
qed

subsection \<open>The trust file, written and read\<close>

definition key_laws :: "('k, 'g) externals \<Rightarrow> bool" where
  "key_laws X = (\<forall>k. length (key_as_bytes X k) = 32 \<and> key_from_bytes X (key_as_bytes X k) = Some k)"

lemma encoded_entry:
  assumes E: "base64_of E" and X: "key_laws X" and n: "valid_name n" and k: "\<not> key_is_weak X k"
    and less: "\<forall>x \<in> set (map fst keys). x < n"
  shows "trust_entry E X keys (n @ '':'' @ str_of (base64_encode E (key_as_bytes X k))) = Ok (keys @ [(n, k)])"
proof -
  let ?b = "base64_encode E (key_as_bytes X k)"
  have "length (key_as_bytes X k) = 32" using X by (simp add: key_laws_def)
  then have "key_as_bytes X k \<noteq> []" by auto
  then have "str_of ?b \<noteq> []" using base64_codec.encode64_nonempty [OF E] by (simp add: str_of_def)
  moreover have "base64_decode E (ascii (str_of ?b)) = Some (key_as_bytes X k)"
    using base64_codec.decode64_encode [OF E] by simp
  ultimately show ?thesis
    unfolding trust_entry_iff using n k X btree_insert_last [OF less, of k]
    by (intro exI [of _ n] exI [of _ "str_of ?b"] exI [of _ "key_as_bytes X k"] exI [of _ k]) (simp add: key_laws_def)
qed

lemma encoded_keys_fold:
  assumes E: "base64_of E" and X: "key_laws X" and wf: "trust_wf X (acc @ keys)"
  shows "try_fold (trust_entry E X) acc (encoded_keys E X keys) = Ok (acc @ keys)"
  using wf
proof (induction keys arbitrary: acc)
  case Nil
  then show ?case by (simp add: encoded_keys_def)
next
  case (Cons e keys)
  obtain n k where e: "e = (n, k)" by force
  have "valid_name n" "\<not> key_is_weak X k" "\<forall>x \<in> set (map fst acc). x < n"
    using Cons.prems by (auto simp: e trust_wf_def trust_entry_wf_def sorted_wrt_append)
  then have "trust_entry E X acc (n @ '':'' @ str_of (base64_encode E (key_as_bytes X k))) = Ok (acc @ [(n, k)])"
    by (rule encoded_entry [OF E X])
  moreover have "try_fold (trust_entry E X) (acc @ [(n, k)]) (encoded_keys E X keys) = Ok (acc @ (n, k) # keys)"
    using Cons.IH [of "acc @ [(n, k)]"] Cons.prems by (simp add: e)
  ultimately show ?case by (simp add: e encoded_keys_def)
qed

lemma text_not_whitespace:
  "valid_name n \<Longrightarrow> list_all (\<lambda>c. \<not> ascii_whitespace c) n"
  unfolding valid_name_def by (auto simp: list_all_iff ascii_whitespace_def ascii_alphanumeric_def ascii_digit_def)

lemma base64_not_whitespace:
  assumes E: "base64_of E"
  shows "list_all (\<lambda>c. \<not> ascii_whitespace c) (str_of (base64_encode E d))"
proof -
  have "list_all (\<lambda>c. \<not> ascii_whitespace c) (BASE64_SYMBOLS @ ''='')"
    by (simp add: BASE64_SYMBOLS_def ascii_whitespace_def)
  moreover have "set (str_of (base64_encode E d)) \<subseteq> set (str_of (ascii (BASE64_SYMBOLS @ ''='')))"
    unfolding str_of_def set_map by (rule image_mono) (rule base64_codec.encode64_symbols [OF E])
  ultimately show ?thesis unfolding str_of_ascii by (auto simp: list_all_iff)
qed

lemma encoded_keys_parse:
  assumes E: "base64_of E" and X: "key_laws X" and wf: "trust_wf X keys"
    and len: "length (join '' '' (encoded_keys E X keys)) \<le> MAX_TRUST_FILE_BYTES"
  shows "trust_parse E X (join '' '' (encoded_keys E X keys)) = Ok keys"
proof -
  have "split_ascii_whitespace (join '' '' (encoded_keys E X keys)) = encoded_keys E X keys"
  proof (rule split_whitespace_join)
    fix w assume "w \<in> set (encoded_keys E X keys)"
    then obtain n k where nk: "(n, k) \<in> set keys" "w = n @ '':'' @ str_of (base64_encode E (key_as_bytes X k))"
      by (auto simp: encoded_keys_def)
    then have "valid_name n" using wf by (auto simp: trust_wf_def trust_entry_wf_def)
    moreover have "\<not> ascii_whitespace (CHR '':'')" by (simp add: ascii_whitespace_def)
    ultimately show "w \<noteq> [] \<and> list_all (\<lambda>c. \<not> ascii_whitespace c) w"
      using text_not_whitespace base64_not_whitespace [OF E] by (simp add: nk(2))
  qed
  then show ?thesis using encoded_keys_fold [OF E X, of "[]" keys] wf len by (simp add: trust_parse_def)
qed

subsection \<open>A concrete signature scheme and a signed document\<close>

text \<open>Signatures that equal the key, tagged by one byte; enough to satisfy the laws.\<close>

definition toy_externals :: "(bytes, bytes) externals" where
  "toy_externals = \<lparr> uri_parse = (\<lambda>_. Some \<lparr> has_fragment = False, uri_scheme = None, authority_host = None \<rparr>),
     signature_from_slice = (\<lambda>bs. case bs of [] \<Rightarrow> None | b # g \<Rightarrow> Some g),
     key_from_bytes = Some, key_as_bytes = (\<lambda>k. k), key_is_weak = (\<lambda>_. False), verify_strict = (\<lambda>k msg g. g = k) \<rparr>"

definition toy_signing :: "(bytes, bytes, bytes) signing_key_ops" where
  "toy_signing = \<lparr> signing_from_seed = (\<lambda>s. s), signing_verifying_key = (\<lambda>s. s), sign_message = (\<lambda>s msg. s),
     signature_to_bytes = (\<lambda>g. 0 # g) \<rparr>"

definition toy_key :: "bytes NixSigningKey" where
  "toy_key = \<lparr> signing_name = ''cache-1'', signing_key = [0, 0] \<rparr>"

definition unsigned_sample :: NarInfoMetadata where
  "unsigned_sample = sample_metadata\<lparr> meta_signatures := [] \<rparr>"

lemma toy_laws: "signature_laws toy_externals toy_signing"
  by (simp add: signature_laws_def toy_externals_def toy_signing_def)

lemma toy_signature: "sign_fingerprint standard_encodings toy_signing toy_key msg = ''cache-1:AAAA''"
proof -
  have "msb64_encode [0, 0, 0] = ascii ''AAAA''"
    by (simp add: quad_encode_def symbol_at_def BASE64_SYMBOLS_def ascii_def)
  then show ?thesis
    unfolding sign_fingerprint_def toy_signing_def toy_key_def standard_encodings_def by simp
qed

lemma sign_sample:
  "add_signature unsigned_sample (sign_fingerprint standard_encodings toy_signing toy_key
      (fingerprint standard_encodings (meta_claims unsigned_sample))) = sample_metadata"
  unfolding toy_signature by (simp add: add_signature_def unsigned_sample_def sample_metadata_def)

lemma toy_key_facts:
  "valid_name (signing_name toy_key)"
  "map_of [(''cache-1'', [0, 0])] (signing_name toy_key) = Some (signing_verifying_key toy_signing (signing_key toy_key))"
  by (simp_all add: toy_key_def toy_signing_def valid_name_def ascii_alphanumeric_def ascii_digit_def)

lemma unsigned_sample_facts:
  "metadata_wf standard_encodings unsigned_sample"
  "traverse_list (named_signature_parse standard_encodings toy_externals) (meta_signatures unsigned_sample) = Ok []"
  "claims_store (meta_claims unsigned_sample) = StoreHash (ascii NIX32)"
  using sample_metadata_wf
  by (simp_all add: unsigned_sample_def metadata_wf_def sample_metadata_def claims_store_def sample_path_def)

definition sample_bytes :: bytes where
  "sample_bytes = ascii (lines_text (narinfo_lines standard_encodings sample_metadata sample_repr))"

lemma sample_inspect:
  "inspect standard_encodings toy_externals [(''cache-1'', [0, 0])] (StoreHash (ascii NIX32)) sample_bytes
    = Ok (ValidatedNarInfo \<lparr> pub_metadata = sample_metadata, pub_payload = sample_repr \<rparr>)"
  using signed_validates [OF nix32_standard base64_standard toy_laws toy_key_facts unsigned_sample_facts(1)
      sample_repr_facts unsigned_sample_facts(2) sign_sample [symmetric] sample_serialize]
  by (simp add: unsigned_sample_facts(3) sample_bytes_def)

lemma sample_document_external:
  "\<exists>text. parse_narinfo_text sample_bytes = Ok text
    \<and> document_parse_external text = Ok (written_document standard_encodings sample_metadata sample_repr)"
proof -
  have "bindR (parse_narinfo_text sample_bytes) document_parse_external
      = Ok (written_document standard_encodings sample_metadata sample_repr)"
    unfolding sample_bytes_def document_parse_external_def
  proof (rule written_document_parse [OF nix32_standard base64_standard sample_metadata_wf sample_repr_facts(1)])
    show "s \<in> set (meta_signatures sample_metadata) \<Longrightarrow> text_ok s" for s
      by (simp add: sample_metadata_def text_char_def)
    show "length (lines_text (narinfo_lines standard_encodings sample_metadata sample_repr)) \<le> MAX_NARINFO_BYTES"
      using sample_serialize by (simp add: serialize_def metadata_write_lines bounded_append_def split: if_splits)
  qed
  then show ?thesis by (simp add: bindR_Inr_iff)
qed

lemma sample_transport:
  defines "d \<equiv> written_document standard_encodings sample_metadata sample_repr"
  shows "external_file_hash standard_encodings d = Ok (Some zero_digest)"
    "external_file_size d = Ok (Some (ByteCount 226560))"
    "required d FCompression = Ok ''none''"
    "required d FUrl = Ok (''nar/'' @ file_name_display standard_encodings (repr_file_name sample_repr))"
proof -
  have z: "from_nar_hash zero_digest = zero_digest" by (simp add: from_nar_hash_def zero_digest_def)
  show "external_file_hash standard_encodings d = Ok (Some zero_digest)"
    using parse_hash_field_display [OF nix32_standard, of "zero_digest :: FileHash"]
    by (simp add: external_file_hash_def d_def written_document_def sample_repr_def repr_file_name_def file_name_raw_def
        content_identity_def z)
  show "external_file_size d = Ok (Some (ByteCount 226560))"
    using parse_nonzero_display [of 226560]
    by (simp add: external_file_size_def d_def written_document_def sample_repr_def repr_encoded_size_def count_display_def
        content_identity_def u64_max_def)
qed (simp_all add: d_def written_document_def required_def sample_repr_def wire_encoding_def compression_def)

lemma sample_transfer:
  "\<exists>v. verify_external_narinfo_for_transfer standard_encodings toy_externals [(''cache-1'', [0, 0])] (StoreHash (ascii NIX32)) sample_bytes = Ok v
    \<and> pub_metadata (validated_publication (external_publication v)) = sample_metadata
    \<and> pub_payload (validated_publication (external_publication v)) = sample_repr"
proof -
  let ?E = standard_encodings and ?d = "written_document standard_encodings sample_metadata sample_repr"
  let ?c = "meta_claims sample_metadata" and ?g = "\<lparr> sig_name = ''cache-1'', sig_signature = [0, 0 :: byte] \<rparr>"
  obtain body where body: "parse_narinfo_text sample_bytes = Ok body" "document_parse_external body = Ok ?d"
    using sample_document_external by blast
  have c: "claims_from_external_document ?E (StoreHash (ascii NIX32)) ?d = Ok ?c"
  proof -
    have "claims_store ?c = StoreHash (ascii NIX32)" by (simp add: sample_metadata_def claims_store_def sample_path_def)
    then show ?thesis
      unfolding claims_from_external_document_def
      using written_claims [OF nix32_standard, of sample_metadata sample_repr MissingMeansEmpty] sample_metadata_wf
      by (simp add: metadata_wf_def) (simp add: sample_metadata_def content_identity_def)
  qed
  have "named_signature_parse ?E toy_externals ''cache-1:AAAA'' = Ok ?g"
    using sign_fingerprint_parse [OF base64_standard toy_laws toy_key_facts(1), of "[]"]
    unfolding toy_signature by (simp add: toy_key_def toy_signing_def)
  then have s: "named_signatures ?E toy_externals ?d = Ok [?g]"
    by (simp add: named_signatures_def written_document_def sample_metadata_def)
  have v: "validate_external_transport ?E toy_externals ?d = Ok ()"
    unfolding validate_external_transport_def sample_transport
    by (simp add: toy_externals_def wire_from_str_def)
  have "verifies toy_externals [(''cache-1'', [0, 0])] (ascii (fingerprint ?E ?c)) [?g]"
    by (simp add: verifies_def toy_externals_def)
  then have doc: "verify_external_document ?E toy_externals [(''cache-1'', [0, 0])] (StoreHash (ascii NIX32)) body = Ok (?d, ?c)"
    by (simp add: verify_external_document_def body(2) v c s)
  have "external_transport ?E ?d (claims_identity ?c)
      = Ok \<lparr> transport_download_url = ''nar/'' @ file_name_display ?E (repr_file_name sample_repr), transport_payload = sample_repr \<rparr>"
    unfolding external_transport_def sample_transport
    by (simp add: wire_from_str_def sample_metadata_def sample_repr_def content_identity_def from_nar_hash_def zero_digest_def)
  then show ?thesis
    using written_metadata [OF sample_metadata_wf, of sample_repr]
    by (simp add: verify_external_narinfo_for_transfer_def body(1) doc)
qed

subsection \<open>Properties\<close>

text \<open>C15: what a parsed document holds, exactly.  Parsing succeeds precisely when the text ends in a line feed,
  every line has the form \<open>name: value\<close> with a known name (or unknown names are ignored), and no unique
  field occurs twice; then each field holds the value of its only line and the signatures are the values of the
  signature lines in their order.\<close>

theorem document_exact:
  "parse_with_unknown_fields text u = Ok d \<longleftrightarrow> (\<exists>body. text = body @ [CHR 0x0A]
    \<and> list_all (line_ok u) (str_split (CHR 0x0A) body)
    \<and> (\<forall>f. slot_list (doc_fields d f) = field_values (Unique f) (str_split (CHR 0x0A) body))
    \<and> signature_values d = field_values SignatureLine (str_split (CHR 0x0A) body))"
  by (rule document_lines_iff)

text \<open>C16: a signature binds every logical field.  The fingerprint that is signed determines the claims: two
  well-formed sets of claims with the same fingerprint have the same store path, archive hash and size, and the
  same references.\<close>

theorem fingerprint_binds_claims:
  assumes "nix32_codec (nix32_encode E) (nix32_decode E)" and "claims_wf c" and "claims_wf d"
    and "fingerprint E c = fingerprint E d"
  shows "c = d"
  by (rule fingerprint_inj [OF assms])

theorem fingerprint_binds_claims_witness:
  "fingerprint standard_encodings (meta_claims sample_metadata)
    \<noteq> fingerprint standard_encodings ((meta_claims sample_metadata)\<lparr> claims_references := [] \<rparr>)"
proof
  assume eq: "fingerprint standard_encodings (meta_claims sample_metadata)
    = fingerprint standard_encodings ((meta_claims sample_metadata)\<lparr> claims_references := [] \<rparr>)"
  have "claims_wf (meta_claims sample_metadata)" "claims_wf ((meta_claims sample_metadata)\<lparr> claims_references := [] \<rparr>)"
    using sample_metadata_wf by (simp_all add: metadata_wf_def claims_wf_def references_wf_def)
  from fingerprint_binds_claims [OF nix32_standard this eq] show False
    by (simp add: sample_metadata_def)
qed

text \<open>C17: a narinfo that passes inspection is trustworthy.  Its metadata satisfies the invariant, it belongs to
  the requested route, its payload describes the archive of its claims and is not empty, and one of its own
  signature lines verifies, under a key of the trust store with the name it gives, for the fingerprint of
  exactly the claims returned.\<close>

theorem validated_narinfo_sound:
  assumes "nix32_codec (nix32_encode E) (nix32_decode E)"
    and "inspect E X keys route bs = Ok v"
    and "m = pub_metadata (validated_publication v)" and "r = pub_payload (validated_publication v)"
  shows "metadata_wf E m \<and> claims_store (meta_claims m) = route \<and> repr_wf r
    \<and> repr_identity r = claims_identity (meta_claims m) \<and> count_get (content_size (repr_identity r)) \<noteq> 0
    \<and> trusted_for E X keys (meta_claims m) (meta_signatures m)"
  by (rule inspect_sound [OF assms])

theorem validated_narinfo_sound_witness:
  "trusted_for standard_encodings toy_externals [(''cache-1'', [0, 0])] (meta_claims sample_metadata) [''cache-1:AAAA'']"
  using validated_narinfo_sound [OF nix32_standard sample_inspect refl refl] by (simp add: sample_metadata_def)

text \<open>C18: the same holds for a narinfo fetched from another cache for transfer, although its transport fields follow
  looser rules: the claims are signed by a trusted key and the payload descriptor describes the signed archive.\<close>

theorem external_transfer_sound:
  assumes "nix32_codec (nix32_encode E) (nix32_decode E)"
    and "verify_external_narinfo_for_transfer E X keys route bs = Ok v"
    and "m = pub_metadata (validated_publication (external_publication v))"
    and "r = pub_payload (validated_publication (external_publication v))"
  shows "metadata_wf E m \<and> claims_store (meta_claims m) = route \<and> repr_wf r
    \<and> repr_identity r = claims_identity (meta_claims m)
    \<and> trusted_for E X keys (meta_claims m) (meta_signatures m)"
  by (rule external_transfer_facts [OF assms])

theorem external_transfer_sound_witness:
  "trusted_for standard_encodings toy_externals [(''cache-1'', [0, 0])] (meta_claims sample_metadata) [''cache-1:AAAA'']
    \<and> repr_identity sample_repr = claims_identity (meta_claims sample_metadata)"
proof -
  obtain v where v: "verify_external_narinfo_for_transfer standard_encodings toy_externals [(''cache-1'', [0, 0])] (StoreHash (ascii NIX32)) sample_bytes = Ok v"
      "pub_metadata (validated_publication (external_publication v)) = sample_metadata"
      "pub_payload (validated_publication (external_publication v)) = sample_repr"
    using sample_transfer by blast
  from external_transfer_sound [OF nix32_standard v(1) v(2) [symmetric] v(3) [symmetric]]
  show ?thesis by (simp add: sample_metadata_def)
qed

text \<open>C19: what this program signs and writes, it accepts.  Metadata signed with a key whose public half
  is in the trust store under the key's name, and serialised for a payload, passes inspection for its route and
  yields the same metadata and payload, whatever other parsable signatures it carries.\<close>

theorem signed_narinfo_validates:
  assumes "nix32_codec (nix32_encode E) (nix32_decode E)" and "base64_codec (base64_encode E) (base64_decode E)"
    and "signature_laws X S" and "valid_name (signing_name k)"
    and "map_of keys (signing_name k) = Some (signing_verifying_key S (signing_key k))"
    and "metadata_wf E m" and "repr_wf r" and "count_get (content_size (repr_identity r)) \<noteq> 0"
    and "traverse_list (named_signature_parse E X) (meta_signatures m) = Ok sigs"
    and "m' = add_signature m (sign_fingerprint E S k (fingerprint E (meta_claims m)))"
    and "serialize E m' r = Ok bs"
  shows "inspect E X keys (claims_store (meta_claims m)) bs
    = Ok (ValidatedNarInfo \<lparr> pub_metadata = m', pub_payload = r \<rparr>)"
  by (rule signed_validates [OF assms])

theorem signed_narinfo_validates_witness:
  "\<exists>bs. inspect standard_encodings toy_externals [(''cache-1'', [0, 0])] (StoreHash (ascii NIX32)) bs
    = Ok (ValidatedNarInfo \<lparr> pub_metadata = sample_metadata, pub_payload = sample_repr \<rparr>)"
  using signed_narinfo_validates [OF nix32_standard base64_standard toy_laws toy_key_facts unsigned_sample_facts(1)
      sample_repr_facts unsigned_sample_facts(2) sign_sample [symmetric] sample_serialize]
  unfolding unsigned_sample_facts(3) by (rule exI)



text \<open>C21: the trust file.  The keys a parsed trust file yields are sorted by name without duplicates, have
  valid names and are not weak; and the encoded keys of such a store, written one after the other, parse back to the
  same store.\<close>

theorem trust_file_roundtrip:
  assumes "base64_codec (base64_encode E) (base64_decode E)" and "key_laws X"
    and "length (join '' '' (encoded_keys E X keys)) \<le> MAX_TRUST_FILE_BYTES"
  shows "((\<exists>s. trust_parse E X s = Ok keys) \<longleftrightarrow> trust_wf X keys)
    \<and> (trust_wf X keys \<longrightarrow> trust_parse E X (join '' '' (encoded_keys E X keys)) = Ok keys)"
  using encoded_keys_parse [OF assms(1,2) _ assms(3)] trust_parse_wf by blast

text \<open>An externals record whose keys are the numbers \<open>0 \<dots> 255\<close> in 32 bytes.\<close>

definition byte_key_externals :: "(byte, bytes) externals" where
  "byte_key_externals = \<lparr> uri_parse = (\<lambda>_. None), signature_from_slice = Some,
     key_from_bytes = (\<lambda>bs. if bs \<noteq> [] then Some (hd bs) else None), key_as_bytes = (\<lambda>k. replicate 32 k),
     key_is_weak = (\<lambda>k. k = 0), verify_strict = (\<lambda>k msg g. g = [k]) \<rparr>"

lemma msb64_length: "length (msb64_encode d) \<le> 4 * length d"
  by (induction d rule: msb64_encode.induct) (simp_all add: length_quad_encode)

theorem trust_file_roundtrip_witness:
  "trust_parse standard_encodings byte_key_externals
    (join '' '' (encoded_keys standard_encodings byte_key_externals [(''a.example'', 1), (''b.example'', 2)]))
    = Ok [(''a.example'', 1), (''b.example'', 2)]"
proof -
  let ?keys = "[(''a.example'', 1), (''b.example'', 2 :: byte)]"
  have "key_laws byte_key_externals" by (simp add: key_laws_def byte_key_externals_def)
  moreover have "length (join '' '' (encoded_keys standard_encodings byte_key_externals ?keys)) \<le> MAX_TRUST_FILE_BYTES"
    using msb64_length [of "replicate 32 1"] msb64_length [of "replicate 32 2"]
    by (simp add: encoded_keys_def standard_encodings_def byte_key_externals_def MAX_TRUST_FILE_BYTES_def)
  moreover have "trust_wf byte_key_externals ?keys"
    by (auto simp: trust_wf_def trust_entry_wf_def byte_key_externals_def valid_name_def ascii_alphanumeric_def
        ascii_digit_def intro!: exI [of _ "replicate 32 _"])
  ultimately show ?thesis
    using trust_file_roundtrip [OF base64_standard, of byte_key_externals ?keys] by blast
qed

end
