(* ===== verification/Collection.thy ===== *)
theory Collection
  imports Store_Ids "HOL-Library.AList"
begin

section \<open>Coordination of readers, writers and the collector (\<open>src/storage/collection.rs\<close>)\<close>

text \<open>
  The coordinator keeps, under one mutex, the number of mutations in progress, the readers per object,
  the phase of the collector, and the objects protected recently.  Each critical section is one
  function on the record \<open>Activity\<close>; leases and the collector's snapshot are tokens held outside, so a step
  relation on the coordinator together with the outstanding tokens models the concurrent
  program, every step being one critical section.  A wait on the condition variable is a
  step that is not enabled.  The ordered maps of the source are association lists with distinct keys; instants are
  numbers of nanoseconds.
\<close>

subsection \<open>Objects, selections, phases\<close>

datatype ProtectedObject = ProtPublication StoreHash | ProtCanonicalNar NarHash

datatype ObjectSelection = SelectAll | SelectObjects "ProtectedObject list"

datatype CollectionPhase = Idle | Scanning | Deleting ObjectSelection

datatype CollectionError = CollectionBusy | CollectionChanged | CollectionExhausted | RenewalNeedsPublicationReader

definition ONLINE_GC_GRACE :: nat where
  "ONLINE_GC_GRACE = 600 * 10 ^ 9"

definition RECENT_OBJECT_LIMIT :: nat where
  "RECENT_OBJECT_LIMIT = 4096"

definition selection_is_empty :: "ObjectSelection \<Rightarrow> bool" where
  "selection_is_empty s = (case s of SelectAll \<Rightarrow> False | SelectObjects objects \<Rightarrow> objects = [])"

definition selection_contains :: "ObjectSelection \<Rightarrow> ProtectedObject \<Rightarrow> bool" where
  "selection_contains s object = (case s of SelectAll \<Rightarrow> True | SelectObjects objects \<Rightarrow> object \<in> set objects)"

definition contains_nar_name :: "encodings \<Rightarrow> ObjectSelection \<Rightarrow> string \<Rightarrow> bool" where
  "contains_nar_name E s name = (case s of
      SelectAll \<Rightarrow> True
    | SelectObjects _ \<Rightarrow> (case file_name_parse E name of
          Inr n \<Rightarrow> (case raw_hash n of Some hash \<Rightarrow> selection_contains s (ProtCanonicalNar hash) | None \<Rightarrow> False)
        | Inl _ \<Rightarrow> False))"

subsection \<open>The activity record and its critical sections\<close>

record Activity =
  generation :: nat
  mutations :: nat
  readers :: "(ProtectedObject \<times> nat) list"
  phase :: CollectionPhase
  protect_all_until :: nat
  recent :: "(ProtectedObject \<times> nat) list"

record CollectionSnapshot =
  snap_generation :: nat
  snap_protect_all_until :: nat
  snap_protection :: ObjectSelection

datatype ActivityKind = Mutation | Reader ProtectedObject

definition coordinator_new :: "nat \<Rightarrow> Activity" where
  "coordinator_new now = \<lparr> generation = 0, mutations = 0, readers = [], phase = Idle,
     protect_all_until = now + ONLINE_GC_GRACE, recent = [] \<rparr>"

definition retiring_object_has_a_reader :: "Activity \<Rightarrow> ObjectSelection \<Rightarrow> bool" where
  "retiring_object_has_a_reader a retiring = list_ex (\<lambda>(object, _). selection_contains retiring object) (readers a)"

definition retiring_object_gained_protection :: "Activity \<Rightarrow> ObjectSelection \<Rightarrow> CollectionSnapshot \<Rightarrow> bool" where
  "retiring_object_gained_protection a retiring snapshot =
    ((\<not> selection_is_empty retiring \<and> snap_protect_all_until snapshot < protect_all_until a)
     \<or> list_ex (\<lambda>(object, _). selection_contains retiring object
          \<and> \<not> selection_contains (snap_protection snapshot) object) (recent a))"

definition invalidate_snapshot :: "Activity \<Rightarrow> CollectionError + Activity" where
  "invalidate_snapshot a =
    bindR (ok_or CollectionExhausted (checked_add_u64 (generation a) 1)) (\<lambda>g. Ok (a\<lparr> generation := g \<rparr>))"

definition retain_after :: "nat \<Rightarrow> (ProtectedObject \<times> nat) list \<Rightarrow> (ProtectedObject \<times> nat) list" where
  "retain_after now m = filter (\<lambda>(_, until). now < until) m"

definition activity_protect :: "Activity \<Rightarrow> ProtectedObject \<Rightarrow> nat \<Rightarrow> Activity" where
  "activity_protect a object now =
    (let a = (case phase a of Scanning \<Rightarrow> a | _ \<Rightarrow> a\<lparr> recent := retain_after now (recent a) \<rparr>);
         until = now + ONLINE_GC_GRACE;
         has_room = length (recent a) < RECENT_OBJECT_LIMIT in
     case map_of (recent a) object of
       Some existing \<Rightarrow> a\<lparr> recent := AList.update object (max existing until) (recent a) \<rparr>
     | None \<Rightarrow> if has_room then a\<lparr> recent := AList.update object until (recent a) \<rparr>
               else a\<lparr> protect_all_until := max (protect_all_until a) until \<rparr>)"

definition admit_activity :: "Activity \<Rightarrow> ActivityKind \<Rightarrow> CollectionError + Activity" where
  "admit_activity a kind = (case kind of
      Mutation \<Rightarrow> bindR (ok_or CollectionExhausted (checked_add_u64 (mutations a) 1)) (\<lambda>n.
        Ok (a\<lparr> mutations := n \<rparr>))
    | Reader object \<Rightarrow>
        bindR (ok_or CollectionExhausted (checked_add_u64 (case map_of (readers a) object of Some n \<Rightarrow> n | None \<Rightarrow> 0) 1)) (\<lambda>n.
        Ok (a\<lparr> readers := AList.update object n (readers a) \<rparr>)))"

definition wait_until_not_deleting :: "Activity \<Rightarrow> bool" where
  "wait_until_not_deleting a = (case phase a of Deleting _ \<Rightarrow> False | _ \<Rightarrow> True)"

text \<open>The generation stays advanced when the count of mutations is exhausted.\<close>

definition coordinator_mutation :: "Activity \<Rightarrow> (CollectionError + unit) \<times> Activity" where
  "coordinator_mutation a = (case invalidate_snapshot a of
      Inl e \<Rightarrow> (Err e, a)
    | Inr a \<Rightarrow> (case admit_activity a Mutation of
          Inl e \<Rightarrow> (Err e, a)
        | Inr a \<Rightarrow> (Ok (), a)))"

definition coordinator_reader :: "Activity \<Rightarrow> ProtectedObject \<Rightarrow> CollectionError + Activity option" where
  "coordinator_reader a object =
    (let retiring = (case phase a of Deleting r \<Rightarrow> selection_contains r object | _ \<Rightarrow> False) in
     if retiring then Ok None
     else bindR (admit_activity a (Reader object)) (\<lambda>a. Ok (Some a)))"

definition drop_activity :: "Activity \<Rightarrow> ActivityKind \<Rightarrow> ProtectedObject option \<Rightarrow> nat \<Rightarrow> Activity" where
  "drop_activity a kind advertisement now =
    (let a = (case advertisement of Some object \<Rightarrow> activity_protect a object now | None \<Rightarrow> a) in
     case kind of
       Mutation \<Rightarrow> a\<lparr> mutations := mutations a - 1 \<rparr>
     | Reader object \<Rightarrow>
         (let count = the (map_of (readers a) object) - 1 in
          if count = 0 then a\<lparr> readers := AList.delete object (readers a) \<rparr>
          else a\<lparr> readers := AList.update object count (readers a) \<rparr>))"

definition snapshot_at :: "Activity \<Rightarrow> nat \<Rightarrow> CollectionError + Activity \<times> CollectionSnapshot" where
  "snapshot_at a now =
    (if phase a \<noteq> Idle \<or> mutations a \<noteq> 0 then Err CollectionBusy
     else let a = a\<lparr> recent := retain_after now (recent a), phase := Scanning \<rparr>;
              protection = (if now < protect_all_until a then SelectAll
                else SelectObjects (map fst (filter (\<lambda>(_, until). now < until) (recent a)))) in
       Ok (a, \<lparr> snap_generation = generation a, snap_protect_all_until = protect_all_until a,
                snap_protection = protection \<rparr>))"

definition refresh_read_protection :: "Activity \<Rightarrow> CollectionSnapshot \<Rightarrow> CollectionSnapshot" where
  "refresh_read_protection a s =
    (let s = (if snap_protect_all_until s < protect_all_until a then s\<lparr> snap_protection := SelectAll \<rparr> else s) in
     case snap_protection s of
       SelectAll \<Rightarrow> s
     | SelectObjects objects \<Rightarrow> s\<lparr> snap_protection := SelectObjects (objects @ map fst (recent a)) \<rparr>)"

text \<open>A refused authorisation drops the snapshot and with it the collector's lease.\<close>

definition drop_collection :: "Activity \<Rightarrow> Activity" where
  "drop_collection a = a\<lparr> phase := Idle \<rparr>"

definition authorize_retirement ::
    "Activity \<Rightarrow> CollectionSnapshot \<Rightarrow> ObjectSelection \<Rightarrow> (CollectionError + unit) \<times> Activity" where
  "authorize_retirement a s retiring =
    (if mutations a \<noteq> 0 \<or> retiring_object_has_a_reader a retiring then (Err CollectionBusy, drop_collection a)
     else if generation a \<noteq> snap_generation s \<or> retiring_object_gained_protection a retiring s
       then (Err CollectionChanged, drop_collection a)
     else (Ok (), a\<lparr> phase := Deleting retiring \<rparr>))"

definition authorize_retention_removal :: "Activity \<Rightarrow> StoreHash \<Rightarrow> CollectionError + unit" where
  "authorize_retention_removal a store = (case phase a of
      Deleting retiring \<Rightarrow> if selection_contains retiring (ProtPublication store) then Ok () else Err CollectionBusy
    | _ \<Rightarrow> Err CollectionBusy)"

text \<open>The operations of a lease: a lease is its kind and the object it advertises, if any.\<close>

record ActivityLease =
  lease_kind :: ActivityKind
  lease_advertisement :: "ProtectedObject option"

definition advertisement_renewal :: "ActivityLease \<Rightarrow> CollectionError + StoreHash" where
  "advertisement_renewal lease = (case lease_kind lease of
      Reader (ProtPublication store) \<Rightarrow> Ok store
    | _ \<Rightarrow> Err RenewalNeedsPublicationReader)"

definition lease_advertise :: "Activity \<Rightarrow> ActivityLease \<Rightarrow> StoreHash \<Rightarrow> nat \<Rightarrow> Activity \<times> ActivityLease" where
  "lease_advertise a lease store now =
    (activity_protect a (ProtPublication store) now, lease\<lparr> lease_advertisement := Some (ProtPublication store) \<rparr>)"

definition protect_at :: "Activity \<Rightarrow> ActivityLease \<Rightarrow> ProtectedObject \<Rightarrow> nat \<Rightarrow> Activity" where
  "protect_at a lease object now = activity_protect a object now"

definition authorize_deletion :: "Activity \<Rightarrow> CollectionSnapshot \<Rightarrow> (CollectionError + unit) \<times> Activity" where
  "authorize_deletion a s = authorize_retirement a s SelectAll"

end
