(* ===== verification/Collection_Safety.thy ===== *)
theory Collection_Safety
  imports Collection
begin

section \<open>Safety of concurrent collection\<close>

text \<open>
  The coordinator together with the tokens that are outstanding: mutation leases, reader leases per object, the collector's
  snapshot, its deletion lease.  Two history variables support the statements: the clock, which only
  advances, and the objects protected since the last snapshot.  The invariant is proved by rule
  induction over the step relation.
\<close>

record System =
  activity :: Activity
  mutation_leases :: nat
  reader_leases :: "ProtectedObject \<Rightarrow> nat"
  snapshot :: "CollectionSnapshot option"
  collecting :: bool
  protected_since :: "ProtectedObject set"
  clock :: nat

definition system_new :: "nat \<Rightarrow> System" where
  "system_new now = \<lparr> activity = coordinator_new now, mutation_leases = 0, reader_leases = (\<lambda>_. 0),
     snapshot = None, collecting = False, protected_since = {}, clock = now \<rparr>"

inductive coord_step :: "System \<Rightarrow> System \<Rightarrow> bool" where
  start_mutation: "wait_until_not_deleting (activity s) \<Longrightarrow> coordinator_mutation (activity s) = (Ok (), a) \<Longrightarrow>
    coord_step s (s\<lparr> activity := a, mutation_leases := Suc (mutation_leases s) \<rparr>)"
| refuse_mutation: "wait_until_not_deleting (activity s) \<Longrightarrow> coordinator_mutation (activity s) = (Err e, a) \<Longrightarrow>
    coord_step s (s\<lparr> activity := a \<rparr>)"
| start_reader: "coordinator_reader (activity s) ob = Ok (Some a) \<Longrightarrow>
    coord_step s (s\<lparr> activity := a, reader_leases := (reader_leases s)(ob := Suc (reader_leases s ob)) \<rparr>)"
| end_mutation: "mutation_leases s \<noteq> 0 \<Longrightarrow> clock s \<le> now \<Longrightarrow>
    coord_step s (s\<lparr> activity := drop_activity (activity s) Mutation adv now, mutation_leases := mutation_leases s - 1,
      protected_since := set_option adv \<union> protected_since s, clock := now \<rparr>)"
| end_reader: "reader_leases s ob \<noteq> 0 \<Longrightarrow> clock s \<le> now \<Longrightarrow>
    coord_step s (s\<lparr> activity := drop_activity (activity s) (Reader ob) adv now,
      reader_leases := (reader_leases s)(ob := reader_leases s ob - 1),
      protected_since := set_option adv \<union> protected_since s, clock := now \<rparr>)"
| protect: "mutation_leases s \<noteq> 0 \<or> reader_leases s holder \<noteq> 0 \<Longrightarrow> clock s \<le> now \<Longrightarrow>
    coord_step s (s\<lparr> activity := activity_protect (activity s) ob now,
      protected_since := insert ob (protected_since s), clock := now \<rparr>)"
| take_snapshot: "clock s \<le> now \<Longrightarrow> snapshot_at (activity s) now = Ok (a, sn) \<Longrightarrow>
    coord_step s (s\<lparr> activity := a, snapshot := Some sn, protected_since := {}, clock := now \<rparr>)"
| refresh: "snapshot s = Some sn \<Longrightarrow>
    coord_step s (s\<lparr> snapshot := Some (refresh_read_protection (activity s) sn) \<rparr>)"
| authorize: "snapshot s = Some sn \<Longrightarrow> authorize_retirement (activity s) sn retiring = (Ok (), a) \<Longrightarrow>
    coord_step s (s\<lparr> activity := a, snapshot := None, collecting := True \<rparr>)"
| refuse: "snapshot s = Some sn \<Longrightarrow> authorize_retirement (activity s) sn retiring = (Err e, a) \<Longrightarrow>
    coord_step s (s\<lparr> activity := a, snapshot := None \<rparr>)"
| abandon: "snapshot s = Some sn \<Longrightarrow>
    coord_step s (s\<lparr> activity := drop_collection (activity s), snapshot := None \<rparr>)"
| finish: "collecting s \<Longrightarrow>
    coord_step s (s\<lparr> activity := drop_collection (activity s), collecting := False \<rparr>)"

inductive coord_reachable :: "System \<Rightarrow> bool" where
  initial: "coord_reachable (system_new now)"
| step: "coord_reachable s \<Longrightarrow> coord_step s s' \<Longrightarrow> coord_reachable s'"

subsection \<open>The invariant\<close>

definition counts_inv :: "System \<Rightarrow> bool" where
  "counts_inv s = (mutations (activity s) = mutation_leases s
     \<and> distinct (map fst (readers (activity s)))
     \<and> (\<forall>ob. map_of (readers (activity s)) ob = (if reader_leases s ob = 0 then None else Some (reader_leases s ob))))"

definition phase_inv :: "System \<Rightarrow> bool" where
  "phase_inv s = ((phase (activity s) = Scanning \<longleftrightarrow> snapshot s \<noteq> None)
     \<and> ((\<exists>r. phase (activity s) = Deleting r) \<longleftrightarrow> collecting s))"

definition exclusion_inv :: "System \<Rightarrow> bool" where
  "exclusion_inv s = (\<forall>r. phase (activity s) = Deleting r \<longrightarrow> mutation_leases s = 0
     \<and> (\<forall>ob. selection_contains r ob \<longrightarrow> reader_leases s ob = 0))"

definition protection_inv :: "System \<Rightarrow> bool" where
  "protection_inv s = (\<forall>sn. snapshot s = Some sn \<longrightarrow>
     snap_protection sn = SelectAll
     \<or> (snap_protect_all_until sn \<le> clock s \<and> snap_protect_all_until sn \<le> protect_all_until (activity s)
        \<and> (\<forall>ob \<in> protected_since s. map_of (recent (activity s)) ob \<noteq> None
             \<or> snap_protect_all_until sn < protect_all_until (activity s))))"

lemmas coord_defs = counts_inv_def phase_inv_def exclusion_inv_def protection_inv_def

subsection \<open>What the critical sections keep\<close>

lemma activity_protect_keeps [simp]:
  "mutations (activity_protect a ob now) = mutations a"
  "readers (activity_protect a ob now) = readers a"
  "phase (activity_protect a ob now) = phase a"
  "generation (activity_protect a ob now) = generation a"
  by (simp_all add: activity_protect_def Let_def split: option.splits CollectionPhase.splits)

lemma activity_protect_all_until: "protect_all_until a \<le> protect_all_until (activity_protect a ob now)"
  by (simp add: activity_protect_def Let_def split: option.splits CollectionPhase.splits)

lemma activity_protect_scanning:
  assumes "phase a = Scanning"
  shows "map_of (recent a) o' \<noteq> None \<Longrightarrow> map_of (recent (activity_protect a ob now)) o' \<noteq> None"
    and "map_of (recent (activity_protect a ob now)) ob \<noteq> None
      \<or> now + ONLINE_GC_GRACE \<le> protect_all_until (activity_protect a ob now)"
  using assms by (auto simp: activity_protect_def Let_def update_conv split: option.splits)

lemma admit_reader:
  "admit_activity a (Reader ob) = Ok a' \<Longrightarrow>
    a' = a\<lparr> readers := AList.update ob (Suc (case map_of (readers a) ob of Some n \<Rightarrow> n | None \<Rightarrow> 0)) (readers a) \<rparr>"
  by (auto simp: admit_activity_def run_simps)

lemma coordinator_mutation_cases:
  "coordinator_mutation a = (Ok (), a') \<Longrightarrow> a' = a\<lparr> generation := Suc (generation a), mutations := Suc (mutations a) \<rparr>"
  "coordinator_mutation a = (Err e, a') \<Longrightarrow> a' = a \<or> a' = a\<lparr> generation := Suc (generation a) \<rparr>"
  by (auto simp: coordinator_mutation_def invalidate_snapshot_def admit_activity_def checked_add_u64_def
      split: sum.splits option.splits if_splits)

lemma coordinator_reader_Some:
  "coordinator_reader a ob = Ok (Some a') \<Longrightarrow>
    admit_activity a (Reader ob) = Ok a' \<and> (\<forall>r. phase a = Deleting r \<longrightarrow> \<not> selection_contains r ob)"
  by (auto simp: coordinator_reader_def run_simps Let_def split: if_splits CollectionPhase.splits)

lemma drop_activity_protect:
  "drop_activity a kind adv now = drop_activity (case adv of Some ob \<Rightarrow> activity_protect a ob now | None \<Rightarrow> a) kind None now"
  by (simp add: drop_activity_def)

text \<open>The part of a step that protects an object and moves the clock.\<close>

definition note_protection :: "ProtectedObject option \<Rightarrow> nat \<Rightarrow> System \<Rightarrow> System" where
  "note_protection adv now s = s\<lparr>
     activity := (case adv of Some ob \<Rightarrow> activity_protect (activity s) ob now | None \<Rightarrow> activity s),
     protected_since := set_option adv \<union> protected_since s, clock := now \<rparr>"

definition coord_inv :: "System \<Rightarrow> bool" where
  "coord_inv s = (counts_inv s \<and> phase_inv s \<and> exclusion_inv s \<and> protection_inv s)"

lemma ONLINE_GC_GRACE_pos: "0 < ONLINE_GC_GRACE"
  by (simp add: ONLINE_GC_GRACE_def)

lemma note_protection_inv:
  assumes inv: "coord_inv s" and now: "clock s \<le> now"
  shows "coord_inv (note_protection adv now s)"
proof (cases adv)
  case None
  with inv now show ?thesis
    by (auto simp: coord_inv_def coord_defs note_protection_def)
next
  case (Some ob)
  let ?a = "activity s" and ?b = "activity_protect (activity s) ob now"
  have "protection_inv (note_protection adv now s)"
    unfolding protection_inv_def
  proof (intro allI impI)
    fix sn assume "snapshot (note_protection adv now s) = Some sn"
    then have sn: "snapshot s = Some sn" by (simp add: note_protection_def)
    then have scan: "phase ?a = Scanning" using inv by (simp add: coord_inv_def phase_inv_def)
    show "snap_protection sn = SelectAll
     \<or> (snap_protect_all_until sn \<le> clock (note_protection adv now s)
        \<and> snap_protect_all_until sn \<le> protect_all_until (activity (note_protection adv now s))
        \<and> (\<forall>ob \<in> protected_since (note_protection adv now s). map_of (recent (activity (note_protection adv now s))) ob \<noteq> None
             \<or> snap_protect_all_until sn < protect_all_until (activity (note_protection adv now s))))"
    proof (cases "snap_protection sn = SelectAll")
      case False
      with inv sn have old: "snap_protect_all_until sn \<le> clock s" "snap_protect_all_until sn \<le> protect_all_until ?a"
          "\<forall>x \<in> protected_since s. map_of (recent ?a) x \<noteq> None \<or> snap_protect_all_until sn < protect_all_until ?a"
        by (auto simp: coord_inv_def protection_inv_def)
      have "map_of (recent ?b) ob \<noteq> None \<or> snap_protect_all_until sn < protect_all_until ?b"
        using activity_protect_scanning(2) [OF scan, of ob now] old(1) now ONLINE_GC_GRACE_pos by linarith
      moreover have "map_of (recent ?b) x \<noteq> None \<or> snap_protect_all_until sn < protect_all_until ?b"
        if "x \<in> protected_since s" for x
        using old(3) that activity_protect_scanning(1) [OF scan, of x ob now] activity_protect_all_until [of ?a ob now]
        by fastforce
      ultimately show ?thesis
        using old(1,2) now activity_protect_all_until [of ?a ob now] by (auto simp: note_protection_def Some)
    qed simp
  qed
  with inv show ?thesis
    by (simp add: coord_inv_def counts_inv_def phase_inv_def exclusion_inv_def note_protection_def Some)
qed

lemma drop_mutation_inv:
  assumes inv: "coord_inv s" and "mutation_leases s \<noteq> 0"
  shows "coord_inv (s\<lparr> activity := drop_activity (activity s) Mutation None now, mutation_leases := mutation_leases s - 1 \<rparr>)"
  using assms by (auto simp: coord_inv_def coord_defs drop_activity_def)

lemma drop_reader_inv:
  assumes inv: "coord_inv s" and ob: "reader_leases s ob \<noteq> 0"
  shows "coord_inv (s\<lparr> activity := drop_activity (activity s) (Reader ob) None now,
    reader_leases := (reader_leases s)(ob := reader_leases s ob - 1) \<rparr>)"
proof -
  let ?a = "activity s"
  have r: "map_of (readers ?a) ob = Some (reader_leases s ob)" and d: "distinct (map fst (readers ?a))"
    using inv ob by (simp_all add: coord_inv_def counts_inv_def)
  have "counts_inv (s\<lparr> activity := drop_activity ?a (Reader ob) None now,
      reader_leases := (reader_leases s)(ob := reader_leases s ob - 1) \<rparr>)"
    using inv r d by (auto simp: coord_inv_def counts_inv_def drop_activity_def Let_def delete_conv update_conv
        distinct_delete distinct_update)
  then show ?thesis
    using inv by (auto simp: coord_inv_def phase_inv_def exclusion_inv_def protection_inv_def drop_activity_def Let_def)
qed

lemma start_reader_inv:
  assumes inv: "coord_inv s" and r: "coordinator_reader (activity s) ob = Ok (Some a)"
  shows "coord_inv (s\<lparr> activity := a, reader_leases := (reader_leases s)(ob := Suc (reader_leases s ob)) \<rparr>)"
proof -
  from coordinator_reader_Some [OF r] have adm: "admit_activity (activity s) (Reader ob) = Ok a"
    and ex: "\<forall>r. phase (activity s) = Deleting r \<longrightarrow> \<not> selection_contains r ob" by simp_all
  have "(case map_of (readers (activity s)) ob of Some n \<Rightarrow> n | None \<Rightarrow> 0) = reader_leases s ob"
    using inv by (simp add: coord_inv_def counts_inv_def)
  with admit_reader [OF adm] have a: "a = (activity s)\<lparr> readers := AList.update ob (Suc (reader_leases s ob)) (readers (activity s)) \<rparr>"
    by simp
  show ?thesis
    using inv ex by (auto simp: a coord_inv_def coord_defs update_conv distinct_update)
qed

lemma snapshot_inv:
  assumes inv: "coord_inv s" and now: "clock s \<le> now" and sn: "snapshot_at (activity s) now = Ok (a, sn)"
  shows "coord_inv (s\<lparr> activity := a, snapshot := Some sn, protected_since := {}, clock := now \<rparr>)"
proof -
  have idle: "phase (activity s) = Idle" and a: "a = (activity s)\<lparr> recent := retain_after now (recent (activity s)), phase := Scanning \<rparr>"
    and all: "snap_protect_all_until sn = protect_all_until (activity s)"
      "snap_protection sn = SelectAll \<or> protect_all_until (activity s) \<le> now"
    using sn by (auto simp: snapshot_at_def Let_def split: if_splits)
  have "counts_inv (s\<lparr> activity := a, snapshot := Some sn, protected_since := {}, clock := now \<rparr>)"
    using inv by (simp add: coord_inv_def counts_inv_def a)
  then show ?thesis
    using inv idle all by (auto simp: coord_inv_def phase_inv_def exclusion_inv_def protection_inv_def a)
qed

lemma refresh_keeps:
  "snap_protect_all_until (refresh_read_protection a sn) = snap_protect_all_until sn"
  "snap_protection sn = SelectAll \<Longrightarrow> snap_protection (refresh_read_protection a sn) = SelectAll"
  by (auto simp: refresh_read_protection_def Let_def split: ObjectSelection.splits)

lemma refresh_inv:
  assumes inv: "coord_inv s" and sn: "snapshot s = Some sn"
  shows "coord_inv (s\<lparr> snapshot := Some (refresh_read_protection (activity s) sn) \<rparr>)"
  using assms by (auto simp: coord_inv_def coord_defs refresh_keeps)

lemma authorize_inv:
  assumes inv: "coord_inv s" and sn: "snapshot s = Some sn"
    and auth: "authorize_retirement (activity s) sn r = (Ok (), a)"
  shows "coord_inv (s\<lparr> activity := a, snapshot := None, collecting := True \<rparr>)"
proof -
  have a: "a = (activity s)\<lparr> phase := Deleting r \<rparr>" and m: "mutations (activity s) = 0"
    and rd: "\<not> retiring_object_has_a_reader (activity s) r"
    using auth by (auto simp: authorize_retirement_def split: if_splits)
  have "reader_leases s ob = 0" if "selection_contains r ob" for ob
  proof (rule ccontr)
    assume "reader_leases s ob \<noteq> 0"
    then have "map_of (readers (activity s)) ob = Some (reader_leases s ob)"
      using inv by (simp add: coord_inv_def counts_inv_def)
    then have "(ob, reader_leases s ob) \<in> set (readers (activity s))" by (rule map_of_SomeD)
    with rd that show False by (auto simp: retiring_object_has_a_reader_def list_ex_iff)
  qed
  then show ?thesis using inv m by (auto simp: a coord_inv_def coord_defs)
qed

lemma leave_inv:
  assumes inv: "coord_inv s"
  shows "snapshot s = Some sn \<Longrightarrow> coord_inv (s\<lparr> activity := drop_collection (activity s), snapshot := None \<rparr>)"
    and "collecting s \<Longrightarrow> coord_inv (s\<lparr> activity := drop_collection (activity s), collecting := False \<rparr>)"
  using inv by (auto simp: coord_inv_def coord_defs drop_collection_def)

lemma end_lease_eq:
  "s\<lparr> activity := drop_activity (activity s) Mutation adv now, mutation_leases := mutation_leases s - 1,
      protected_since := set_option adv \<union> protected_since s, clock := now \<rparr>
    = (note_protection adv now s)\<lparr> activity := drop_activity (activity (note_protection adv now s)) Mutation None now,
        mutation_leases := mutation_leases (note_protection adv now s) - 1 \<rparr>"
  "s\<lparr> activity := drop_activity (activity s) (Reader ob) adv now,
      reader_leases := (reader_leases s)(ob := reader_leases s ob - 1),
      protected_since := set_option adv \<union> protected_since s, clock := now \<rparr>
    = (note_protection adv now s)\<lparr> activity := drop_activity (activity (note_protection adv now s)) (Reader ob) None now,
        reader_leases := (reader_leases (note_protection adv now s))(ob := reader_leases (note_protection adv now s) ob - 1) \<rparr>"
  using drop_activity_protect [of "activity s" _ adv now] by (simp_all add: note_protection_def)

lemma coord_step_inv: "coord_step s s' \<Longrightarrow> coord_inv s \<Longrightarrow> coord_inv s'"
proof (induction rule: coord_step.induct)
  case (start_mutation s a)
  from coordinator_mutation_cases(1) [OF start_mutation(2)] start_mutation(1,3) show ?case
    by (auto simp: coord_inv_def coord_defs wait_until_not_deleting_def)
next
  case (refuse_mutation s e a)
  from coordinator_mutation_cases(2) [OF refuse_mutation(2)] refuse_mutation(3) show ?case
    by (auto simp: coord_inv_def coord_defs)
next
  case (start_reader s ob a)
  then show ?case using start_reader_inv by blast
next
  case (end_mutation s now adv)
  have "mutation_leases (note_protection adv now s) \<noteq> 0" using end_mutation(1) by (simp add: note_protection_def)
  then show ?case
    unfolding end_lease_eq(1) by (rule drop_mutation_inv [OF note_protection_inv [OF end_mutation(3,2)]])
next
  case (end_reader s ob now adv)
  have "reader_leases (note_protection adv now s) ob \<noteq> 0" using end_reader(1) by (simp add: note_protection_def)
  then show ?case
    unfolding end_lease_eq(2) by (rule drop_reader_inv [OF note_protection_inv [OF end_reader(3,2)]])
next
  case (protect s holder now ob)
  then show ?case using note_protection_inv [of s now "Some ob"] by (simp add: note_protection_def)
next
  case (take_snapshot s now a sn)
  show ?case by (rule snapshot_inv [OF take_snapshot(3,1,2)])
next
  case (refresh s sn)
  then show ?case by (simp add: refresh_inv)
next
  case (authorize s sn retiring a)
  then show ?case using authorize_inv by blast
next
  case (refuse s sn retiring e a)
  then have "a = drop_collection (activity s)" by (auto simp: authorize_retirement_def split: if_splits)
  with refuse show ?case using leave_inv(1) by blast
next
  case (abandon s sn)
  then show ?case using leave_inv(1) by blast
next
  case (finish s)
  then show ?case using leave_inv(2) by blast
qed

lemma coord_reachable_inv: "coord_reachable s \<Longrightarrow> coord_inv s"
proof (induction rule: coord_reachable.induct)
  case (initial now)
  show ?case by (simp add: coord_inv_def coord_defs system_new_def coordinator_new_def)
next
  case (step s s')
  then show ?case using coord_step_inv by blast
qed

lemma authorize_spares_protected:
  assumes inv: "coord_inv s" and sn: "snapshot s = Some sn"
    and auth: "authorize_retirement (activity s) sn r = (Ok (), a)"
    and ob: "ob \<in> protected_since s" and r: "selection_contains r ob"
  shows "selection_contains (snap_protection sn) ob"
proof (cases "snap_protection sn = SelectAll")
  case True
  then show ?thesis by (simp add: selection_contains_def)
next
  case False
  have "\<not> retiring_object_gained_protection (activity s) r sn"
    using auth by (auto simp: authorize_retirement_def split: if_splits)
  moreover have "\<not> selection_is_empty r"
    using r by (auto simp: selection_is_empty_def selection_contains_def split: ObjectSelection.splits)
  ultimately have all: "protect_all_until (activity s) \<le> snap_protect_all_until sn"
    and rec: "\<And>x t. (x, t) \<in> set (recent (activity s)) \<Longrightarrow> selection_contains r x \<Longrightarrow> selection_contains (snap_protection sn) x"
    by (auto simp: retiring_object_gained_protection_def list_ex_iff)
  have "map_of (recent (activity s)) ob \<noteq> None"
    using inv sn False ob all by (auto simp: coord_inv_def protection_inv_def)
  then obtain t where "(ob, t) \<in> set (recent (activity s))" by (auto dest: map_of_SomeD)
  then show ?thesis using rec r by blast
qed

subsection \<open>Properties\<close>

text \<open>C22: deletion is exclusive.  In every reachable state in which the collector deletes a set of
  objects, no mutation is in progress, no reader holds one of these objects, a new reader of one of
  them is turned away, and a new mutation has to wait.\<close>

theorem deletion_exclusive:
  assumes "coord_reachable s" and "phase (activity s) = Deleting r"
  shows "mutation_leases s = 0 \<and> \<not> wait_until_not_deleting (activity s)
    \<and> (\<forall>ob. selection_contains r ob \<longrightarrow> reader_leases s ob = 0 \<and> coordinator_reader (activity s) ob = Ok None)"
  using coord_reachable_inv [OF assms(1)] assms(2)
  by (simp add: coord_inv_def exclusion_inv_def wait_until_not_deleting_def coordinator_reader_def)



text \<open>Concrete runs: a reader of one object, a snapshot after the start-up grace period, the protection of a
  second object, and the authorised retirement of a third.\<close>

definition sample_object :: "nat \<Rightarrow> ProtectedObject" where
  "sample_object n = ProtCanonicalNar (Sha256Digest (replicate n 0))"

definition run_reading :: System where
  "run_reading = (system_new 0)\<lparr> activity := (coordinator_new 0)\<lparr> readers := [(sample_object 1, 1)] \<rparr>,
     reader_leases := (\<lambda>_. 0)(sample_object 1 := 1) \<rparr>"

definition run_snapshot :: CollectionSnapshot where
  "run_snapshot = \<lparr> snap_generation = 0, snap_protect_all_until = ONLINE_GC_GRACE, snap_protection = SelectObjects [] \<rparr>"

definition run_scanning :: System where
  "run_scanning = run_reading\<lparr> activity := (activity run_reading)\<lparr> recent := [], phase := Scanning \<rparr>,
     snapshot := Some run_snapshot, protected_since := {}, clock := ONLINE_GC_GRACE \<rparr>"

definition run_protected :: System where
  "run_protected = run_scanning\<lparr> activity := activity_protect (activity run_scanning) (sample_object 2) ONLINE_GC_GRACE,
     protected_since := {sample_object 2}, clock := ONLINE_GC_GRACE \<rparr>"

definition run_deleting :: System where
  "run_deleting = run_protected\<lparr> activity := (activity run_protected)\<lparr> phase := Deleting (SelectObjects [sample_object 3]) \<rparr>,
     snapshot := None, collecting := True \<rparr>"

lemma sample_object_eq [simp]: "sample_object m = sample_object n \<longleftrightarrow> m = n"
  by (auto simp: sample_object_def)

lemma run_reading_reachable: "coord_reachable run_reading"
proof (rule coord_reachable.step [OF coord_reachable.initial [of 0]])
  have "coordinator_reader (coordinator_new 0) (sample_object 1) = Ok (Some ((coordinator_new 0)\<lparr> readers := [(sample_object 1, 1)] \<rparr>))"
    by (simp add: coordinator_reader_def coordinator_new_def admit_activity_def checked_add_u64_def u64_max_def)
  then show "coord_step (system_new 0) run_reading"
    using start_reader [of "system_new 0" "sample_object 1"] by (simp add: run_reading_def system_new_def)
qed

lemma run_protected_reachable: "coord_reachable run_protected"
proof -
  have "snapshot_at (activity run_reading) ONLINE_GC_GRACE = Ok (activity run_scanning, run_snapshot)"
    by (simp add: snapshot_at_def run_scanning_def run_reading_def run_snapshot_def coordinator_new_def retain_after_def)
  then have "coord_step run_reading run_scanning"
    using take_snapshot [of run_reading ONLINE_GC_GRACE] by (simp add: run_scanning_def run_reading_def system_new_def)
  moreover have "coord_step run_scanning run_protected"
    using protect [of run_scanning "sample_object 1" ONLINE_GC_GRACE "sample_object 2"]
    by (simp add: run_protected_def) (simp add: run_scanning_def run_reading_def)
  ultimately show ?thesis using run_reading_reachable by (blast intro: coord_reachable.step)
qed

lemma run_authorized:
  "authorize_retirement (activity run_protected) run_snapshot (SelectObjects [sample_object 3]) = (Ok (), activity run_deleting)"
  "snapshot run_protected = Some run_snapshot"
  by (simp_all add: authorize_retirement_def run_protected_def run_deleting_def run_scanning_def run_reading_def run_snapshot_def
      coordinator_new_def retiring_object_has_a_reader_def retiring_object_gained_protection_def selection_contains_def
      selection_is_empty_def activity_protect_def RECENT_OBJECT_LIMIT_def)

lemma run_deleting_reachable: "coord_reachable run_deleting"
  using authorize [OF run_authorized(2,1)] run_protected_reachable
  by (auto simp: run_deleting_def intro: coord_reachable.step)

theorem deletion_exclusive_witness:
  "phase (activity run_deleting) = Deleting (SelectObjects [sample_object 3]) \<and> reader_leases run_deleting (sample_object 3) = 0
    \<and> coordinator_reader (activity run_deleting) (sample_object 3) = Ok None"
proof -
  have ph: "phase (activity run_deleting) = Deleting (SelectObjects [sample_object 3])" by (simp add: run_deleting_def)
  from deletion_exclusive [OF run_deleting_reachable ph] ph show ?thesis by (simp add: selection_contains_def)
qed



end
