(* ===== verification/Retention.thy ===== *)
theory Retention
  imports NarInfo_Trust
begin

section \<open>Retention options and physical pressure (\<open>src/storage/gc/retention.rs\<close>)\<close>

text \<open>
  The options of a collection, the thresholds on free space, and the hint file that makes
  collection under pressure continue over several runs: a run that ends below its target leaves a hint, and
  the next run with the same thresholds collects until the target is reached.
\<close>

datatype EvictionOrder = EvictPublication | EvictLastUse

datatype RetentionError = TargetBelowMinimum | PressureNeedsLimit | PolicyRequired | TargetAboveMaximum

definition eviction_order_from_str :: "string \<Rightarrow> string + EvictionOrder" where
  "eviction_order_from_str value =
    (if value = ''publication'' then Ok EvictPublication
     else if value = ''last-use'' then Ok EvictLastUse
     else Err ''expected publication or last-use'')"

record FreeSpaceThresholds =
  minimum_free :: nat
  target_free :: nat

record RetentionOptions =
  eviction_order :: EvictionOrder
  max_deletions :: "nat option"
  free_space :: "FreeSpaceThresholds option"

definition retention_default :: RetentionOptions where
  "retention_default = \<lparr> eviction_order = EvictPublication, max_deletions = None, free_space = None \<rparr>"

definition thresholds_new :: "nat \<Rightarrow> nat \<Rightarrow> RetentionError + FreeSpaceThresholds" where
  "thresholds_new minimum target = (if minimum \<le> target
     then Ok \<lparr> minimum_free = minimum, target_free = target \<rparr> else Err TargetBelowMinimum)"

definition retention_validate :: "RetentionOptions \<Rightarrow> RetentionError + unit" where
  "retention_validate options = (case free_space options of
      None \<Rightarrow> Ok ()
    | Some space \<Rightarrow>
        bindR (thresholds_new (minimum_free space) (target_free space)) (\<lambda>_.
        bindR (ok_or PressureNeedsLimit (max_deletions options)) (\<lambda>_. Ok ())))"

definition remaining_deletions :: "RetentionOptions \<Rightarrow> nat \<Rightarrow> nat" where
  "remaining_deletions options selected = (case max_deletions options of
      None \<Rightarrow> u64_max
    | Some limit \<Rightarrow> limit - selected)"

datatype PhysicalPressure =
    PressureUnconfigured
  | PressureIdle nat
  | PressureCollect nat nat

datatype PhysicalSpaceReport =
    SpaceUnconfigured
  | SpaceIdle nat
  | SpacePressure nat nat nat

definition measure_cycle :: "FreeSpaceThresholds \<Rightarrow> nat \<Rightarrow> FreeSpaceThresholds option \<Rightarrow> PhysicalPressure" where
  "measure_cycle self available unfinished =
    (if available < minimum_free self \<or> (unfinished = Some self \<and> available < target_free self)
     then PressureCollect available (target_free self) else PressureIdle available)"

definition requires_collection :: "PhysicalPressure \<Rightarrow> bool" where
  "requires_collection p = (case p of PressureCollect _ _ \<Rightarrow> True | _ \<Rightarrow> False)"

definition pressure_report :: "PhysicalPressure \<Rightarrow> nat option \<Rightarrow> PhysicalSpaceReport" where
  "pressure_report p after = (case p of
      PressureUnconfigured \<Rightarrow> SpaceUnconfigured
    | PressureIdle before \<Rightarrow> SpaceIdle before
    | PressureCollect before target \<Rightarrow>
        SpacePressure before (case after of Some n \<Rightarrow> n | None \<Rightarrow> before) target)"

definition space_target_met :: "PhysicalSpaceReport \<Rightarrow> bool" where
  "space_target_met r = (case r of SpacePressure _ after target \<Rightarrow> target \<le> after | _ \<Rightarrow> True)"

subsection \<open>The pressure hint\<close>

definition PRESSURE_MAGIC :: bytes where
  "PRESSURE_MAGIC = ascii ''NGCP0001''"

text \<open>Reading the hint from the result of opening the file: its length, then its contents, are checked.\<close>

definition read_pressure_hint :: "io_kind + bytes \<Rightarrow> io_kind + FreeSpaceThresholds" where
  "read_pressure_hint opened =
    bindR opened (\<lambda>bs.
    if length bs \<noteq> 24 then Err IoInvalidData else
    let minimum = u64_from_le_bytes (take 8 (drop 8 bs));
        target = u64_from_le_bytes (take 8 (drop 16 bs)) in
    if take 8 bs \<noteq> PRESSURE_MAGIC \<or> target < minimum then Err IoInvalidData
    else Ok \<lparr> minimum_free = minimum, target_free = target \<rparr>)"

definition unfinished_pressure_cycle :: "io_kind + bytes \<Rightarrow> FreeSpaceThresholds option" where
  "unfinished_pressure_cycle opened = (case read_pressure_hint opened of
      Inr thresholds \<Rightarrow> Some thresholds
    | Inl _ \<Rightarrow> None)"

definition write_pressure_hint :: "FreeSpaceThresholds \<Rightarrow> bytes" where
  "write_pressure_hint thresholds =
    PRESSURE_MAGIC @ u64_to_le_bytes (minimum_free thresholds) @ u64_to_le_bytes (target_free thresholds)"

text \<open>The hint file after a run whose file operations succeed: written when the target was missed, removed otherwise.\<close>

definition record_pressure_cycle :: "FreeSpaceThresholds option \<Rightarrow> PhysicalSpaceReport \<Rightarrow> bytes option" where
  "record_pressure_cycle thresholds report =
    (case thresholds of
       Some t \<Rightarrow> if \<not> space_target_met report then Some (write_pressure_hint t) else None
     | None \<Rightarrow> None)"

definition hint_opened :: "bytes option \<Rightarrow> io_kind + bytes" where
  "hint_opened hint = (case hint of Some bs \<Rightarrow> Ok bs | None \<Rightarrow> Err IoNotFound)"

subsection \<open>Lemmas\<close>

definition thresholds_wf :: "FreeSpaceThresholds \<Rightarrow> bool" where
  "thresholds_wf t = (minimum_free t \<le> target_free t \<and> target_free t \<le> u64_max)"

lemma read_write_pressure_hint:
  "thresholds_wf t \<Longrightarrow> read_pressure_hint (Ok (write_pressure_hint t)) = Ok t"
proof -
  assume t: "thresholds_wf t"
  have m: "length PRESSURE_MAGIC = 8" by (simp add: PRESSURE_MAGIC_def)
  have "u64_from_le_bytes (u64_to_le_bytes (minimum_free t)) = minimum_free t"
    "u64_from_le_bytes (u64_to_le_bytes (target_free t)) = target_free t"
    using t u64_from_to_le_bytes by (auto simp: thresholds_wf_def)
  then show ?thesis
    using t m by (simp add: read_pressure_hint_def write_pressure_hint_def thresholds_wf_def)
qed

lemma pressure_hint_canonical:
  "read_pressure_hint (Ok bs) = Ok t \<Longrightarrow> thresholds_wf t \<and> bs = write_pressure_hint t"
proof -
  assume r: "read_pressure_hint (Ok bs) = Ok t"
  then have len: "length bs = 24" and magic: "take 8 bs = PRESSURE_MAGIC"
      and t: "t = \<lparr> minimum_free = u64_from_le_bytes (take 8 (drop 8 bs)), target_free = u64_from_le_bytes (take 8 (drop 16 bs)) \<rparr>"
      and le: "u64_from_le_bytes (take 8 (drop 8 bs)) \<le> u64_from_le_bytes (take 8 (drop 16 bs))"
    by (auto simp: read_pressure_hint_def Let_def split: if_splits)
  have "bs = take 8 bs @ take 8 (drop 8 bs) @ take 8 (drop 16 bs)"
    using len append_take_drop_id [of 8 bs] append_take_drop_id [of 8 "drop 8 bs"] by simp
  then have "bs = write_pressure_hint t"
    using len magic u64_to_from_le_bytes [of "take 8 (drop 8 bs)"] u64_to_from_le_bytes [of "take 8 (drop 16 bs)"]
    by (simp add: write_pressure_hint_def t)
  moreover have "u64_from_le_bytes (take 8 (drop 16 bs)) \<le> u64_max"
    using len by (intro u64_from_le_bytes_le_max) simp
  ultimately show ?thesis using le by (simp add: thresholds_wf_def t)
qed

lemma recorded_cycle:
  "thresholds_wf t \<Longrightarrow> unfinished_pressure_cycle (hint_opened (record_pressure_cycle (Some t) r))
    = (if space_target_met r then None else Some t)"
  by (simp add: record_pressure_cycle_def hint_opened_def unfinished_pressure_cycle_def read_write_pressure_hint)
    (simp add: read_pressure_hint_def)



text \<open>The hint file is a faithful record: the bytes written for valid thresholds read back to them, and
  bytes that read as thresholds are exactly the bytes written for them; every other content is rejected as invalid
  data.\<close>

theorem pressure_hint_roundtrip:
  "(read_pressure_hint (Ok bs) = Ok t \<longleftrightarrow> thresholds_wf t \<and> bs = write_pressure_hint t)
    \<and> (read_pressure_hint (Ok bs) = Err e \<longleftrightarrow> e = IoInvalidData \<and> (\<nexists>t. thresholds_wf t \<and> bs = write_pressure_hint t))"
proof -
  have ok: "read_pressure_hint (Ok bs) = Ok t \<longleftrightarrow> thresholds_wf t \<and> bs = write_pressure_hint t" for t
    using pressure_hint_canonical read_write_pressure_hint by blast
  have "read_pressure_hint (Ok bs) = Err e \<longleftrightarrow> e = IoInvalidData \<and> (\<nexists>t. read_pressure_hint (Ok bs) = Ok t)"
    by (auto simp: read_pressure_hint_def Let_def split: if_splits)
  then show ?thesis unfolding ok by blast
qed

end
