(* ===== verification/Gc.thy ===== *)
theory Gc
  imports Retention Collection "HOL-Library.Product_Lexorder" "HOL-Library.AList"
begin

section \<open>Garbage collection of a flat cache (\<open>src/storage/gc.rs\<close>)\<close>

text \<open>
  Planning a collection: the retention policy, the closure of the protected roots, the accounting of bytes with
  shared payloads, the order of eviction and the selection.  Times are numbers of nanoseconds, so
  \<open>duration_since(..).unwrap_or_default()\<close> is truncated subtraction.  Ordered maps from file names are association
  lists; only lookups, sums and counts of their values are taken.  Sums of \<open>u64\<close> wrap, as in a release
  build.  What the collector asks of its access to the storage (which objects are read or
  advertised) is an argument here; theory \<open>Gc_Run\<close> supplies it.
\<close>

subsection \<open>Ordered maps and sums\<close>

definition or_insert :: "'a \<Rightarrow> 'b \<Rightarrow> ('a \<times> 'b) list \<Rightarrow> ('a \<times> 'b) list" where
  "or_insert k v m = (case map_of m k of None \<Rightarrow> m @ [(k, v)] | Some _ \<Rightarrow> m)"

definition wrapping_add_u64 :: "nat \<Rightarrow> nat \<Rightarrow> nat" where
  "wrapping_add_u64 a b = (a + b) mod 2 ^ 64"

definition sum_u64 :: "nat list \<Rightarrow> nat" where
  "sum_u64 xs = fold (\<lambda>x acc. wrapping_add_u64 acc x) xs 0"

definition saturating_sub_u64 :: "nat \<Rightarrow> nat \<Rightarrow> nat" where
  "saturating_sub_u64 a b = a - b"

subsection \<open>Options, entries, orphans\<close>

datatype GcMode = DryRun | Apply

record GcOptions =
  gc_retention :: RetentionOptions
  gc_max_bytes :: "nat option"
  gc_target :: "nat option"
  gc_max_age :: "nat option"
  gc_min_age :: nat
  gc_protected_roots :: "string list"
  gc_mode :: GcMode

record Entry =
  last_use :: nat
  entry_store :: StoreHash
  store_path :: string
  references :: "string list"
  narinfo_name :: string
  nar_name :: string
  narinfo_bytes :: nat
  nar_bytes :: nat
  raw_nar_name :: string
  raw_nar_bytes :: nat
  modified :: nat
  protected :: bool

record Orphan =
  orphan_name :: string
  orphan_size :: nat
  orphan_modified :: nat

subsection \<open>The retention policy\<close>

datatype CollectionReason = MaximumAge | SizePressure

text \<open>The derived order of the source: the variants in the order of their declaration.\<close>

instantiation CollectionReason :: linorder
begin

definition less_eq_CollectionReason :: "CollectionReason \<Rightarrow> CollectionReason \<Rightarrow> bool" where
  "less_eq_CollectionReason a b = (a = MaximumAge \<or> b = SizePressure)"

definition less_CollectionReason :: "CollectionReason \<Rightarrow> CollectionReason \<Rightarrow> bool" where
  "less_CollectionReason a b = (a = MaximumAge \<and> b = SizePressure)"

instance
  by standard (auto simp: less_eq_CollectionReason_def less_CollectionReason_def intro: CollectionReason.exhaust)

end

record RetentionPolicy =
  budget :: RetentionOptions
  policy_target :: "nat option"
  max_age :: "nat option"
  min_age :: nat
  policy_now :: nat

definition pressure_target :: "nat \<Rightarrow> nat option \<Rightarrow> nat option \<Rightarrow> nat option" where
  "pressure_target current_bytes target_bytes max_bytes = (case target_bytes of
      None \<Rightarrow> None
    | Some target \<Rightarrow> if (case max_bytes of Some m \<Rightarrow> m | None \<Rightarrow> target) < current_bytes then Some target else None)"

definition gc_target_bytes :: "GcOptions \<Rightarrow> RetentionError + nat option" where
  "gc_target_bytes options =
    bindR (retention_validate (gc_retention options)) (\<lambda>_.
    if gc_max_bytes options = None \<and> gc_target options = None \<and> gc_max_age options = None
       \<and> free_space (gc_retention options) = None
    then Err PolicyRequired
    else if (case (gc_target options, gc_max_bytes options) of (Some target, Some m) \<Rightarrow> m < target | _ \<Rightarrow> False)
    then Err TargetAboveMaximum
    else Ok (case gc_target options of Some target \<Rightarrow> Some target | None \<Rightarrow> gc_max_bytes options))"

definition policy_for_limits :: "nat \<Rightarrow> nat option \<Rightarrow> nat option \<Rightarrow> nat option \<Rightarrow> nat \<Rightarrow> nat \<Rightarrow> RetentionPolicy" where
  "policy_for_limits current_bytes target_bytes max_bytes maximum_age minimum_age now =
    \<lparr> budget = retention_default, policy_target = pressure_target current_bytes target_bytes max_bytes,
      max_age = maximum_age, min_age = minimum_age, policy_now = now \<rparr>"

definition policy_new :: "GcOptions \<Rightarrow> nat \<Rightarrow> nat option \<Rightarrow> nat \<Rightarrow> RetentionPolicy" where
  "policy_new options current_bytes target_bytes now =
    (policy_for_limits current_bytes target_bytes (gc_max_bytes options) (gc_max_age options) (gc_min_age options) now)
      \<lparr> budget := gc_retention options \<rparr>"

definition reason :: "RetentionPolicy \<Rightarrow> nat \<Rightarrow> bool \<Rightarrow> nat \<Rightarrow> CollectionReason option" where
  "reason policy written shielded remaining_bytes =
    (let age = policy_now policy - written in
     if shielded \<or> age < min_age policy then None
     else if (case max_age policy of Some m \<Rightarrow> m \<le> age | None \<Rightarrow> False) then Some MaximumAge
     else if (case policy_target policy of Some target \<Rightarrow> target < remaining_bytes | None \<Rightarrow> False)
       then Some SizePressure else None)"

definition eviction_key :: "RetentionPolicy \<Rightarrow> nat \<Rightarrow> nat \<Rightarrow> CollectionReason \<times> nat" where
  "eviction_key policy written used = (case reason policy written False 0 of
      Some MaximumAge \<Rightarrow> (MaximumAge, written)
    | _ \<Rightarrow> (SizePressure, case eviction_order (budget policy) of EvictPublication \<Rightarrow> written | EvictLastUse \<Rightarrow> used))"

subsection \<open>Accounting\<close>

definition entry_payload_names :: "Entry \<Rightarrow> string list" where
  "entry_payload_names entry =
    nar_name entry # (if raw_nar_name entry \<noteq> nar_name entry then [raw_nar_name entry] else [])"

definition record_entry_payload_sizes :: "Entry \<Rightarrow> (string \<times> nat) list \<Rightarrow> (string \<times> nat) list" where
  "record_entry_payload_sizes entry sizes =
    (let sizes = or_insert (nar_name entry) (nar_bytes entry) sizes in
     if raw_nar_name entry \<noteq> nar_name entry then or_insert (raw_nar_name entry) (raw_nar_bytes entry) sizes else sizes)"

definition payload_sizes :: "Entry list \<Rightarrow> (string \<times> nat) list" where
  "payload_sizes entries = fold record_entry_payload_sizes entries []"

definition count_name :: "string \<Rightarrow> (string \<times> nat) list \<Rightarrow> (string \<times> nat) list" where
  "count_name name counts =
    AList.update name ((case map_of counts name of Some n \<Rightarrow> n | None \<Rightarrow> 0) + 1) counts"

definition reference_counts :: "Entry list \<Rightarrow> (string \<times> nat) list" where
  "reference_counts entries = fold (\<lambda>entry counts. fold count_name (entry_payload_names entry) counts) entries []"

definition total_bytes :: "Entry list \<Rightarrow> nat" where
  "total_bytes entries =
    wrapping_add_u64 (sum_u64 (map narinfo_bytes entries)) (sum_u64 (map snd (payload_sizes entries)))"

definition orphan_bytes :: "Orphan list \<Rightarrow> nat" where
  "orphan_bytes orphans = sum_u64 (map orphan_size orphans)"

definition category_bytes :: "Entry list \<Rightarrow> (Entry \<Rightarrow> bool) \<Rightarrow> nat" where
  "category_bytes entries include =
    (let included = filter include entries in
     wrapping_add_u64 (sum_u64 (map narinfo_bytes included))
       (sum_u64 (map snd (fold record_entry_payload_sizes included []))))"

definition shared_count :: "Entry list \<Rightarrow> nat" where
  "shared_count entries = length (filter (\<lambda>(_, count). 1 < count) (reference_counts entries))"

definition shared_bytes :: "Entry list \<Rightarrow> nat" where
  "shared_bytes entries =
    sum_u64 (map (\<lambda>(nar, _). the (map_of (payload_sizes entries) nar))
      (filter (\<lambda>(_, count). 1 < count) (reference_counts entries)))"

text \<open>Removing a publication: the counts of its payload names drop, and a payload nobody refers to any more is freed.\<close>

definition release_name ::
    "(string \<times> nat) list \<Rightarrow> string \<Rightarrow> nat \<times> (string \<times> nat) list \<Rightarrow> nat \<times> (string \<times> nat) list" where
  "release_name sizes name state = (case state of (freed, counts) \<Rightarrow>
     let count = the (map_of counts name) - 1 in
     (saturating_add_u64 freed (if count = 0 then the (map_of sizes name) else 0), AList.update name count counts))"

definition remove_publication_bytes ::
    "Entry \<Rightarrow> (string \<times> nat) list \<Rightarrow> (string \<times> nat) list \<Rightarrow> nat \<times> (string \<times> nat) list" where
  "remove_publication_bytes entry counts sizes =
    fold (release_name sizes) (entry_payload_names entry) (narinfo_bytes entry, counts)"

definition projected_published_bytes :: "Entry list \<Rightarrow> nat list \<Rightarrow> nat" where
  "projected_published_bytes entries selected =
    fst (fold (\<lambda>index (total, counts).
        case remove_publication_bytes (entries ! index) counts (payload_sizes entries) of
          (freed, counts) \<Rightarrow> (saturating_sub_u64 total freed, counts))
      selected (total_bytes entries, reference_counts entries))"

definition logical_after_bytes :: "Entry list \<Rightarrow> nat list \<Rightarrow> Orphan list \<Rightarrow> nat list \<Rightarrow> nat" where
  "logical_after_bytes entries selected_entries orphans selected_orphans =
    saturating_sub_u64
      (saturating_add_u64 (projected_published_bytes entries selected_entries) (orphan_bytes orphans))
      (sum_u64 (map (\<lambda>index. orphan_size (orphans ! index)) selected_orphans))"

subsection \<open>Candidates and their selection\<close>

datatype FlatCandidate = CandidatePublication nat | CandidateOrphan nat

record FlatSelection =
  selected_publications :: "nat list"
  selected_orphans :: "nat list"

definition candidate_modified :: "Entry list \<Rightarrow> Orphan list \<Rightarrow> FlatCandidate \<Rightarrow> nat" where
  "candidate_modified entries orphans c = (case c of
      CandidatePublication index \<Rightarrow> modified (entries ! index)
    | CandidateOrphan index \<Rightarrow> orphan_modified (orphans ! index))"

definition candidate_name :: "Entry list \<Rightarrow> Orphan list \<Rightarrow> FlatCandidate \<Rightarrow> string" where
  "candidate_name entries orphans c = (case c of
      CandidatePublication index \<Rightarrow> narinfo_name (entries ! index)
    | CandidateOrphan index \<Rightarrow> orphan_name (orphans ! index))"

definition candidate_protected :: "Entry list \<Rightarrow> Orphan list \<Rightarrow> (Orphan \<Rightarrow> bool) \<Rightarrow> FlatCandidate \<Rightarrow> bool" where
  "candidate_protected entries orphans protects_orphan c = (case c of
      CandidatePublication index \<Rightarrow> protected (entries ! index)
    | CandidateOrphan index \<Rightarrow> protects_orphan (orphans ! index))"

definition candidate_last_use :: "Entry list \<Rightarrow> Orphan list \<Rightarrow> (Orphan \<Rightarrow> nat) \<Rightarrow> FlatCandidate \<Rightarrow> nat" where
  "candidate_last_use entries orphans orphan_last_use c = (case c of
      CandidatePublication index \<Rightarrow> last_use (entries ! index)
    | CandidateOrphan index \<Rightarrow> orphan_last_use (orphans ! index))"

text \<open>The lazily evaluated chain \<open>filter_map(..).take(..)\<close>: a candidate is taken when there is still a
  reason to remove it after what has been taken before it, until the limit is used up.\<close>

fun take_candidates ::
    "RetentionPolicy \<Rightarrow> Entry list \<Rightarrow> Orphan list \<Rightarrow> (string \<times> nat) list \<Rightarrow> nat \<Rightarrow> FlatCandidate list
      \<Rightarrow> nat \<Rightarrow> (string \<times> nat) list \<Rightarrow> FlatCandidate list" where
  "take_candidates policy entries orphans sizes 0 order remaining counts = []"
| "take_candidates policy entries orphans sizes (Suc limit) [] remaining counts = []"
| "take_candidates policy entries orphans sizes (Suc limit) (c # order) remaining counts =
    (case reason policy (candidate_modified entries orphans c) False remaining of
       None \<Rightarrow> take_candidates policy entries orphans sizes (Suc limit) order remaining counts
     | Some _ \<Rightarrow>
        (case (case c of
            CandidatePublication index \<Rightarrow> remove_publication_bytes (entries ! index) counts sizes
          | CandidateOrphan index \<Rightarrow> (orphan_size (orphans ! index), counts)) of
          (removed, counts') \<Rightarrow>
            c # take_candidates policy entries orphans sizes limit order (saturating_sub_u64 remaining removed) counts'))"

definition candidate_order ::
    "Entry list \<Rightarrow> Orphan list \<Rightarrow> nat \<Rightarrow> RetentionPolicy \<Rightarrow> (Orphan \<Rightarrow> bool) \<Rightarrow> (Orphan \<Rightarrow> nat) \<Rightarrow> FlatCandidate list" where
  "candidate_order entries orphans current_bytes policy protects_orphan orphan_last_use =
    (let order = filter (\<lambda>c. reason policy (candidate_modified entries orphans c)
             (candidate_protected entries orphans protects_orphan c) current_bytes \<noteq> None)
           (map CandidatePublication [0..<length entries] @ map CandidateOrphan [0..<length orphans]) in
     case eviction_order (budget policy) of
       EvictPublication \<Rightarrow> sort_key (\<lambda>c. (eviction_key policy (candidate_modified entries orphans c)
           (candidate_modified entries orphans c), candidate_name entries orphans c)) order
     | EvictLastUse \<Rightarrow> sort_key (\<lambda>c. (eviction_key policy (candidate_modified entries orphans c)
           (candidate_last_use entries orphans orphan_last_use c), candidate_name entries orphans c)) order)"

definition include_candidate :: "FlatCandidate \<Rightarrow> FlatSelection \<Rightarrow> FlatSelection" where
  "include_candidate c selected = (case c of
      CandidatePublication index \<Rightarrow> selected\<lparr> selected_publications := selected_publications selected @ [index] \<rparr>
    | CandidateOrphan index \<Rightarrow> selected\<lparr> selected_orphans := selected_orphans selected @ [index] \<rparr>)"

definition select_flat_candidates ::
    "Entry list \<Rightarrow> Orphan list \<Rightarrow> nat \<Rightarrow> RetentionPolicy \<Rightarrow> (Orphan \<Rightarrow> bool) \<Rightarrow> (Orphan \<Rightarrow> nat) \<Rightarrow> FlatSelection" where
  "select_flat_candidates entries orphans current_bytes policy protects_orphan orphan_last_use =
    fold include_candidate
      (take_candidates policy entries orphans (payload_sizes entries) (remaining_deletions (budget policy) 0)
        (candidate_order entries orphans current_bytes policy protects_orphan orphan_last_use)
        current_bytes (reference_counts entries))
      \<lparr> selected_publications = [], selected_orphans = [] \<rparr>"

end
