(* ===== verification/Gc_Protect.thy ===== *)
theory Gc_Protect
  imports Gc
begin

section \<open>The closure of protected roots (\<open>protect\<close> in \<open>src/storage/gc.rs\<close>)\<close>

text \<open>
  Marking works on a stack of keys, each a store path or a store hash.  The
  source is generic in the kind of entry and projects it to a \<open>ProtectionNode\<close>; the model works on these
  nodes.  Termination: a key popped either marks a position that was not visited or shortens the
  stack.  The theorem says which nodes end up protected: those protected before and those reachable from
  the roots, or from a node protected before, along references.
\<close>

record ProtectionNode =
  node_store :: StoreHash
  node_path :: string
  node_references :: "string list"
  node_protected :: bool

record ProtectionReport =
  report_protected :: nat
  report_missing_roots :: nat
  report_missing_references :: nat

definition index_node :: "nat \<times> ProtectionNode \<Rightarrow> (string \<times> nat) list \<Rightarrow> (string \<times> nat) list" where
  "index_node pn index = (case pn of (position, node) \<Rightarrow>
     or_insert (store_hash_str (node_store node)) position (or_insert (node_path node) position index))"

definition protection_index :: "ProtectionNode list \<Rightarrow> (string \<times> nat) list" where
  "protection_index nodes = fold index_node (enumerate 0 nodes) []"

definition set_insert :: "'a \<Rightarrow> 'a list \<Rightarrow> 'a list" where
  "set_insert x xs = (if x \<in> set xs then xs else xs @ [x])"

function protect_loop ::
    "(string \<times> nat) list \<Rightarrow> string list \<Rightarrow> ProtectionNode list \<Rightarrow> string list \<Rightarrow> nat list \<Rightarrow> string list \<Rightarrow> string list
      \<Rightarrow> ProtectionNode list \<times> string list \<times> string list" where
  "protect_loop index roots nodes [] visited missing_roots missing_references =
    (nodes, missing_roots, missing_references)"
| "protect_loop index roots nodes (root # pending) visited missing_roots missing_references =
    (case map_of index root of
       Some position \<Rightarrow>
         if position < length nodes \<and> position \<notin> set visited
         then protect_loop index roots (nodes[position := (nodes ! position)\<lparr> node_protected := True \<rparr>])
           (rev (node_references (nodes ! position)) @ pending) (position # visited) missing_roots missing_references
         else protect_loop index roots nodes pending visited missing_roots missing_references
     | None \<Rightarrow>
         if root \<in> set roots
         then protect_loop index roots nodes pending visited (set_insert root missing_roots) missing_references
         else protect_loop index roots nodes pending visited missing_roots (set_insert root missing_references))"
  by pat_completeness auto

termination
proof (relation "measures [\<lambda>(index, roots, nodes, pending, visited, mr, mf). card ({..<length nodes} - set visited),
    \<lambda>(index, roots, nodes, pending, visited, mr, mf). length pending]")
  fix index roots nodes root pending visited mr mf position
  assume "position < length (nodes :: ProtectionNode list) \<and> position \<notin> set visited"
  then have "{..<length nodes} - set (position # visited) \<subset> {..<length nodes} - set visited" by auto
  then have "card ({..<length nodes} - set (position # visited)) < card ({..<length nodes} - set visited)"
    by (intro psubset_card_mono) simp_all
  then show "((index, roots, nodes[position := (nodes ! position)\<lparr> node_protected := True \<rparr>],
        rev (node_references (nodes ! position)) @ pending, position # visited, mr, mf),
      (index, roots, nodes, root # pending, visited, mr, mf))
    \<in> measures [\<lambda>(index, roots, nodes, pending, visited, mr, mf). card ({..<length nodes} - set visited),
        \<lambda>(index, roots, nodes, pending, visited, mr, mf). length pending]"
    by simp
qed simp_all

text \<open>The stack holds the roots and, above them, the paths of the nodes protected already; the top is the head of the list.\<close>

definition initial_pending :: "string list \<Rightarrow> ProtectionNode list \<Rightarrow> string list" where
  "initial_pending roots nodes = rev (roots @ map node_path (filter node_protected nodes))"

definition gc_protect :: "string list \<Rightarrow> ProtectionNode list \<Rightarrow> ProtectionNode list \<times> ProtectionReport" where
  "gc_protect roots nodes =
    (case protect_loop (protection_index nodes) roots nodes (initial_pending roots nodes) [] [] [] of
       (nodes', missing_roots, missing_references) \<Rightarrow>
         (nodes', \<lparr> report_protected = length (filter node_protected nodes'),
            report_missing_roots = length missing_roots,
            report_missing_references = length missing_references \<rparr>))"

text \<open>The projection of an entry and the flags written back to the entries.\<close>

definition entry_node :: "Entry \<Rightarrow> ProtectionNode" where
  "entry_node e = \<lparr> node_store = entry_store e, node_path = store_path e, node_references = references e,
     node_protected = protected e \<rparr>"

definition protect_entries :: "string list \<Rightarrow> Entry list \<Rightarrow> Entry list \<times> ProtectionReport" where
  "protect_entries roots entries =
    (case gc_protect roots (map entry_node entries) of (nodes, report) \<Rightarrow>
       (map2 (\<lambda>e node. e\<lparr> protected := node_protected node \<rparr>) entries nodes, report))"

subsection \<open>Reachability\<close>

definition start_key :: "string list \<Rightarrow> ProtectionNode list \<Rightarrow> string \<Rightarrow> bool" where
  "start_key roots nodes key = (key \<in> set roots \<or> key \<in> node_path ` {n \<in> set nodes. node_protected n})"

inductive reachable_node :: "string list \<Rightarrow> ProtectionNode list \<Rightarrow> nat \<Rightarrow> bool" for roots nodes where
  start: "start_key roots nodes key \<Longrightarrow> map_of (protection_index nodes) key = Some i \<Longrightarrow> reachable_node roots nodes i"
| follow: "reachable_node roots nodes i \<Longrightarrow> key \<in> set (node_references (nodes ! i)) \<Longrightarrow>
    map_of (protection_index nodes) key = Some j \<Longrightarrow> reachable_node roots nodes j"

lemma or_insert_range: "map_of (or_insert k v m) x = Some y \<Longrightarrow> map_of m x = Some y \<or> x = k \<and> y = v"
  by (auto simp: or_insert_def map_add_def split: option.splits if_splits)

lemma index_bound: "map_of (fold index_node (enumerate n nodes) idx) x = Some i \<Longrightarrow>
    map_of idx x = Some i \<or> (n \<le> i \<and> i < n + length nodes)"
proof (induction nodes arbitrary: n idx)
  case (Cons node nodes)
  then have "map_of (index_node (n, node) idx) x = Some i \<or> (Suc n \<le> i \<and> i < Suc n + length nodes)"
    by (intro Cons.IH) simp
  then show ?case by (auto simp: index_node_def dest!: or_insert_range)
qed simp

lemma protection_index_bound: "map_of (protection_index nodes) x = Some i \<Longrightarrow> i < length nodes"
  using index_bound [of 0 nodes "[]" x i] by (simp add: protection_index_def)

definition mark :: "nat set \<Rightarrow> ProtectionNode list \<Rightarrow> ProtectionNode list" where
  "mark V nodes = map (\<lambda>(i, node). if i \<in> V then node\<lparr> node_protected := True \<rparr> else node) (enumerate 0 nodes)"

lemma length_mark [simp]: "length (mark V nodes) = length nodes"
  by (simp add: mark_def)

lemma nth_mark [simp]:
  "i < length nodes \<Longrightarrow> mark V nodes ! i = (if i \<in> V then (nodes ! i)\<lparr> node_protected := True \<rparr> else nodes ! i)"
  by (simp add: mark_def nth_enumerate_eq)

lemma mark_empty [simp]: "mark {} nodes = nodes"
  by (rule nth_equalityI) simp_all

lemma mark_insert:
  "i < length nodes \<Longrightarrow> (mark V nodes)[i := (mark V nodes ! i)\<lparr> node_protected := True \<rparr>] = mark (insert i V) nodes"
  by (rule nth_equalityI) (auto simp: nth_list_update)

text \<open>What the loop computes: it marks a set that contains the positions of all pending keys, is closed under references
  for the newly marked positions, and is contained in every closed set of positions that contains the pending ones.\<close>

definition resolves :: "(string \<times> nat) list \<Rightarrow> string set \<Rightarrow> nat set" where
  "resolves index keys = {i. \<exists>k \<in> keys. map_of index k = Some i}"

definition loop_marks ::
    "(string \<times> nat) list \<Rightarrow> ProtectionNode list \<Rightarrow> string set \<Rightarrow> nat set \<Rightarrow> nat set \<Rightarrow> bool" where
  "loop_marks index nodes keys visited V = (visited \<subseteq> V
    \<and> resolves index keys \<inter> {..<length nodes} \<subseteq> V
    \<and> (\<forall>i \<in> V - visited. i < length nodes \<and> resolves index (set (node_references (nodes ! i))) \<inter> {..<length nodes} \<subseteq> V)
    \<and> (\<forall>R. visited \<subseteq> R \<longrightarrow> resolves index keys \<subseteq> R
         \<longrightarrow> (\<forall>i \<in> R. resolves index (set (node_references (nodes ! i))) \<subseteq> R) \<longrightarrow> V \<subseteq> R))"

lemma loop_marksD:
  assumes "loop_marks index nodes keys visited V"
  shows "visited \<subseteq> V"
    and "resolves index keys \<inter> {..<length nodes} \<subseteq> V"
    and "i \<in> V - visited \<Longrightarrow> i < length nodes"
    and "i \<in> V - visited \<Longrightarrow> resolves index (set (node_references (nodes ! i))) \<inter> {..<length nodes} \<subseteq> V"
    and "visited \<subseteq> R \<Longrightarrow> resolves index keys \<subseteq> R
      \<Longrightarrow> (\<And>i. i \<in> R \<Longrightarrow> resolves index (set (node_references (nodes ! i))) \<subseteq> R) \<Longrightarrow> V \<subseteq> R"
  using assms unfolding loop_marks_def by simp_all

lemma loop_marksI:
  assumes "visited \<subseteq> V"
    and "resolves index keys \<inter> {..<length nodes} \<subseteq> V"
    and "\<And>i. i \<in> V - visited \<Longrightarrow> i < length nodes"
    and "\<And>i. i \<in> V - visited \<Longrightarrow> resolves index (set (node_references (nodes ! i))) \<inter> {..<length nodes} \<subseteq> V"
    and "\<And>R. visited \<subseteq> R \<Longrightarrow> resolves index keys \<subseteq> R
      \<Longrightarrow> (\<And>i. i \<in> R \<Longrightarrow> resolves index (set (node_references (nodes ! i))) \<subseteq> R) \<Longrightarrow> V \<subseteq> R"
  shows "loop_marks index nodes keys visited V"
  unfolding loop_marks_def using assms by simp

lemma resolves_insert: "resolves index (insert k ks) = set_option (map_of index k) \<union> resolves index ks"
  by (auto simp: resolves_def)

lemma resolves_union: "resolves index (a \<union> b) = resolves index a \<union> resolves index b"
  by (auto simp: resolves_def)

lemma loop_marks_skip:
  assumes "loop_marks index nodes keys visited V" and "set_option (map_of index k) \<inter> {..<length nodes} \<subseteq> visited"
  shows "loop_marks index nodes (insert k keys) visited V"
proof (rule loop_marksI)
  note marks = loop_marksD [OF assms(1)]
  show "visited \<subseteq> V" by (rule marks(1))
  show "resolves index (insert k keys) \<inter> {..<length nodes} \<subseteq> V"
    using assms(2) marks(1,2) unfolding resolves_insert Int_Un_distrib2 by (meson le_sup_iff order_trans)
  show "i < length nodes" if "i \<in> V - visited" for i using that by (rule marks(3))
  show "resolves index (set (node_references (nodes ! i))) \<inter> {..<length nodes} \<subseteq> V" if "i \<in> V - visited" for i
    using that by (rule marks(4))
  show "V \<subseteq> R" if "visited \<subseteq> R" "resolves index (insert k keys) \<subseteq> R"
      "\<And>i. i \<in> R \<Longrightarrow> resolves index (set (node_references (nodes ! i))) \<subseteq> R" for R
    using that(2) unfolding resolves_insert by (intro marks(5) that(1,3)) simp_all
qed

lemma loop_marks_visit:
  assumes V: "loop_marks index nodes (set (node_references (nodes ! i)) \<union> keys) (insert i visited) V"
    and i: "map_of index k = Some i" "i < length nodes"
  shows "loop_marks index nodes (insert k keys) visited V"
proof (rule loop_marksI)
  note marks = loop_marksD [OF V, unfolded resolves_union]
  show "visited \<subseteq> V" using marks(1) by simp
  show "resolves index (insert k keys) \<inter> {..<length nodes} \<subseteq> V"
    using marks(1,2) i by (auto simp: resolves_insert)
  show "j < length nodes" if "j \<in> V - visited" for j
    using that marks(3) [of j] i(2) by (cases "j = i") simp_all
  show "resolves index (set (node_references (nodes ! j))) \<inter> {..<length nodes} \<subseteq> V" if "j \<in> V - visited" for j
    using that marks(2) marks(4) [of j] by (cases "j = i") auto
  show "V \<subseteq> R" if "visited \<subseteq> R" "resolves index (insert k keys) \<subseteq> R"
      "\<And>i. i \<in> R \<Longrightarrow> resolves index (set (node_references (nodes ! i))) \<subseteq> R" for R
    using that(1,2) i(1) unfolding resolves_insert by (intro marks(5) that(3)) (simp_all add: that(3))
qed

lemma protect_loop_mark:
  assumes "i_nodes = mark (set visited) nodes"
  shows "\<exists>V mr' mf'. protect_loop index roots i_nodes pending visited mr mf = (mark V nodes, mr', mf')
    \<and> loop_marks index nodes (set pending) (set visited) V"
  using assms
proof (induction index roots i_nodes pending visited mr mf rule: protect_loop.induct)
  case (1 index roots i_nodes visited mr mf)
  then show ?case by (intro exI [of _ "set visited"]) (auto simp: loop_marks_def resolves_def)
next
  case (2 index roots i_nodes root pending visited mr mf)
  show ?case
  proof (cases "map_of index root")
    case None
    show ?thesis
    proof (cases "root \<in> set roots")
      case True
      from "2.IH"(1) [OF None True "2.prems"] obtain V mr' mf' where
        V: "protect_loop index roots i_nodes pending visited (set_insert root mr) mf = (mark V nodes, mr', mf')"
          "loop_marks index nodes (set pending) (set visited) V" by blast
      have "loop_marks index nodes (insert root (set pending)) (set visited) V"
        using None by (intro loop_marks_skip [OF V(2)]) simp
      then show ?thesis using None True V(1) by auto
    next
      case False
      from "2.IH"(2) [OF None False "2.prems"] obtain V mr' mf' where
        V: "protect_loop index roots i_nodes pending visited mr (set_insert root mf) = (mark V nodes, mr', mf')"
          "loop_marks index nodes (set pending) (set visited) V" by blast
      have "loop_marks index nodes (insert root (set pending)) (set visited) V"
        using None by (intro loop_marks_skip [OF V(2)]) simp
      then show ?thesis using None False V(1) by auto
    qed
  next
    case (Some i)
    show ?thesis
    proof (cases "i < length i_nodes \<and> i \<notin> set visited")
      case False
      from "2.IH"(4) [OF Some False "2.prems"] obtain V mr' mf' where
        V: "protect_loop index roots i_nodes pending visited mr mf = (mark V nodes, mr', mf')"
          "loop_marks index nodes (set pending) (set visited) V" by blast
      have "loop_marks index nodes (set (root # pending)) (set visited) V"
        using Some False "2.prems" by (simp, intro loop_marks_skip [OF V(2)]) auto
      moreover have "protect_loop index roots i_nodes (root # pending) visited mr mf = (mark V nodes, mr', mf')"
        using V(1) Some False by auto
      ultimately show ?thesis by blast
    next
      case True
      then have i: "i < length nodes" "i \<notin> set visited" using "2.prems" by simp_all
      have refs: "node_references (i_nodes ! i) = node_references (nodes ! i)" using "2.prems" i by simp
      have "i_nodes[i := (i_nodes ! i)\<lparr> node_protected := True \<rparr>] = mark (set (i # visited)) nodes"
        using mark_insert [OF i(1), of "set visited"] "2.prems" by simp
      from "2.IH"(3) [OF Some True this] obtain V mr' mf' where
        V: "protect_loop index roots (i_nodes[i := (i_nodes ! i)\<lparr> node_protected := True \<rparr>])
            (rev (node_references (i_nodes ! i)) @ pending) (i # visited) mr mf = (mark V nodes, mr', mf')"
          "loop_marks index nodes (set (node_references (nodes ! i)) \<union> set pending) (insert i (set visited)) V"
        by (auto simp: refs)
      have "loop_marks index nodes (set (root # pending)) (set visited) V"
        using loop_marks_visit [OF V(2) Some i(1)] by simp
      moreover have "protect_loop index roots i_nodes (root # pending) visited mr mf = (mark V nodes, mr', mf')"
        using V(1) Some True by simp
      ultimately show ?thesis by blast
    qed
  qed
qed

lemma set_initial_pending: "k \<in> set (initial_pending roots nodes) \<longleftrightarrow> start_key roots nodes k"
  by (auto simp: initial_pending_def start_key_def)

lemma gc_protect_marks:
  "fst (gc_protect roots nodes) = mark {i. reachable_node roots nodes i} nodes"
proof -
  let ?idx = "protection_index nodes" and ?R = "{i. reachable_node roots nodes i}"
  have "nodes = mark (set []) nodes" by simp
  from protect_loop_mark [OF this, of ?idx roots "initial_pending roots nodes" "[]" "[]"]
  obtain V mr' mf' where loop: "protect_loop ?idx roots nodes (initial_pending roots nodes) [] [] [] = (mark V nodes, mr', mf')"
      and marks: "loop_marks ?idx nodes (set (initial_pending roots nodes)) {} V"
    by auto
  have "V \<subseteq> ?R"
    by (rule loop_marksD(5) [OF marks]) (auto simp: resolves_def set_initial_pending intro: reachable_node.intros)
  moreover have "i \<in> V" if "reachable_node roots nodes i" for i
    using that
  proof (induction rule: reachable_node.induct)
    case (start key i)
    then have "i \<in> resolves ?idx (set (initial_pending roots nodes)) \<inter> {..<length nodes}"
      using protection_index_bound by (auto simp: resolves_def set_initial_pending)
    then show ?case using loop_marksD(2) [OF marks] by blast
  next
    case (follow i key j)
    then have "j \<in> resolves ?idx (set (node_references (nodes ! i))) \<inter> {..<length nodes}"
      using protection_index_bound by (auto simp: resolves_def)
    then show ?case using loop_marksD(4) [OF marks, of i] follow.IH by blast
  qed
  ultimately have "V = ?R" by blast
  then show ?thesis by (simp add: gc_protect_def loop)
qed

lemma nth_protect_entries:
  assumes "i < length entries"
  shows "fst (protect_entries roots entries) ! i = (entries ! i)\<lparr> protected := protected (entries ! i)
    \<or> reachable_node roots (map entry_node entries) i \<rparr>"
proof -
  obtain nodes report where gc: "gc_protect roots (map entry_node entries) = (nodes, report)" by fastforce
  have "nodes = mark {i. reachable_node roots (map entry_node entries) i} (map entry_node entries)"
    using gc_protect_marks [of roots "map entry_node entries"] gc by simp
  then show ?thesis using assms by (simp add: protect_entries_def gc entry_node_def)
qed

lemma length_protect_entries: "length (fst (protect_entries roots entries)) = length entries"
proof -
  obtain nodes report where gc: "gc_protect roots (map entry_node entries) = (nodes, report)" by fastforce
  have "length nodes = length entries"
    using gc_protect_marks [of roots "map entry_node entries"] gc by simp
  then show ?thesis by (simp add: protect_entries_def gc)
qed

text \<open>C27: collection protects exactly the closure of its roots.  After \<open>protect\<close> an entry is protected if and only if it was
  protected before, or it is reachable: a root, or the path of an entry protected before, names it, or it is named by a
  reference of a reachable entry.  Nothing else of any entry changes.  The marking loop ends on every input,
  cyclic references included.\<close>

theorem protect_is_closure:
  "fst (protect_entries roots entries) =
    map (\<lambda>(i, e). e\<lparr> protected := protected e \<or> reachable_node roots (map entry_node entries) i \<rparr>) (enumerate 0 entries)"
  by (rule nth_equalityI) (simp_all add: length_protect_entries nth_protect_entries nth_enumerate_eq)

end
