(* ===== verification/Gc_Accounting.thy ===== *)
theory Gc_Accounting
  imports Gc
begin

section \<open>The accounting of shared payloads\<close>

text \<open>
  Several publications may share one payload file.  The collector counts the uses of every payload name, decrements the
  counts as it removes publications and counts the size of a payload as freed when its count reaches zero.  This
  theory gives the meaning of these running totals: \<open>live_bytes\<close> is what a set of publications occupies,
  every payload file counted once.  The accounting is exact when entries that name the same file report the same size,
  which holds for sizes read from the file system, and the totals fit in 64 bits.
\<close>

definition names_of :: "Entry list \<Rightarrow> nat set \<Rightarrow> string set" where
  "names_of entries S = (\<Union>i \<in> S. set (entry_payload_names (entries ! i)))"

definition users :: "Entry list \<Rightarrow> nat set \<Rightarrow> string \<Rightarrow> nat set" where
  "users entries S n = {i \<in> S. n \<in> set (entry_payload_names (entries ! i))}"

definition live_bytes :: "Entry list \<Rightarrow> (string \<Rightarrow> nat) \<Rightarrow> nat set \<Rightarrow> nat" where
  "live_bytes entries sz S = (\<Sum>i \<in> S. narinfo_bytes (entries ! i)) + (\<Sum>n \<in> names_of entries S. sz n)"

definition consistent_sizes :: "Entry list \<Rightarrow> (string \<Rightarrow> nat) \<Rightarrow> bool" where
  "consistent_sizes entries sz =
    (\<forall>e \<in> set entries. nar_bytes e = sz (nar_name e) \<and> raw_nar_bytes e = sz (raw_nar_name e))"

definition counts_for :: "Entry list \<Rightarrow> nat set \<Rightarrow> (string \<times> nat) list \<Rightarrow> bool" where
  "counts_for entries S counts = (\<forall>n. map_of counts n =
    (if n \<in> names_of entries {..<length entries} then Some (card (users entries S n)) else None))"

subsection \<open>Sums of machine words\<close>

lemma fold_wrapping_add:
  "fold (\<lambda>x acc. wrapping_add_u64 acc x) xs a mod 2 ^ 64 = (a + sum_list xs) mod 2 ^ 64"
  by (induction xs arbitrary: a) (simp_all add: wrapping_add_u64_def mod_simps add.assoc)

lemma fold_wrapping_add_less:
  "a < 2 ^ 64 \<Longrightarrow> fold (\<lambda>x acc. wrapping_add_u64 acc x) xs a < 2 ^ 64"
  by (induction xs arbitrary: a) (simp_all add: wrapping_add_u64_def)

lemma sum_u64_eq: "sum_u64 xs = sum_list xs mod 2 ^ 64"
proof -
  have "sum_u64 xs mod 2 ^ 64 = sum_list xs mod 2 ^ 64"
    using fold_wrapping_add [of xs 0] by (simp add: sum_u64_def)
  moreover have "sum_u64 xs < 2 ^ 64"
    unfolding sum_u64_def by (rule fold_wrapping_add_less) simp
  ultimately show ?thesis by simp
qed

subsection \<open>The maps computed from the entries\<close>

lemma distinct_payload_names [simp]: "distinct (entry_payload_names e)"
  by (simp add: entry_payload_names_def)

lemma map_of_count_name: "map_of (count_name n counts) =
    (map_of counts)(n \<mapsto> (case map_of counts n of Some c \<Rightarrow> c | None \<Rightarrow> 0) + 1)"
  by (simp add: count_name_def update_conv')

lemma map_of_count_names: "distinct ns \<Longrightarrow> map_of (fold count_name ns counts) n =
    (if n \<in> set ns then Some ((case map_of counts n of Some c \<Rightarrow> c | None \<Rightarrow> 0) + 1) else map_of counts n)"
  by (induction ns arbitrary: counts) (auto simp: map_of_count_name)

definition uses :: "Entry list \<Rightarrow> string \<Rightarrow> nat" where
  "uses entries n = length (filter (\<lambda>e. n \<in> set (entry_payload_names e)) entries)"

lemma reference_counts_snoc:
  "reference_counts (es @ [e]) = fold count_name (entry_payload_names e) (reference_counts es)"
  by (simp add: reference_counts_def)

lemma uses_snoc: "uses (es @ [e]) n = uses es n + (if n \<in> set (entry_payload_names e) then 1 else 0)"
  by (simp add: uses_def)

lemma map_of_reference_counts:
  "map_of (reference_counts entries) n = (if uses entries n = 0 then None else Some (uses entries n))"
proof (induction entries rule: rev_induct)
  case Nil
  then show ?case by (simp add: reference_counts_def uses_def)
next
  case (snoc e es)
  then show ?case by (simp add: reference_counts_snoc map_of_count_names uses_snoc)
qed

lemma uses_eq_card: "uses entries n = card (users entries {..<length entries} n)"
  by (simp add: uses_def users_def length_filter_conv_card)

lemma finite_users [simp]: "finite S \<Longrightarrow> finite (users entries S n)"
  by (simp add: users_def)

lemma users_empty_iff: "users entries S n = {} \<longleftrightarrow> n \<notin> names_of entries S"
  by (auto simp: users_def names_of_def)

lemma reference_counts_correct: "counts_for entries {..<length entries} (reference_counts entries)"
  unfolding counts_for_def map_of_reference_counts uses_eq_card
  by (simp add: users_empty_iff)

lemma map_of_or_insert: "map_of (or_insert k v m) x =
    (if x = k \<and> map_of m k = None then Some v else map_of m x)"
  by (auto simp: or_insert_def map_add_def split: option.splits)

lemma distinct_or_insert: "distinct (map fst m) \<Longrightarrow> distinct (map fst (or_insert k v m))"
  by (auto simp: or_insert_def map_of_eq_None_iff split: option.splits)

lemma distinct_record_sizes:
  "distinct (map fst m) \<Longrightarrow> distinct (map fst (fold record_entry_payload_sizes es m))"
  by (induction es arbitrary: m) (simp_all add: record_entry_payload_sizes_def Let_def distinct_or_insert)

lemma map_of_record_sizes:
  assumes "consistent_sizes [e] sz"
  shows "map_of (record_entry_payload_sizes e m) x =
    (if x \<in> set (entry_payload_names e) \<and> map_of m x = None then Some (sz x) else map_of m x)"
  using assms
  by (auto simp: record_entry_payload_sizes_def Let_def map_of_or_insert entry_payload_names_def consistent_sizes_def)

lemma map_of_payload_sizes:
  assumes "consistent_sizes entries sz"
  shows "map_of (payload_sizes entries) x = (if \<exists>e \<in> set entries. x \<in> set (entry_payload_names e) then Some (sz x) else None)"
  using assms
proof (induction entries rule: rev_induct)
  case (snoc e es)
  have "consistent_sizes [e] sz" "consistent_sizes es sz" using snoc.prems by (simp_all add: consistent_sizes_def)
  then show ?case
    using snoc.IH map_of_record_sizes [of e sz "payload_sizes es" x] by (auto simp: payload_sizes_def)
qed (simp add: payload_sizes_def)

lemma all_names_eq: "names_of entries {..<length entries} = (\<Union>e \<in> set entries. set (entry_payload_names e))"
proof -
  have "set entries = (\<lambda>i. entries ! i) ` {..<length entries}" by (auto simp: set_conv_nth)
  then show ?thesis by (simp add: names_of_def)
qed

lemma lookup_payload_size:
  "consistent_sizes entries sz \<Longrightarrow> x \<in> names_of entries {..<length entries} \<Longrightarrow> map_of (payload_sizes entries) x = Some (sz x)"
  by (simp add: map_of_payload_sizes all_names_eq)

lemma sum_alist: "distinct (map fst m) \<Longrightarrow> sum_list (map snd m) = (\<Sum>k \<in> fst ` set m. the (map_of m k))"
proof (induction m)
  case (Cons kv m)
  then have "(\<Sum>k \<in> fst ` set m. the (map_of (kv # m) k)) = (\<Sum>k \<in> fst ` set m. the (map_of m k))"
    by (intro sum.cong refl) (simp add: image_iff, metis Cons.prems distinct.simps(2) image_eqI list.simps(9) set_map)
  with Cons show ?case by (cases kv) simp
qed simp

lemma sum_payload_sizes:
  assumes "consistent_sizes entries sz"
  shows "sum_list (map snd (payload_sizes entries)) = (\<Sum>n \<in> names_of entries {..<length entries}. sz n)"
proof -
  let ?m = "payload_sizes entries"
  have keys: "fst ` set ?m = names_of entries {..<length entries}"
    using map_of_payload_sizes [OF assms] unfolding dom_map_of_conv_image_fst [symmetric] all_names_eq
    by (auto split: if_splits)
  have "distinct (map fst ?m)" unfolding payload_sizes_def by (rule distinct_record_sizes) simp
  then have "sum_list (map snd ?m) = (\<Sum>n \<in> names_of entries {..<length entries}. the (map_of ?m n))"
    by (simp add: sum_alist keys)
  also have "\<dots> = (\<Sum>n \<in> names_of entries {..<length entries}. sz n)"
    by (rule sum.cong) (simp_all add: lookup_payload_size [OF assms])
  finally show ?thesis .
qed

lemma total_bytes_eq:
  assumes "consistent_sizes entries sz"
  shows "total_bytes entries = live_bytes entries sz {..<length entries} mod 2 ^ 64"
proof -
  have "sum_list (map narinfo_bytes entries) = (\<Sum>i < length entries. narinfo_bytes (entries ! i))"
    by (simp add: sum_list_sum_nth atLeast0LessThan)
  then show ?thesis
    unfolding total_bytes_def live_bytes_def wrapping_add_u64_def sum_u64_eq sum_payload_sizes [OF assms]
    by (simp add: mod_add_eq)
qed

subsection \<open>Removing one publication\<close>

lemma map_of_release_names:
  assumes "distinct ns" "set ns \<subseteq> dom (map_of counts)"
  shows "map_of (snd (fold (release_name sizes) ns (a, counts))) n =
    (if n \<in> set ns then Some (the (map_of counts n) - 1) else map_of counts n)"
  using assms
proof (induction ns arbitrary: a counts)
  case (Cons m ns)
  obtain b where step: "release_name sizes m (a, counts) = (b, AList.update m (the (map_of counts m) - 1) counts)"
    by (simp add: release_name_def Let_def)
  show ?case
    unfolding fold_simps step using Cons.prems by (subst Cons.IH) (auto simp: update_conv')
qed simp

lemma freed_release_names:
  assumes "distinct ns" "set ns \<subseteq> dom (map_of counts)" "\<And>n. n \<in> set ns \<Longrightarrow> map_of sizes n = Some (sz n)"
    and "a + (\<Sum>n \<in> {n \<in> set ns. the (map_of counts n) \<le> 1}. sz n) < 2 ^ 64"
  shows "fst (fold (release_name sizes) ns (a, counts)) = a + (\<Sum>n \<in> {n \<in> set ns. the (map_of counts n) \<le> 1}. sz n)"
  using assms
proof (induction ns arbitrary: a counts)
  case (Cons m ns)
  let ?c = "AList.update m (the (map_of counts m) - 1) counts"
  let ?b = "if the (map_of counts m) \<le> 1 then sz m else 0"
  have rest: "{n \<in> set ns. the (map_of ?c n) \<le> 1} = {n \<in> set ns. the (map_of counts n) \<le> 1}"
    using Cons.prems(1) by (auto simp: update_conv')
  have whole: "{n \<in> set (m # ns). the (map_of counts n) \<le> 1} =
      (if the (map_of counts m) \<le> 1 then insert m {n \<in> set ns. the (map_of counts n) \<le> 1}
       else {n \<in> set ns. the (map_of counts n) \<le> 1})" by auto
  have total: "(\<Sum>n \<in> {n \<in> set (m # ns). the (map_of counts n) \<le> 1}. sz n) =
      ?b + (\<Sum>n \<in> {n \<in> set ns. the (map_of counts n) \<le> 1}. sz n)"
    using Cons.prems(1) unfolding whole by simp
  have step: "release_name sizes m (a, counts) = (a + ?b, ?c)"
    using Cons.prems(3) [of m] Cons.prems(4) unfolding total
    by (auto simp: release_name_def Let_def saturating_add_u64_def u64_max_def)
  have "fst (fold (release_name sizes) ns (a + ?b, ?c)) = a + ?b + (\<Sum>n \<in> {n \<in> set ns. the (map_of ?c n) \<le> 1}. sz n)"
  proof (rule Cons.IH)
    show "distinct ns" "set ns \<subseteq> dom (map_of ?c)" using Cons.prems(1,2) by (auto simp: update_conv')
    show "map_of sizes n = Some (sz n)" if "n \<in> set ns" for n using that Cons.prems(3) by simp
    show "a + ?b + (\<Sum>n \<in> {n \<in> set ns. the (map_of ?c n) \<le> 1}. sz n) < 2 ^ 64"
      using Cons.prems(4) unfolding total rest by simp
  qed
  then show ?case unfolding fold_simps step total rest by simp
qed simp

lemma users_remove: "users entries (S - {i}) n = users entries S n - {i}"
  by (auto simp: users_def)

lemma names_of_remove:
  "i \<in> S \<Longrightarrow> names_of entries S = names_of entries (S - {i}) \<union> set (entry_payload_names (entries ! i))"
  by (auto simp: names_of_def)

lemma finite_names_of [simp]: "finite S \<Longrightarrow> finite (names_of entries S)"
  by (simp add: names_of_def)

lemma last_user:
  assumes "finite S" "i \<in> S" "n \<in> set (entry_payload_names (entries ! i))"
  shows "card (users entries S n) \<le> 1 \<longleftrightarrow> n \<notin> names_of entries (S - {i})"
proof -
  have i: "i \<in> users entries S n" using assms by (simp add: users_def)
  then have "card (users entries S n) = Suc (card (users entries (S - {i}) n))"
    using assms(1) unfolding users_remove by (intro card.remove) simp_all
  then show ?thesis using assms(1) users_empty_iff [of entries "S - {i}" n] by simp
qed

lemma live_bytes_remove:
  assumes "finite S" "i \<in> S"
  shows "live_bytes entries sz S = live_bytes entries sz (S - {i}) + (narinfo_bytes (entries ! i)
    + (\<Sum>n \<in> {n \<in> set (entry_payload_names (entries ! i)). card (users entries S n) \<le> 1}. sz n))"
proof -
  let ?new = "{n \<in> set (entry_payload_names (entries ! i)). card (users entries S n) \<le> 1}"
  have "?new = set (entry_payload_names (entries ! i)) - names_of entries (S - {i})"
    using last_user [OF assms] by auto
  then have "names_of entries S = names_of entries (S - {i}) \<union> ?new" "names_of entries (S - {i}) \<inter> ?new = {}"
    using names_of_remove [OF assms(2)] by auto
  then have "(\<Sum>n \<in> names_of entries S. sz n) = (\<Sum>n \<in> names_of entries (S - {i}). sz n) + (\<Sum>n \<in> ?new. sz n)"
    using assms(1) by (simp add: sum.union_disjoint)
  moreover have "(\<Sum>j \<in> S. narinfo_bytes (entries ! j)) =
      narinfo_bytes (entries ! i) + (\<Sum>j \<in> S - {i}. narinfo_bytes (entries ! j))"
    using assms by (rule sum.remove)
  ultimately show ?thesis by (simp add: live_bytes_def)
qed

lemma remove_publication_exact:
  assumes counts: "counts_for entries S counts" and S: "S \<subseteq> {..<length entries}" "i \<in> S"
    and sz: "consistent_sizes entries sz" and bound: "live_bytes entries sz S < 2 ^ 64"
  shows "live_bytes entries sz S =
      live_bytes entries sz (S - {i}) + fst (remove_publication_bytes (entries ! i) counts (payload_sizes entries))"
    and "counts_for entries (S - {i}) (snd (remove_publication_bytes (entries ! i) counts (payload_sizes entries)))"
proof -
  let ?ns = "entry_payload_names (entries ! i)"
  have fin: "finite S" using S(1) by (rule finite_subset) simp
  have known: "set ?ns \<subseteq> names_of entries {..<length entries}" using S by (auto simp: names_of_def)
  have look: "map_of counts n = Some (card (users entries S n))" if "n \<in> set ?ns" for n
    using counts known that by (auto simp: counts_for_def)
  have dom: "set ?ns \<subseteq> dom (map_of counts)" using look by auto
  have last: "{n \<in> set ?ns. the (map_of counts n) \<le> 1} = {n \<in> set ?ns. card (users entries S n) \<le> 1}"
    using look by auto
  have "fst (remove_publication_bytes (entries ! i) counts (payload_sizes entries)) =
      narinfo_bytes (entries ! i) + (\<Sum>n \<in> {n \<in> set ?ns. the (map_of counts n) \<le> 1}. sz n)"
    unfolding remove_publication_bytes_def
    using known lookup_payload_size [OF sz] bound live_bytes_remove [OF fin S(2), of entries sz] last
    by (intro freed_release_names dom) auto
  then show "live_bytes entries sz S =
      live_bytes entries sz (S - {i}) + fst (remove_publication_bytes (entries ! i) counts (payload_sizes entries))"
    using live_bytes_remove [OF fin S(2), of entries sz] last by simp
  have "card (users entries (S - {i}) n) = (if n \<in> set ?ns then card (users entries S n) - 1 else card (users entries S n))" for n
    using S(2) fin unfolding users_remove by (auto simp: users_def)
  then show "counts_for entries (S - {i}) (snd (remove_publication_bytes (entries ! i) counts (payload_sizes entries)))"
    using counts known look unfolding counts_for_def remove_publication_bytes_def
    by (auto simp: map_of_release_names dom)
qed

subsection \<open>Removing a selection\<close>

definition retained :: "'a list \<Rightarrow> nat list \<Rightarrow> 'a list" where
  "retained xs selected = map (\<lambda>i. xs ! i) (filter (\<lambda>i. i \<notin> set selected) [0..<length xs])"

lemma set_retained: "set (retained xs selected) = (\<lambda>i. xs ! i) ` ({..<length xs} - set selected)"
  by (auto simp: retained_def)

lemma sum_retained: "sum_list (map f (retained xs selected)) = (\<Sum>i \<in> {..<length xs} - set selected. f (xs ! i))"
proof -
  have "sum_list (map f (retained xs selected)) = (\<Sum>i \<in> set (filter (\<lambda>i. i \<notin> set selected) [0..<length xs]). f (xs ! i))"
    unfolding retained_def map_map comp_def by (rule sum_list_distinct_conv_sum_set) simp
  also have "set (filter (\<lambda>i. i \<notin> set selected) [0..<length xs]) = {..<length xs} - set selected" by auto
  finally show ?thesis .
qed

lemma total_bytes_retained:
  assumes sz: "consistent_sizes entries sz" and bound: "live_bytes entries sz ({..<length entries} - set selected) < 2 ^ 64"
  shows "total_bytes (retained entries selected) = live_bytes entries sz ({..<length entries} - set selected)"
proof -
  let ?es = "retained entries selected" and ?S = "{..<length entries} - set selected"
  have "consistent_sizes ?es sz" using sz by (auto simp: consistent_sizes_def set_retained)
  then have "total_bytes ?es = live_bytes ?es sz {..<length ?es} mod 2 ^ 64" by (rule total_bytes_eq)
  moreover have "names_of ?es {..<length ?es} = names_of entries ?S"
    unfolding all_names_eq set_retained by (simp add: names_of_def)
  moreover have "(\<Sum>i < length ?es. narinfo_bytes (?es ! i)) = (\<Sum>i \<in> ?S. narinfo_bytes (entries ! i))"
    unfolding sum_retained [symmetric] by (simp add: sum_list_sum_nth atLeast0LessThan)
  ultimately show ?thesis using bound by (simp add: live_bytes_def)
qed

lemma live_bytes_mono:
  assumes "finite S" "T \<subseteq> S"
  shows "live_bytes entries sz T \<le> live_bytes entries sz S"
  unfolding live_bytes_def using assms
  by (intro add_mono sum_mono2) (auto simp: names_of_def)

lemma projected_exact:
  assumes sz: "consistent_sizes entries sz" and bound: "live_bytes entries sz S < 2 ^ 64"
    and "S \<subseteq> {..<length entries}" "distinct selected" "set selected \<subseteq> S" "counts_for entries S counts"
  shows "fst (fold (\<lambda>index (total, counts).
        case remove_publication_bytes (entries ! index) counts (payload_sizes entries) of
          (freed, counts) \<Rightarrow> (saturating_sub_u64 total freed, counts))
      selected (live_bytes entries sz S, counts)) = live_bytes entries sz (S - set selected)"
  using assms(2-)
proof (induction selected arbitrary: S counts)
  case (Cons i selected)
  have i: "i \<in> S" using Cons.prems by simp
  have fin: "finite S" using Cons.prems(2) by (rule finite_subset) simp
  obtain freed counts' where rem: "remove_publication_bytes (entries ! i) counts (payload_sizes entries) = (freed, counts')"
    by fastforce
  note exact = remove_publication_exact [OF Cons.prems(5,2) i sz Cons.prems(1), unfolded rem fst_conv snd_conv]
  have "live_bytes entries sz S - freed = live_bytes entries sz (S - {i})" using exact(1) by simp
  moreover have "live_bytes entries sz (S - {i}) < 2 ^ 64" using Cons.prems(1) exact(1) by simp
  moreover have "S - {i} - set selected = S - set (i # selected)" by auto
  ultimately show ?case
    using Cons.IH [OF _ _ _ _ exact(2)] Cons.prems(2,3,4) by (simp add: rem saturating_sub_u64_def) blast
qed simp

lemma projected_published_exact:
  assumes sz: "consistent_sizes entries sz" and bound: "live_bytes entries sz {..<length entries} < 2 ^ 64"
    and "distinct selected" "set selected \<subseteq> {..<length entries}"
  shows "projected_published_bytes entries selected = live_bytes entries sz ({..<length entries} - set selected)"
proof -
  have "total_bytes entries = live_bytes entries sz {..<length entries}" using total_bytes_eq [OF sz] bound by simp
  then show ?thesis
    using projected_exact [OF sz bound subset_refl assms(3,4) reference_counts_correct]
    by (simp add: projected_published_bytes_def)
qed

lemma orphans_split:
  fixes orphans :: "Orphan list"
  assumes "distinct selected" "set selected \<subseteq> {..<length orphans}"
  shows "sum_list (map orphan_size orphans) =
    sum_list (map orphan_size (retained orphans selected)) + sum_list (map (\<lambda>i. orphan_size (orphans ! i)) selected)"
proof -
  have "sum_list (map (\<lambda>i. orphan_size (orphans ! i)) selected) = (\<Sum>i \<in> set selected. orphan_size (orphans ! i))"
    using assms(1) by (rule sum_list_distinct_conv_sum_set)
  moreover have "(\<Sum>i < length orphans. orphan_size (orphans ! i)) =
      (\<Sum>i \<in> {..<length orphans} - set selected. orphan_size (orphans ! i)) + (\<Sum>i \<in> set selected. orphan_size (orphans ! i))"
    using assms(2) by (intro sum.subset_diff) simp_all
  ultimately show ?thesis
    unfolding sum_retained by (simp add: sum_list_sum_nth atLeast0LessThan)
qed

lemma logical_after_exact:
  assumes sz: "consistent_sizes entries sz"
    and bound: "live_bytes entries sz {..<length entries} + sum_list (map orphan_size orphans) < 2 ^ 64"
    and "distinct selected" "set selected \<subseteq> {..<length entries}"
    and "distinct selected_o" "set selected_o \<subseteq> {..<length orphans}"
  shows "logical_after_bytes entries selected orphans selected_o =
    live_bytes entries sz ({..<length entries} - set selected) + sum_list (map orphan_size (retained orphans selected_o))"
proof -
  let ?P = "live_bytes entries sz ({..<length entries} - set selected)"
  note split = orphans_split [OF assms(5,6)]
  have "?P \<le> live_bytes entries sz {..<length entries}" by (rule live_bytes_mono) auto
  moreover have "projected_published_bytes entries selected = ?P"
    using bound by (intro projected_published_exact [OF sz _ assms(3,4)]) simp
  ultimately show ?thesis
    using bound split unfolding logical_after_bytes_def orphan_bytes_def sum_u64_eq saturating_sub_u64_def saturating_add_u64_def u64_max_def
    by simp
qed

text \<open>C28: the size the collector predicts is the size it leaves.  For a selection of distinct publications and orphans,
  \<open>logical_after_bytes\<close>, computed by decrementing the use counts of shared payloads, equals the size of the
  remaining publications, computed from scratch, plus the size of the remaining orphans: a payload is counted as freed
  exactly when its last user is removed.  Entries that name the same file agree on its size, and the
  cache's size fits in 64 bits.\<close>

theorem predicted_size_exact:
  assumes "consistent_sizes entries sz"
    and "live_bytes entries sz {..<length entries} + sum_list (map orphan_size orphans) < 2 ^ 64"
    and "distinct selected" "set selected \<subseteq> {..<length entries}"
    and "distinct selected_o" "set selected_o \<subseteq> {..<length orphans}"
  shows "logical_after_bytes entries selected orphans selected_o =
    total_bytes (retained entries selected) + orphan_bytes (retained orphans selected_o)"
proof -
  have "live_bytes entries sz ({..<length entries} - set selected) \<le> live_bytes entries sz {..<length entries}"
    by (rule live_bytes_mono) auto
  then have "total_bytes (retained entries selected) = live_bytes entries sz ({..<length entries} - set selected)"
    using assms(2) by (intro total_bytes_retained [OF assms(1)]) simp
  moreover have "orphan_bytes (retained orphans selected_o) = sum_list (map orphan_size (retained orphans selected_o))"
    using assms(2) orphans_split [OF assms(5,6)] by (simp add: orphan_bytes_def sum_u64_eq)
  ultimately show ?thesis using logical_after_exact [OF assms] by simp
qed

text \<open>Two publications that share a payload and an orphan; one publication and the orphan are removed.\<close>

definition sample_entry :: "string \<Rightarrow> string \<Rightarrow> string list \<Rightarrow> nat \<Rightarrow> Entry" where
  "sample_entry path payload refs written = \<lparr> last_use = written, entry_store = StoreHash (ascii path), store_path = path, references = refs,
     narinfo_name = path, nar_name = payload, narinfo_bytes = 10, nar_bytes = 100, raw_nar_name = payload,
     raw_nar_bytes = 100, modified = written, protected = False \<rparr>"

definition sample_orphan :: "string \<Rightarrow> nat \<Rightarrow> Orphan" where
  "sample_orphan name written = \<lparr> orphan_name = name, orphan_size = 7, orphan_modified = written \<rparr>"

theorem predicted_size_exact_witness:
  "logical_after_bytes [sample_entry ''a'' ''n'' [] 0, sample_entry ''b'' ''n'' [] 1] [0] [sample_orphan ''o'' 0] [0] =
    total_bytes (retained [sample_entry ''a'' ''n'' [] 0, sample_entry ''b'' ''n'' [] 1] [0])
      + orphan_bytes (retained [sample_orphan ''o'' 0] [0])"
proof (rule predicted_size_exact)
  show "consistent_sizes [sample_entry ''a'' ''n'' [] 0, sample_entry ''b'' ''n'' [] 1] (\<lambda>_. 100)"
    by (simp add: consistent_sizes_def sample_entry_def)
  show "live_bytes [sample_entry ''a'' ''n'' [] 0, sample_entry ''b'' ''n'' [] 1] (\<lambda>_. 100)
      {..<length [sample_entry ''a'' ''n'' [] 0, sample_entry ''b'' ''n'' [] 1]}
      + sum_list (map orphan_size [sample_orphan ''o'' 0]) < 2 ^ 64"
    by (simp add: live_bytes_def names_of_def sample_entry_def sample_orphan_def entry_payload_names_def lessThan_Suc)
qed simp_all

end
