(* ===== verification/Gc_Select.thy ===== *)
theory Gc_Select
  imports Gc_Accounting "HOL-Library.Sublist"
begin

section \<open>What a collection selects (\<open>select_flat_candidates\<close> in \<open>src/storage/gc.rs\<close>)\<close>

text \<open>
  Safety: a selection contains no protected object and none younger than the minimal age, no index twice, and no more
  objects than the deletion limit allows.  Progress: under size pressure the selection reaches the target or takes every
  object it may take, unless the deletion limit stops it.
\<close>

definition publications_in :: "FlatCandidate list \<Rightarrow> nat list" where
  "publications_in cs = List.map_filter (\<lambda>c. case c of CandidatePublication i \<Rightarrow> Some i | _ \<Rightarrow> None) cs"

definition orphans_in :: "FlatCandidate list \<Rightarrow> nat list" where
  "orphans_in cs = List.map_filter (\<lambda>c. case c of CandidateOrphan i \<Rightarrow> Some i | _ \<Rightarrow> None) cs"

lemma candidates_in_simps [simp]:
  "publications_in [] = []" "orphans_in [] = []"
  "publications_in (CandidatePublication i # cs) = i # publications_in cs"
  "publications_in (CandidateOrphan i # cs) = publications_in cs"
  "orphans_in (CandidatePublication i # cs) = orphans_in cs"
  "orphans_in (CandidateOrphan i # cs) = i # orphans_in cs"
  by (simp_all add: publications_in_def orphans_in_def)

lemma in_candidates [simp]:
  "i \<in> set (publications_in cs) \<longleftrightarrow> CandidatePublication i \<in> set cs"
  "i \<in> set (orphans_in cs) \<longleftrightarrow> CandidateOrphan i \<in> set cs"
  by (induction cs rule: list.induct; simp; rename_tac c cs; case_tac c; simp)+

lemma distinct_candidates: "distinct cs \<Longrightarrow> distinct (publications_in cs) \<and> distinct (orphans_in cs)"
proof (induction cs)
  case (Cons c cs)
  then show ?case by (cases c) simp_all
qed simp

lemma length_candidates: "length (publications_in cs) + length (orphans_in cs) = length cs"
proof (induction cs)
  case (Cons c cs)
  then show ?case by (cases c) simp_all
qed simp

lemma fold_include_candidate: "fold include_candidate cs \<lparr> selected_publications = ps, selected_orphans = os \<rparr> =
    \<lparr> selected_publications = ps @ publications_in cs, selected_orphans = os @ orphans_in cs \<rparr>"
proof (induction cs arbitrary: ps os)
  case (Cons c cs)
  then show ?case by (cases c) (simp_all add: include_candidate_def)
qed simp

lemma distinct_subseq: "subseq xs ys \<Longrightarrow> distinct ys \<Longrightarrow> distinct xs"
  by (induction rule: list_emb.induct) (auto dest: list_emb_set)

text \<open>The candidates taken are a subsequence of the order, no longer than the limit.\<close>

lemma take_candidates_subseq:
  "subseq (take_candidates policy entries orphans sizes limit order remaining counts) order
    \<and> length (take_candidates policy entries orphans sizes limit order remaining counts) \<le> limit"
proof (induction order arbitrary: limit remaining counts)
  case Nil
  then show ?case by (cases limit) simp_all
next
  case (Cons c order)
  then show ?case by (cases limit) (auto split: option.split prod.split)
qed

lemma set_candidate_order: "c \<in> set (candidate_order entries orphans current policy protects_orphan orphan_use) \<longleftrightarrow>
    (case c of CandidatePublication i \<Rightarrow> i < length entries | CandidateOrphan i \<Rightarrow> i < length orphans)
    \<and> reason policy (candidate_modified entries orphans c) (candidate_protected entries orphans protects_orphan c) current \<noteq> None"
  by (cases c) (auto simp: candidate_order_def Let_def split: EvictionOrder.splits)

lemma distinct_candidate_order: "distinct (candidate_order entries orphans current policy protects_orphan orphan_use)"
proof -
  have "distinct (map CandidatePublication [0..<length entries] @ map CandidateOrphan [0..<length orphans])"
    by (auto simp: distinct_map inj_on_def)
  then show ?thesis
    unfolding candidate_order_def Let_def by (simp only: distinct_filter distinct_sort split: EvictionOrder.split) simp
qed

lemma reason_Some: "reason policy written shielded bytes \<noteq> None \<Longrightarrow> \<not> shielded \<and> min_age policy \<le> policy_now policy - written"
  by (auto simp: reason_def Let_def split: if_splits)

text \<open>C29: a collection never selects what it must keep.  Every selected publication and orphan is one of those
  scanned, appears once, is not protected, and is at least the minimal age old; and all together they are at most as many as the deletion
  limit allows.\<close>

theorem selection_safe:
  assumes "selection = select_flat_candidates entries orphans current_bytes policy protects_orphan orphan_use"
  shows "distinct (selected_publications selection) \<and> distinct (selected_orphans selection)
    \<and> (\<forall>i \<in> set (selected_publications selection). i < length entries \<and> \<not> protected (entries ! i)
         \<and> min_age policy \<le> policy_now policy - modified (entries ! i))
    \<and> (\<forall>i \<in> set (selected_orphans selection). i < length orphans \<and> \<not> protects_orphan (orphans ! i)
         \<and> min_age policy \<le> policy_now policy - orphan_modified (orphans ! i))
    \<and> length (selected_publications selection) + length (selected_orphans selection) \<le> remaining_deletions (budget policy) 0"
proof -
  define order where "order = candidate_order entries orphans current_bytes policy protects_orphan orphan_use"
  define T where "T = take_candidates policy entries orphans (payload_sizes entries) (remaining_deletions (budget policy) 0)
      order current_bytes (reference_counts entries)"
  have sel: "selection = \<lparr> selected_publications = publications_in T, selected_orphans = orphans_in T \<rparr>"
    by (simp add: assms select_flat_candidates_def fold_include_candidate T_def order_def)
  have sub: "subseq T order" "length T \<le> remaining_deletions (budget policy) 0"
    using take_candidates_subseq unfolding T_def by blast+
  have "distinct T" using sub(1) distinct_candidate_order unfolding order_def by (rule distinct_subseq)
  then have "distinct (publications_in T)" "distinct (orphans_in T)" using distinct_candidates by blast+
  moreover have "length (publications_in T) + length (orphans_in T) \<le> remaining_deletions (budget policy) 0"
    unfolding length_candidates by (rule sub(2))
  moreover have "set T \<subseteq> set order" using sub(1) by (auto dest: list_emb_set)
  then have "(case c of CandidatePublication i \<Rightarrow> i < length entries | CandidateOrphan i \<Rightarrow> i < length orphans)
      \<and> \<not> candidate_protected entries orphans protects_orphan c
      \<and> min_age policy \<le> policy_now policy - candidate_modified entries orphans c" if "c \<in> set T" for c
    using that set_candidate_order reason_Some unfolding order_def by blast
  note cand = this
  have "i < length entries \<and> \<not> protected (entries ! i) \<and> min_age policy \<le> policy_now policy - modified (entries ! i)"
    if "CandidatePublication i \<in> set T" for i
    using cand [OF that] by (simp add: candidate_protected_def candidate_modified_def)
  moreover have "i < length orphans \<and> \<not> protects_orphan (orphans ! i)
      \<and> min_age policy \<le> policy_now policy - orphan_modified (orphans ! i)" if "CandidateOrphan i \<in> set T" for i
    using cand [OF that] by (simp add: candidate_protected_def candidate_modified_def)
  ultimately show ?thesis by (simp add: sel)
qed

text \<open>Two expired publications, one of them a protected one, and an orphan; at most two deletions.\<close>

definition sample_policy :: "nat option \<Rightarrow> nat option \<Rightarrow> RetentionPolicy" where
  "sample_policy limit target =
    \<lparr> budget = retention_default\<lparr> max_deletions := limit \<rparr>, policy_target = target,
      max_age = None, min_age = 5, policy_now = 100 \<rparr>"

lemma take_candidates_numeral:
  "take_candidates policy entries orphans sizes (numeral k) [] remaining counts = []"
  "take_candidates policy entries orphans sizes (numeral k) (c # order) remaining counts =
    (case reason policy (candidate_modified entries orphans c) False remaining of
       None \<Rightarrow> take_candidates policy entries orphans sizes (numeral k) order remaining counts
     | Some _ \<Rightarrow>
        (case (case c of
            CandidatePublication index \<Rightarrow> remove_publication_bytes (entries ! index) counts sizes
          | CandidateOrphan index \<Rightarrow> (orphan_size (orphans ! index), counts)) of
          (removed, counts') \<Rightarrow> c # take_candidates policy entries orphans sizes (pred_numeral k) order
            (saturating_sub_u64 remaining removed) counts'))"
  by (simp_all only: numeral_eq_Suc take_candidates.simps)

lemmas selection_eval = select_flat_candidates_def candidate_order_def sample_policy_def sample_entry_def sample_orphan_def
  retention_default_def remaining_deletions_def eviction_key_def reason_def Let_def candidate_modified_def
  candidate_protected_def candidate_name_def include_candidate_def take_candidates_numeral less_CollectionReason_def
  remove_publication_bytes_def reference_counts_def payload_sizes_def record_entry_payload_sizes_def or_insert_def
  entry_payload_names_def count_name_def release_name_def saturating_sub_u64_def saturating_add_u64_def u64_max_def

theorem selection_safe_witness:
  "let selection = select_flat_candidates [sample_entry ''a'' ''n'' [] 0, (sample_entry ''b'' ''m'' [] 1)\<lparr> protected := True \<rparr>]
      [sample_orphan ''o'' 2] 227 (sample_policy (Some 2) (Some 0)) (\<lambda>_. False) orphan_modified
   in selected_publications selection = [0] \<and> selected_orphans selection = [0]
     \<and> length (selected_publications selection) + length (selected_orphans selection) \<le> 2"
proof -
  let ?es = "[sample_entry ''a'' ''n'' [] 0, (sample_entry ''b'' ''m'' [] 1)\<lparr> protected := True \<rparr>]"
  let ?sel = "select_flat_candidates ?es [sample_orphan ''o'' 2] 227 (sample_policy (Some 2) (Some 0)) (\<lambda>_. False) orphan_modified"
  have "selected_publications ?sel = [0]" "selected_orphans ?sel = [0]" 
    by (simp_all add: selection_eval)
  moreover have "length (selected_publications ?sel) + length (selected_orphans ?sel)
      \<le> remaining_deletions (budget (sample_policy (Some 2) (Some 0))) 0"
    using selection_safe [OF refl, of ?es "[sample_orphan ''o'' 2]" 227 "sample_policy (Some 2) (Some 0)" "\<lambda>_. False" orphan_modified]
    by blast
  ultimately show ?thesis unfolding Let_def by (simp add: remaining_deletions_def sample_policy_def)
qed

subsection \<open>Progress\<close>

definition remaining_size :: "Entry list \<Rightarrow> Orphan list \<Rightarrow> (string \<Rightarrow> nat) \<Rightarrow> nat set \<Rightarrow> nat set \<Rightarrow> nat" where
  "remaining_size entries orphans sz S Q = live_bytes entries sz S + (\<Sum>j \<in> Q. orphan_size (orphans ! j))"

lemma remaining_size_mono:
  "finite S \<Longrightarrow> finite Q \<Longrightarrow> T \<subseteq> S \<Longrightarrow> P \<subseteq> Q \<Longrightarrow> remaining_size entries orphans sz T P \<le> remaining_size entries orphans sz S Q"
  unfolding remaining_size_def by (intro add_mono live_bytes_mono sum_mono2) auto

lemma reason_None_target:
  assumes "reason policy written False bytes = None" "min_age policy \<le> policy_now policy - written"
    and "policy_target policy = Some target"
  shows "bytes \<le> target"
  using assms by (auto simp: reason_def Let_def split: if_splits option.splits)

text \<open>Taking one candidate, publication or orphan, keeps the running total and the use counts exact.\<close>

lemma candidates_in_Cons:
  "set (publications_in (c # cs)) = set (publications_in [c]) \<union> set (publications_in cs)"
  "set (orphans_in (c # cs)) = set (orphans_in [c]) \<union> set (orphans_in cs)"
  by (auto simp del: candidates_in_simps)

definition candidate_removal ::
    "Entry list \<Rightarrow> Orphan list \<Rightarrow> FlatCandidate \<Rightarrow> (string \<times> nat) list \<Rightarrow> nat \<times> (string \<times> nat) list" where
  "candidate_removal entries orphans c counts = (case c of
      CandidatePublication index \<Rightarrow> remove_publication_bytes (entries ! index) counts (payload_sizes entries)
    | CandidateOrphan index \<Rightarrow> (orphan_size (orphans ! index), counts))"

lemma candidate_removal_exact:
  assumes sz: "consistent_sizes entries sz" and counts: "counts_for entries S counts"
    and S: "S \<subseteq> {..<length entries}" and Q: "finite Q" and bound: "remaining_size entries orphans sz S Q < 2 ^ 64"
    and c: "set (publications_in [c]) \<subseteq> S" "set (orphans_in [c]) \<subseteq> Q"
  shows "remaining_size entries orphans sz S Q - fst (candidate_removal entries orphans c counts) =
      remaining_size entries orphans sz (S - set (publications_in [c])) (Q - set (orphans_in [c]))"
    and "counts_for entries (S - set (publications_in [c])) (snd (candidate_removal entries orphans c counts))"
proof -
  have live: "live_bytes entries sz S < 2 ^ 64" using bound by (simp add: remaining_size_def)
  show "remaining_size entries orphans sz S Q - fst (candidate_removal entries orphans c counts) =
      remaining_size entries orphans sz (S - set (publications_in [c])) (Q - set (orphans_in [c]))"
  proof (cases c)
    case (CandidatePublication i)
    then have "i \<in> S" using c(1) by simp
    from remove_publication_exact(1) [OF counts S this sz live] show ?thesis
      using CandidatePublication by (simp add: candidate_removal_def remaining_size_def)
  next
    case (CandidateOrphan i)
    then have "(\<Sum>j \<in> Q. orphan_size (orphans ! j)) = orphan_size (orphans ! i) + (\<Sum>j \<in> Q - {i}. orphan_size (orphans ! j))"
      using Q c(2) by (intro sum.remove) simp_all
    then show ?thesis using CandidateOrphan by (simp add: candidate_removal_def remaining_size_def)
  qed
  show "counts_for entries (S - set (publications_in [c])) (snd (candidate_removal entries orphans c counts))"
  proof (cases c)
    case (CandidatePublication i)
    then have "i \<in> S" using c(1) by simp
    from remove_publication_exact(2) [OF counts S this sz live] show ?thesis
      using CandidatePublication by (simp add: candidate_removal_def)
  next
    case (CandidateOrphan i)
    then show ?thesis using counts by (simp add: candidate_removal_def)
  qed
qed

definition take_run ::
    "RetentionPolicy \<Rightarrow> Entry list \<Rightarrow> Orphan list \<Rightarrow> nat \<Rightarrow> FlatCandidate list \<Rightarrow> nat \<Rightarrow> (string \<times> nat) list \<Rightarrow> FlatCandidate list" where
  "take_run policy entries orphans limit order = take_candidates policy entries orphans (payload_sizes entries) limit order"

lemma take_run_Cons:
  "take_run policy entries orphans (Suc limit) (c # order) remaining counts =
    (case reason policy (candidate_modified entries orphans c) False remaining of
       None \<Rightarrow> take_run policy entries orphans (Suc limit) order remaining counts
     | Some _ \<Rightarrow> c # take_run policy entries orphans limit order
         (remaining - fst (candidate_removal entries orphans c counts)) (snd (candidate_removal entries orphans c counts)))"
  by (simp add: take_run_def candidate_removal_def saturating_sub_u64_def case_prod_beta split: option.split)

lemma take_run_0 [simp]: "take_run policy entries orphans 0 order remaining counts = []"
  by (simp add: take_run_def)

definition reaches :: "Entry list \<Rightarrow> Orphan list \<Rightarrow> (string \<Rightarrow> nat) \<Rightarrow> nat \<Rightarrow> nat set \<Rightarrow> nat set \<Rightarrow> FlatCandidate list \<Rightarrow> FlatCandidate list \<Rightarrow> bool" where
  "reaches entries orphans sz target S Q order T = (set order \<subseteq> set T
    \<or> remaining_size entries orphans sz (S - set (publications_in T)) (Q - set (orphans_in T)) \<le> target)"

lemma reaches_Cons:
  assumes "reaches entries orphans sz target (S - set (publications_in [c])) (Q - set (orphans_in [c])) order T"
  shows "reaches entries orphans sz target S Q (c # order) (c # T)"
  using assms unfolding reaches_def candidates_in_Cons [of c T] Diff_Diff_Int [symmetric]
  by (auto simp: Diff_eq Compl_Un Int_assoc simp del: candidates_in_simps)

lemma take_candidates_target:
  assumes sz: "consistent_sizes entries sz" and target: "policy_target policy = Some target"
    and "counts_for entries S counts" "S \<subseteq> {..<length entries}" "finite Q" "remaining_size entries orphans sz S Q < 2 ^ 64"
    and "distinct order" "set (publications_in order) \<subseteq> S" "set (orphans_in order) \<subseteq> Q"
    and "\<forall>c \<in> set order. min_age policy \<le> policy_now policy - candidate_modified entries orphans c"
    and "length (take_run policy entries orphans limit order (remaining_size entries orphans sz S Q) counts) < limit"
  shows "reaches entries orphans sz target S Q order
    (take_run policy entries orphans limit order (remaining_size entries orphans sz S Q) counts)"
  using assms(3-)
proof (induction order arbitrary: limit S Q counts)
  case Nil
  then show ?case by (simp add: reaches_def)
next
  case (Cons c order)
  obtain k where limit: "limit = Suc k" using Cons.prems(9) by (cases limit) simp_all
  have finS: "finite S" using Cons.prems(2) by (rule finite_subset) simp
  have less: "remaining_size entries orphans sz (S - A) (Q - B) \<le> remaining_size entries orphans sz S Q" for A B
    using finS Cons.prems(3) by (intro remaining_size_mono) auto
  show ?case
  proof (cases "reason policy (candidate_modified entries orphans c) False (remaining_size entries orphans sz S Q)")
    case None
    have "min_age policy \<le> policy_now policy - candidate_modified entries orphans c" using Cons.prems(8) by simp
    with None have "remaining_size entries orphans sz S Q \<le> target" using target by (rule reason_None_target)
    then show ?thesis unfolding reaches_def by (intro disjI2 order_trans [OF less])
  next
    case (Some r)
    let ?S = "S - set (publications_in [c])" and ?Q = "Q - set (orphans_in [c])"
    have c: "set (publications_in [c]) \<subseteq> S" "set (orphans_in [c]) \<subseteq> Q"
      using Cons.prems(6,7) unfolding candidates_in_Cons [of c order] Un_subset_iff by simp_all
    have new: "set (publications_in [c]) \<inter> set (publications_in order) = {}" "set (orphans_in [c]) \<inter> set (orphans_in order) = {}"
      using Cons.prems(5) by (cases c; simp)+
    note exact = candidate_removal_exact [OF sz Cons.prems(1-4) c]
    let ?T = "take_run policy entries orphans k order (remaining_size entries orphans sz ?S ?Q)
      (snd (candidate_removal entries orphans c counts))"
    have step: "take_run policy entries orphans limit (c # order) (remaining_size entries orphans sz S Q) counts = c # ?T"
      using Some by (simp add: limit take_run_Cons exact(1))
    have "reaches entries orphans sz target ?S ?Q order ?T"
    proof (rule Cons.IH [OF exact(2)])
      show "?S \<subseteq> {..<length entries}" using Cons.prems(2) by (rule Diff_subset [THEN subset_trans])
      show "finite ?Q" using Cons.prems(3) by (rule finite_Diff)
      show "remaining_size entries orphans sz ?S ?Q < 2 ^ 64" using less Cons.prems(4) by (rule le_less_trans)
      show "distinct order" "\<forall>c \<in> set order. min_age policy \<le> policy_now policy - candidate_modified entries orphans c"
        using Cons.prems(5,8) by simp_all
      show "set (publications_in order) \<subseteq> ?S" "set (orphans_in order) \<subseteq> ?Q"
        using Cons.prems(6,7) new unfolding candidates_in_Cons [of c order] by blast+
      show "length ?T < k" using Cons.prems(9) unfolding step by (simp add: limit)
    qed
    then show ?thesis unfolding step by (rule reaches_Cons)
  qed
qed

lemma candidate_order_eligible:
  assumes "policy_target policy = Some target" "target < current"
    and "i < length entries" "\<not> protected (entries ! i)" "min_age policy \<le> policy_now policy - modified (entries ! i)"
  shows "CandidatePublication i \<in> set (candidate_order entries orphans current policy protects_orphan orphan_use)"
  using assms by (simp add: set_candidate_order candidate_modified_def candidate_protected_def reason_def Let_def)

lemma candidate_order_eligible_orphan:
  assumes "policy_target policy = Some target" "target < current"
    and "i < length orphans" "\<not> protects_orphan (orphans ! i)"
    and "min_age policy \<le> policy_now policy - orphan_modified (orphans ! i)"
  shows "CandidateOrphan i \<in> set (candidate_order entries orphans current policy protects_orphan orphan_use)"
  using assms by (simp add: set_candidate_order candidate_modified_def candidate_protected_def reason_def Let_def)

lemma taken_from_order:
  fixes policy entries orphans current protects_orphan orphan_use
  defines "order \<equiv> candidate_order entries orphans current policy protects_orphan orphan_use"
  defines "T \<equiv> take_run policy entries orphans (remaining_deletions (budget policy) 0) order current (reference_counts entries)"
  shows "select_flat_candidates entries orphans current policy protects_orphan orphan_use =
      \<lparr> selected_publications = publications_in T, selected_orphans = orphans_in T \<rparr>"
    and "distinct T" and "set T \<subseteq> set order" and "distinct order"
    and "set (publications_in order) \<subseteq> {..<length entries}" and "set (orphans_in order) \<subseteq> {..<length orphans}"
    and "\<forall>c \<in> set order. min_age policy \<le> policy_now policy - candidate_modified entries orphans c"
proof -
  show "select_flat_candidates entries orphans current policy protects_orphan orphan_use =
      \<lparr> selected_publications = publications_in T, selected_orphans = orphans_in T \<rparr>"
    by (simp add: select_flat_candidates_def fold_include_candidate T_def order_def take_run_def)
  have sub: "subseq T order" unfolding T_def take_run_def using take_candidates_subseq by blast
  show dist: "distinct order" unfolding order_def by (rule distinct_candidate_order)
  show "distinct T" using sub dist by (rule distinct_subseq)
  show "set T \<subseteq> set order" using sub by (auto dest: list_emb_set)
  show "set (publications_in order) \<subseteq> {..<length entries}" "set (orphans_in order) \<subseteq> {..<length orphans}"
    unfolding order_def by (auto simp: set_candidate_order)
  show "\<forall>c \<in> set order. min_age policy \<le> policy_now policy - candidate_modified entries orphans c"
    unfolding order_def using set_candidate_order reason_Some by blast
qed

lemma current_size:
  assumes "consistent_sizes entries sz"
    and "live_bytes entries sz {..<length entries} + sum_list (map orphan_size orphans) < 2 ^ 64"
  shows "total_bytes entries + orphan_bytes orphans = remaining_size entries orphans sz {..<length entries} {..<length orphans}"
    and "remaining_size entries orphans sz {..<length entries} {..<length orphans} < 2 ^ 64"
proof -
  have "sum_list (map orphan_size orphans) = (\<Sum>j < length orphans. orphan_size (orphans ! j))"
    by (simp add: sum_list_sum_nth atLeast0LessThan)
  then show "total_bytes entries + orphan_bytes orphans = remaining_size entries orphans sz {..<length entries} {..<length orphans}"
      "remaining_size entries orphans sz {..<length entries} {..<length orphans} < 2 ^ 64"
    using assms(2) total_bytes_eq [OF assms(1)] by (simp_all add: remaining_size_def orphan_bytes_def sum_u64_eq)
qed

text \<open>C30: a collection makes progress.  Suppose there is a size target and the selection did not use up the deletion limit.  Then
  the predicted size is at most the target, or the selection has taken every publication that is neither protected nor too young
  and every orphan that is neither protected nor too young.\<close>

theorem selection_reaches_target:
  assumes sz: "consistent_sizes entries sz"
    and bound: "live_bytes entries sz {..<length entries} + sum_list (map orphan_size orphans) < 2 ^ 64"
    and target: "policy_target policy = Some target"
    and current: "current = total_bytes entries + orphan_bytes orphans"
    and sel: "selection = select_flat_candidates entries orphans current policy protects_orphan orphan_use"
    and limit: "length (selected_publications selection) + length (selected_orphans selection) < remaining_deletions (budget policy) 0"
  shows "logical_after_bytes entries (selected_publications selection) orphans (selected_orphans selection) \<le> target
    \<or> {i. i < length entries \<and> \<not> protected (entries ! i) \<and> min_age policy \<le> policy_now policy - modified (entries ! i)}
        \<subseteq> set (selected_publications selection)
      \<and> {i. i < length orphans \<and> \<not> protects_orphan (orphans ! i) \<and> min_age policy \<le> policy_now policy - orphan_modified (orphans ! i)}
        \<subseteq> set (selected_orphans selection)"
proof -
  let ?all = "{..<length entries}" and ?orph = "{..<length orphans}"
  define order where "order = candidate_order entries orphans current policy protects_orphan orphan_use"
  define T where "T = take_run policy entries orphans (remaining_deletions (budget policy) 0) order current (reference_counts entries)"
  note taken = taken_from_order [where policy = policy and entries = entries and orphans = orphans and current = current
      and protects_orphan = protects_orphan and orphan_use = orphan_use, folded order_def, folded T_def]
  note size = current_size [OF sz bound, folded current]
  have "set (publications_in T) \<subseteq> ?all" "set (orphans_in T) \<subseteq> ?orph"
    using taken(3,5,6) by (auto simp: subset_eq)
  then have after: "logical_after_bytes entries (publications_in T) orphans (orphans_in T) =
      remaining_size entries orphans sz (?all - set (publications_in T)) (?orph - set (orphans_in T))"
    using distinct_candidates [OF taken(2)]
    by (simp add: logical_after_exact [OF sz bound] remaining_size_def sum_retained)
  have room: "length T < remaining_deletions (budget policy) 0"
    using limit length_candidates [of T] by (simp add: sel taken(1))
  have reach: "reaches entries orphans sz target ?all ?orph order T"
    unfolding T_def size(1)
  proof (rule take_candidates_target [OF sz target reference_counts_correct subset_refl _ size(2) taken(4-7)])
    show "length (take_run policy entries orphans (remaining_deletions (budget policy) 0) order
        (remaining_size entries orphans sz ?all ?orph) (reference_counts entries)) < remaining_deletions (budget policy) 0"
      using room by (simp add: T_def size(1))
  qed simp
  show ?thesis
  proof (cases "target < current")
    case True
    show ?thesis
      using reach candidate_order_eligible [OF target True] candidate_order_eligible_orphan [OF target True]
      unfolding sel taken(1) reaches_def after [symmetric] order_def by (auto simp: subset_eq)
  next
    case False
    have "remaining_size entries orphans sz (?all - set (publications_in T)) (?orph - set (orphans_in T)) \<le> current"
      unfolding size(1) by (rule remaining_size_mono) auto
    with False show ?thesis unfolding sel taken(1) by (simp add: after)
  qed
qed

theorem selection_reaches_target_witness:
  "let es = [sample_entry ''a'' ''n'' [] 0, sample_entry ''b'' ''m'' [] 1];
       selection = select_flat_candidates es [sample_orphan ''o'' 2] 227 (sample_policy None (Some 120)) (\<lambda>_. False) orphan_modified
   in logical_after_bytes es (selected_publications selection) [sample_orphan ''o'' 2] (selected_orphans selection) \<le> 120"
proof -
  let ?es = "[sample_entry ''a'' ''n'' [] 0, sample_entry ''b'' ''m'' [] 1]" and ?os = "[sample_orphan ''o'' 2]"
  let ?sel = "select_flat_candidates ?es ?os 227 (sample_policy None (Some 120)) (\<lambda>_. False) orphan_modified"
  have sz: "consistent_sizes ?es (\<lambda>_. 100)" by (simp add: consistent_sizes_def sample_entry_def)
  have bytes: "live_bytes ?es (\<lambda>_. 100) {..<length ?es} + sum_list (map orphan_size ?os) < 2 ^ 64"
    by (simp add: live_bytes_def names_of_def sample_entry_def sample_orphan_def entry_payload_names_def lessThan_Suc)
  have current: "227 = total_bytes ?es + orphan_bytes ?os"
    by (simp add: total_bytes_def orphan_bytes_def sum_u64_def wrapping_add_u64_def selection_eval)
  have sel: "selected_publications ?sel = [0]" "selected_orphans ?sel = []"
    by (simp_all add: selection_eval)
  have "1 \<notin> set (selected_publications ?sel)" unfolding sel by simp
  moreover have "1 \<in> {i. i < length ?es \<and> \<not> protected (?es ! i) \<and> min_age (sample_policy None (Some 120))
      \<le> policy_now (sample_policy None (Some 120)) - modified (?es ! i)}"
    by (simp add: sample_entry_def sample_policy_def)
  moreover have "length (selected_publications ?sel) + length (selected_orphans ?sel)
      < remaining_deletions (budget (sample_policy None (Some 120))) 0"
    unfolding sel by (simp add: remaining_deletions_def sample_policy_def retention_default_def u64_max_def)
  moreover have "policy_target (sample_policy None (Some 120)) = Some 120" by (simp add: sample_policy_def)
  ultimately show ?thesis
    using selection_reaches_target [OF sz bytes _ current refl, of "sample_policy None (Some 120)" 120 "\<lambda>_. False" orphan_modified]
    unfolding Let_def by blast
qed

end
