(* ===== verification/Advertisement.thy ===== *)
theory Advertisement
  imports NarInfo_Trust Collection
begin

section \<open>Advertisement leases (\<open>src/storage/advertisement.rs\<close>)\<close>

text \<open>
  Metadata a cache has served is a promise: until its lease expires, the collector keeps the publication and its payload.  The
  lease directory is an association list from store hashes to leases; that the source refuses a collection when another file is in it is
  left out.  Its serialisation (postcard) is
  not part of the sources: \<open>decode_advertisement_lease\<close> takes the two decoders as arguments, everything else works on decoded
  leases.  The outcome of publishing a record, with its reservation of space, is an argument.
\<close>

subsection \<open>Leases\<close>

datatype AdvertisementError = AdvertisementInvalid | AdvertisementMismatch | AdvertisementIo io_kind

datatype UpstreamNarEncoding = UpstreamRaw | UpstreamCompressed EncodedIdentity

record UpstreamNarSource =
  source_identity :: NarIdentity
  source_encoding :: UpstreamNarEncoding
  source_url :: string

definition MAX_SOURCE_URL_BYTES :: nat where
  "MAX_SOURCE_URL_BYTES = 16 * 1024"

definition LEASE_VERSION :: nat where
  "LEASE_VERSION = 2"

definition upstream_source_new :: "NarRepresentation \<Rightarrow> string \<Rightarrow> AdvertisementError + UpstreamNarSource" where
  "upstream_source_new payload url =
    (if MAX_SOURCE_URL_BYTES < length url then Err AdvertisementInvalid
     else Ok \<lparr> source_identity = repr_identity payload,
       source_encoding = (case payload of
           ReprRaw _ \<Rightarrow> UpstreamRaw
         | ReprCompressed compressed \<Rightarrow> UpstreamCompressed (compressed_encoded compressed)),
       source_url = url \<rparr>)"

definition source_payload :: "UpstreamNarSource \<Rightarrow> NarRepresentation" where
  "source_payload s = (case source_encoding s of
      UpstreamRaw \<Rightarrow> ReprRaw (source_identity s)
    | UpstreamCompressed encoded \<Rightarrow> repr_compressed encoded (source_identity s))"

datatype AdvertisementOutput = OutputRaw | OutputCompressed EncodedIdentity

definition output_from_representation :: "NarRepresentation \<Rightarrow> AdvertisementOutput" where
  "output_from_representation r = (case r of
      ReprRaw _ \<Rightarrow> OutputRaw
    | ReprCompressed compressed \<Rightarrow> OutputCompressed (compressed_encoded compressed))"

definition output_file_name :: "AdvertisementOutput \<Rightarrow> NarIdentity \<Rightarrow> NarFileName" where
  "output_file_name output raw = (case output of
      OutputRaw \<Rightarrow> file_name_raw (content_hash raw)
    | OutputCompressed encoded \<Rightarrow> encoded_file_name encoded)"

datatype AdvertisementRetention = Until nat | RemovalPending

definition expires_at :: "AdvertisementRetention \<Rightarrow> nat" where
  "expires_at retention = (case retention of Until expiry \<Rightarrow> expiry | RemovalPending \<Rightarrow> 0)"

record LeasePolicy =
  policy_version :: nat
  lifetime_seconds :: nat
  policy_min_free_bytes :: nat

record AdvertisementLease =
  lease_version :: nat
  lease_identity :: NarIdentity
  lease_retention :: AdvertisementRetention
  lease_output :: AdvertisementOutput
  lease_source :: "UpstreamNarSource option"

record ExistingAdvertisementLease =
  existing_version :: nat
  existing_identity :: NarIdentity
  existing_retention :: AdvertisementRetention

datatype AdvertisementLeases = LeasesAbsent | LeasesIncomplete | LeasesActive LeasePolicy

type_synonym lease_files = "(StoreHash \<times> AdvertisementLease) list"

definition decode_advertisement_lease ::
    "(bytes \<Rightarrow> AdvertisementLease option) \<Rightarrow> (bytes \<Rightarrow> ExistingAdvertisementLease option) \<Rightarrow> bytes \<Rightarrow> AdvertisementError + AdvertisementLease" where
  "decode_advertisement_lease decode decode_existing bytes = (case decode bytes of
      Some lease \<Rightarrow> Ok lease
    | None \<Rightarrow> (case decode_existing bytes of
        Some existing \<Rightarrow> Ok \<lparr> lease_version = existing_version existing, lease_identity = existing_identity existing,
          lease_retention = existing_retention existing, lease_output = OutputRaw, lease_source = None \<rparr>
      | None \<Rightarrow> Err AdvertisementInvalid))"

text \<open>\<open>AdvertisementLeases::open\<close>: the directory, and the policy read from it.\<close>

definition leases_open :: "io_kind + unit \<Rightarrow> AdvertisementError + LeasePolicy option \<Rightarrow> AdvertisementError + AdvertisementLeases" where
  "leases_open directory policy = (case directory of
      Inl IoNotFound \<Rightarrow> Ok LeasesAbsent
    | Inl k \<Rightarrow> Err (AdvertisementIo k)
    | Inr _ \<Rightarrow> bindR policy (\<lambda>policy. case policy of
          None \<Rightarrow> Ok LeasesIncomplete
        | Some p \<Rightarrow> if policy_version p = 1 then Ok (LeasesActive p) else Err AdvertisementInvalid))"

subsection \<open>Protection\<close>

datatype AdvertisementProtection =
    ProtectionAbsent
  | ProtectionAll
  | ProtectionRecorded "(StoreHash \<times> nat) list" "NarHash list" "NarFileName list" nat

definition durable_protects_nar_name :: "encodings \<Rightarrow> AdvertisementProtection \<Rightarrow> string \<Rightarrow> bool" where
  "durable_protects_nar_name E p name = (case p of
      ProtectionAll \<Rightarrow> True
    | ProtectionAbsent \<Rightarrow> False
    | ProtectionRecorded _ nars outputs _ \<Rightarrow> (case file_name_parse E name of
          Inl _ \<Rightarrow> False
        | Inr n \<Rightarrow> n \<in> set outputs \<or> (case raw_hash n of Some hash \<Rightarrow> hash \<in> set nars | None \<Rightarrow> False)))"

definition durable_protects :: "AdvertisementProtection \<Rightarrow> ProtectedObject \<Rightarrow> bool" where
  "durable_protects p object = (case p of
      ProtectionAbsent \<Rightarrow> False
    | ProtectionAll \<Rightarrow> True
    | ProtectionRecorded publications nars _ now \<Rightarrow> (case object of
          ProtPublication store \<Rightarrow> (case map_of publications store of None \<Rightarrow> True | Some expiry \<Rightarrow> now < expiry)
        | ProtCanonicalNar hash \<Rightarrow> hash \<in> set nars))"

fun lease_inventory :: "nat \<Rightarrow> lease_files \<Rightarrow> AdvertisementError + (StoreHash \<times> nat) list \<times> NarHash list \<times> NarFileName list" where
  "lease_inventory now [] = Ok ([], [], [])"
| "lease_inventory now ((store, lease) # files) =
    (if lease_version lease \<noteq> LEASE_VERSION then Err AdvertisementInvalid
     else bindR (lease_inventory now files) (\<lambda>(publications, nars, outputs).
       let expiry = expires_at (lease_retention lease) in
       if now < expiry
       then Ok ((store, expiry) # publications, content_hash (lease_identity lease) # nars,
         output_file_name (lease_output lease) (lease_identity lease) # outputs)
       else Ok ((store, expiry) # publications, nars, outputs)))"

definition advertisement_protection :: "AdvertisementLeases \<Rightarrow> lease_files \<Rightarrow> nat \<Rightarrow> AdvertisementError + AdvertisementProtection" where
  "advertisement_protection leases files now = (case leases of
      LeasesAbsent \<Rightarrow> Ok ProtectionAbsent
    | LeasesIncomplete \<Rightarrow> Ok ProtectionAll
    | LeasesActive _ \<Rightarrow> bindR (lease_inventory now files) (\<lambda>(publications, nars, outputs).
        Ok (ProtectionRecorded publications nars outputs now)))"

subsection \<open>Recording and renewing a lease\<close>

datatype LeasePurpose = PurposePublication NarIdentity AdvertisementOutput | PurposeAdvertisement StoreHash bytes

datatype AdvertisementEvidence = EvidenceRecorded | EvidenceMissing

definition advertisement_evidence :: "AdvertisementLeases \<Rightarrow> lease_files \<Rightarrow> StoreHash \<Rightarrow> AdvertisementError + AdvertisementEvidence" where
  "advertisement_evidence leases files store = (case leases of
      LeasesActive _ \<Rightarrow> (case map_of files store of
          Some lease \<Rightarrow> if lease_version lease = LEASE_VERSION
            then Ok (case lease_retention lease of Until _ \<Rightarrow> EvidenceRecorded | RemovalPending \<Rightarrow> EvidenceMissing)
            else Err AdvertisementInvalid
        | None \<Rightarrow> Ok EvidenceMissing)
    | _ \<Rightarrow> Err AdvertisementInvalid)"

definition read_through_source :: "AdvertisementLeases \<Rightarrow> lease_files \<Rightarrow> StoreHash \<Rightarrow> AdvertisementError + UpstreamNarSource option" where
  "read_through_source leases files store = (case leases of
      LeasesActive _ \<Rightarrow> (case map_of files store of
          None \<Rightarrow> Ok None
        | Some lease \<Rightarrow>
            if lease_version lease \<noteq> LEASE_VERSION then Err AdvertisementInvalid
            else (case lease_source lease of
                Some s \<Rightarrow> if source_identity s = lease_identity lease then Ok (Some s) else Err AdvertisementInvalid
              | None \<Rightarrow> Ok None))
    | _ \<Rightarrow> Ok None)"

definition pending_metadata_identity_and_output ::
    "encodings \<Rightarrow> ('k, 'g) externals \<Rightarrow> StoreHash \<Rightarrow> bytes \<Rightarrow> AdvertisementError + NarIdentity \<times> AdvertisementOutput" where
  "pending_metadata_identity_and_output E X store metadata = (case parse_external_publication E X store metadata of
      Inl _ \<Rightarrow> Err (AdvertisementIo IoInvalidData)
    | Inr (claims, output) \<Rightarrow> Ok (claims_identity claims, output_from_representation output))"

definition or_else :: "'a option \<Rightarrow> 'a option \<Rightarrow> 'a option" where
  "or_else a b = (case a of Some _ \<Rightarrow> a | None \<Rightarrow> b)"

text \<open>What the lease is to say; \<open>None\<close> when there is nothing to renew.\<close>

definition lease_contents ::
    "encodings \<Rightarrow> ('k, 'g) externals \<Rightarrow> LeasePurpose \<Rightarrow> UpstreamNarSource option \<Rightarrow> AdvertisementLease option
      \<Rightarrow> AdvertisementError + (NarIdentity \<times> AdvertisementOutput \<times> UpstreamNarSource option) option" where
  "lease_contents E X purpose source existing = (case existing of
      Some lease \<Rightarrow>
        if lease_version lease \<noteq> LEASE_VERSION then Err AdvertisementInvalid
        else (case purpose of
            PurposePublication identity output \<Rightarrow> (case lease_retention lease of
                Until _ \<Rightarrow> if identity \<noteq> lease_identity lease then Err AdvertisementMismatch
                  else Ok (Some (identity, output, or_else source (lease_source lease)))
              | RemovalPending \<Rightarrow> Ok (Some (identity, output, source)))
          | PurposeAdvertisement store metadata \<Rightarrow> (case lease_retention lease of
                Until _ \<Rightarrow> Ok (Some (lease_identity lease, lease_output lease, lease_source lease))
              | RemovalPending \<Rightarrow>
                  bindR (pending_metadata_identity_and_output E X store metadata) (\<lambda>(identity, output).
                    Ok (Some (identity, output, lease_source lease)))))
    | None \<Rightarrow> (case purpose of
          PurposePublication identity output \<Rightarrow> Ok (Some (identity, output, source))
        | PurposeAdvertisement _ _ \<Rightarrow> Ok None))"

definition lease_reusable :: "AdvertisementLease \<Rightarrow> nat \<Rightarrow> AdvertisementOutput \<Rightarrow> UpstreamNarSource option \<Rightarrow> bool" where
  "lease_reusable lease required_expiry output source \<longleftrightarrow>
    required_expiry \<le> expires_at (lease_retention lease) \<and> lease_output lease = output \<and> (source = None \<or> lease_source lease = source)"

definition headroom :: "nat \<Rightarrow> nat" where
  "headroom lifetime = min ((lifetime + 9) div 10) 3600"

text \<open>\<open>written\<close> is the outcome of the sync of a reused lease or of the publication of a new one.\<close>

definition update_advertisement_lease ::
    "encodings \<Rightarrow> ('k, 'g) externals \<Rightarrow> AdvertisementLeases \<Rightarrow> lease_files \<Rightarrow> StoreHash \<Rightarrow> LeasePurpose \<Rightarrow> UpstreamNarSource option
      \<Rightarrow> nat \<Rightarrow> AdvertisementError + unit \<Rightarrow> AdvertisementError + lease_files" where
  "update_advertisement_lease E X leases files store purpose source now written = (case leases of
      LeasesAbsent \<Rightarrow> Ok files
    | LeasesIncomplete \<Rightarrow> Err AdvertisementInvalid
    | LeasesActive policy \<Rightarrow>
        bindR (lease_contents E X purpose source (map_of files store)) (\<lambda>contents. case contents of
            None \<Rightarrow> Ok files
          | Some (identity, output, source) \<Rightarrow>
              bindR (ok_or AdvertisementInvalid (checked_add_u64 now (lifetime_seconds policy))) (\<lambda>required_expiry.
              if (case map_of files store of Some lease \<Rightarrow> lease_reusable lease required_expiry output source | None \<Rightarrow> False)
              then bindR written (\<lambda>_. Ok files)
              else bindR (ok_or AdvertisementInvalid (checked_add_u64 required_expiry (headroom (lifetime_seconds policy)))) (\<lambda>expiry.
                bindR written (\<lambda>_. Ok (AList.update store
                  \<lparr> lease_version = LEASE_VERSION, lease_identity = identity, lease_retention = Until expiry,
                    lease_output = output, lease_source = source \<rparr> files))))))"

definition record_publication_lease_for_output ::
    "encodings \<Rightarrow> ('k, 'g) externals \<Rightarrow> AdvertisementLeases \<Rightarrow> lease_files \<Rightarrow> StoreHash \<Rightarrow> NarIdentity \<Rightarrow> NarRepresentation
      \<Rightarrow> nat \<Rightarrow> AdvertisementError + unit \<Rightarrow> AdvertisementError + lease_files" where
  "record_publication_lease_for_output E X leases files store identity output now written =
    update_advertisement_lease E X leases files store (PurposePublication identity (output_from_representation output)) None now written"

definition record_read_through_lease ::
    "encodings \<Rightarrow> ('k, 'g) externals \<Rightarrow> AdvertisementLeases \<Rightarrow> lease_files \<Rightarrow> StoreHash \<Rightarrow> NarIdentity \<Rightarrow> NarRepresentation
      \<Rightarrow> UpstreamNarSource \<Rightarrow> nat \<Rightarrow> AdvertisementError + unit \<Rightarrow> AdvertisementError + lease_files" where
  "record_read_through_lease E X leases files store identity output source now written =
    update_advertisement_lease E X leases files store (PurposePublication identity (output_from_representation output)) (Some source) now written"

definition renew_advertisement_lease ::
    "encodings \<Rightarrow> ('k, 'g) externals \<Rightarrow> AdvertisementLeases \<Rightarrow> lease_files \<Rightarrow> ActivityLease \<Rightarrow> bytes
      \<Rightarrow> nat \<Rightarrow> AdvertisementError + unit \<Rightarrow> AdvertisementError + lease_files" where
  "renew_advertisement_lease E X leases files activity metadata now written = (case advertisement_renewal activity of
      Inl _ \<Rightarrow> Err (AdvertisementIo IoOther)
    | Inr store \<Rightarrow> update_advertisement_lease E X leases files store (PurposeAdvertisement store metadata) None now written)"

subsection \<open>A recorded lease protects\<close>

lemma lease_inventory_lookup:
  "lease_inventory now files = Ok (publications, nars, outputs) \<Longrightarrow> map_of files store = Some lease \<Longrightarrow>
   map_of publications store = Some (expires_at (lease_retention lease)) \<and>
   (now < expires_at (lease_retention lease) \<longrightarrow>
     content_hash (lease_identity lease) \<in> set nars \<and> output_file_name (lease_output lease) (lease_identity lease) \<in> set outputs)"
proof (induction files arbitrary: publications nars outputs)
  case (Cons f files)
  obtain s l where f: "f = (s, l)" by fastforce
  obtain ps ns os where rest: "lease_inventory now files = Ok (ps, ns, os)"
    using Cons.prems(1) by (auto simp: f bindR_def split: if_splits sum.splits)
  show ?case
  proof (cases "s = store")
    case True
    then show ?thesis using Cons.prems rest by (auto simp: f bindR_def Let_def split: if_splits)
  next
    case False
    then show ?thesis using Cons.prems rest Cons.IH [OF rest] by (auto simp: f bindR_def Let_def split: if_splits)
  qed
qed simp

text \<open>A lease that holds at a time.\<close>

definition lease_holds :: "lease_files \<Rightarrow> StoreHash \<Rightarrow> NarIdentity \<Rightarrow> AdvertisementOutput \<Rightarrow> nat \<Rightarrow> bool" where
  "lease_holds files store identity output time \<longleftrightarrow> (\<exists>lease. map_of files store = Some lease \<and>
    lease_identity lease = identity \<and> lease_output lease = output \<and> time < expires_at (lease_retention lease))"

lemma lease_holds_protects:
  assumes "lease_holds files store identity output time" "advertisement_protection (LeasesActive policy) files time = Ok p"
  shows "durable_protects p (ProtPublication store)" "durable_protects p (ProtCanonicalNar (content_hash identity))"
    and "file_name_parse E name = Ok n \<Longrightarrow> n = output_file_name output identity \<or> n = file_name_raw (content_hash identity) \<Longrightarrow>
      durable_protects_nar_name E p name"
proof -
  obtain lease where lease: "map_of files store = Some lease" "lease_identity lease = identity" "lease_output lease = output"
    "time < expires_at (lease_retention lease)"
    using assms(1) by (auto simp: lease_holds_def)
  obtain publications nars outputs where inv: "lease_inventory time files = Ok (publications, nars, outputs)"
    "p = ProtectionRecorded publications nars outputs time"
    using assms(2) by (auto simp: advertisement_protection_def bindR_def split: sum.splits)
  note found = lease_inventory_lookup [OF inv(1) lease(1)]
  show "durable_protects p (ProtPublication store)" "durable_protects p (ProtCanonicalNar (content_hash identity))"
    using found lease by (simp_all add: inv(2) durable_protects_def)
  show "durable_protects_nar_name E p name"
    if "file_name_parse E name = Ok n" "n = output_file_name output identity \<or> n = file_name_raw (content_hash identity)"
    using found lease that by (auto simp: inv(2) durable_protects_nar_name_def file_name_raw_def raw_hash_def as_nar_hash_def from_nar_hash_def)
qed

lemma lease_recorded:
  assumes update: "update_advertisement_lease E X (LeasesActive policy) files store (PurposePublication identity output) source now written = Ok files'"
    and lifetime: "0 < lifetime_seconds policy" and "time < now + lifetime_seconds policy"
  shows "lease_holds files' store identity output time"
proof -
  obtain source' where contents: "lease_contents E X (PurposePublication identity output) source (map_of files store) =
      Ok (Some (identity, output, source'))"
    using update
    by (auto simp: update_advertisement_lease_def lease_contents_def bindR_def
        split: option.splits sum.splits if_splits AdvertisementRetention.splits)
  show ?thesis
  proof (cases "case map_of files store of
      Some lease \<Rightarrow> lease_reusable lease (now + lifetime_seconds policy) output source' | None \<Rightarrow> False")
    case True
    then obtain lease where lease: "map_of files store = Some lease" "lease_reusable lease (now + lifetime_seconds policy) output source'"
      by (auto split: option.splits)
    then have "lease_retention lease \<noteq> RemovalPending" using lifetime by (auto simp: lease_reusable_def expires_at_def)
    then have "lease_identity lease = identity"
      using contents lease(1) by (auto simp: lease_contents_def split: if_splits AdvertisementRetention.splits)
    moreover have "files' = files"
      using update contents True by (auto simp: update_advertisement_lease_def bindR_def ok_or_def checked_add_u64_def split: sum.splits if_splits)
    ultimately show ?thesis using lease assms(3) by (auto simp: lease_holds_def lease_reusable_def)
  next
    case False
    then show ?thesis
      using update contents assms(3)
      by (auto simp: update_advertisement_lease_def bindR_def ok_or_def checked_add_u64_def lease_holds_def update_conv' expires_at_def
          split: sum.splits if_splits option.splits)
  qed
qed

end
