(* ===== verification/Effects.thy ===== *)
theory Effects
  imports Narjar_Prelude
begin

section \<open>Effects that may fail\<close>

text \<open>
  A run of file-system code against the state of a file system, \<open>disk\<close>.  Every effect draws its outcome from a list: it
  succeeds, fails without having taken place, or fails although it took place; after the end of the list everything succeeds.  \<open>passed\<close> is a history
  variable, the states after every effect, so that an invariant can speak about the moments between two calls.
  \<open>hoare C P m Q\<close> says that a run of \<open>m\<close> from a state with \<open>P\<close> keeps \<open>C\<close> in every state it passes and ends with \<open>Q\<close>
  of its result.
\<close>

datatype 'k Outcome = Succeeds | FailsBefore 'k | FailsAfter 'k

fun next_outcome :: "'k Outcome list \<Rightarrow> 'k Outcome \<times> 'k Outcome list" where
  "next_outcome [] = (Succeeds, [])"
| "next_outcome (outcome # os) = (outcome, os)"

record ('s, 'k) world =
  disk :: 's
  fates :: "'k Outcome list"
  passed :: "'s list"

type_synonym ('s, 'k, 'e, 'a) eff = "(('s, 'k) world, 'e, 'a) run"

definition change :: "('s \<Rightarrow> 's) \<Rightarrow> ('s, 'k) world \<Rightarrow> ('s, 'k) world" where
  "change f w = w\<lparr>disk := f (disk w), passed := passed w @ [f (disk w)]\<rparr>"

definition act :: "('k \<Rightarrow> 'e) \<Rightarrow> ('s \<Rightarrow> 's) \<Rightarrow> ('s, 'k, 'e, unit) eff" where
  "act err f = (\<lambda>w. case next_outcome (fates w) of (outcome, os) \<Rightarrow>
    (case outcome of
       Succeeds \<Rightarrow> (Ok (), change f (w\<lparr>fates := os\<rparr>))
     | FailsBefore k \<Rightarrow> (Err (err k), w\<lparr>fates := os\<rparr>)
     | FailsAfter k \<Rightarrow> (Err (err k), change f (w\<lparr>fates := os\<rparr>))))"

text \<open>A change of state in memory does not fail.\<close>

definition record_that :: "('s \<Rightarrow> 's) \<Rightarrow> ('s, 'k, 'e, unit) eff" where
  "record_that f = (\<lambda>w. (Ok (), change f w))"

definition look :: "('s \<Rightarrow> ('s, 'k, 'e, 'a) eff) \<Rightarrow> ('s, 'k, 'e, 'a) eff" where
  "look f = (\<lambda>w. f (disk w) w)"

text \<open>\<open>match (result, cleanup)\<close>: the first error counts, and the clean-up runs in any case.\<close>

definition with_cleanup :: "('s, 'k, 'e, 'a) eff \<Rightarrow> ('s, 'k, 'e, unit) eff \<Rightarrow> ('s, 'k, 'e, 'a) eff" where
  "with_cleanup m c = (\<lambda>w. case m w of (r, w) \<Rightarrow> (case c w of (r', w) \<Rightarrow>
    (case r of Inl e \<Rightarrow> (Err e, w) | Inr x \<Rightarrow> (case r' of Inl e \<Rightarrow> (Err e, w) | Inr _ \<Rightarrow> (Ok x, w)))))"

text \<open>The effects of \<open>m\<close>, with another result in place of some errors.\<close>

definition recover :: "('s, 'k, 'e, 'a) eff \<Rightarrow> ('e \<Rightarrow> 'a option) \<Rightarrow> ('s, 'k, 'e, 'a) eff" where
  "recover m h = (\<lambda>w. case m w of (r, w) \<Rightarrow>
    (case r of Inl e \<Rightarrow> (case h e of None \<Rightarrow> (Err e, w) | Some x \<Rightarrow> (Ok x, w)) | Inr x \<Rightarrow> (Ok x, w)))"

definition always :: "('s \<Rightarrow> bool) \<Rightarrow> ('s, 'k) world \<Rightarrow> bool" where
  "always C w = (C (disk w) \<and> list_all C (passed w))"

definition hoare :: "('s \<Rightarrow> bool) \<Rightarrow> ('s \<Rightarrow> bool) \<Rightarrow> ('s, 'k, 'e, 'a) eff \<Rightarrow> ('e + 'a \<Rightarrow> 's \<Rightarrow> bool) \<Rightarrow> bool" where
  "hoare C P m Q = (\<forall>w r w'. always C w \<and> P (disk w) \<and> m w = (r, w') \<longrightarrow> always C w' \<and> Q r (disk w'))"

abbreviation on_ok :: "('a \<Rightarrow> 's \<Rightarrow> bool) \<Rightarrow> 'e + 'a \<Rightarrow> 's \<Rightarrow> bool" where
  "on_ok Q \<equiv> \<lambda>r s. \<forall>x. r = Ok x \<longrightarrow> Q x s"

lemma hoareI: "(\<And>w r w'. always C w \<Longrightarrow> P (disk w) \<Longrightarrow> m w = (r, w') \<Longrightarrow> always C w' \<and> Q r (disk w')) \<Longrightarrow> hoare C P m Q"
  unfolding hoare_def by blast

lemma hoareD: "hoare C P m Q \<Longrightarrow> m w = (r, w') \<Longrightarrow> always C w \<Longrightarrow> P (disk w) \<Longrightarrow> always C w' \<and> Q r (disk w')"
  unfolding hoare_def by blast

lemma hoare_conseq:
  "hoare C P' m Q' \<Longrightarrow> (\<And>s. C s \<Longrightarrow> P s \<Longrightarrow> P' s) \<Longrightarrow> (\<And>r s. C s \<Longrightarrow> Q' r s \<Longrightarrow> Q r s) \<Longrightarrow> hoare C P m Q"
  unfolding hoare_def always_def by blast

lemma hoare_ret: "(\<And>s. C s \<Longrightarrow> P s \<Longrightarrow> Q (Ok x) s) \<Longrightarrow> hoare C P (retW x) Q"
  by (auto simp: hoare_def retW_def always_def)

lemma hoare_fail: "(\<And>s. C s \<Longrightarrow> P s \<Longrightarrow> Q (Err e) s) \<Longrightarrow> hoare C P (failW e) Q"
  by (auto simp: hoare_def failW_def always_def)

lemma hoare_bind:
  assumes m: "hoare C P m R" and e: "\<And>e s. C s \<Longrightarrow> R (Err e) s \<Longrightarrow> Q (Err e) s" and f: "\<And>x. hoare C (R (Ok x)) (f x) Q"
  shows "hoare C P (bindW m f) Q"
proof (rule hoareI)
  fix w r w' assume w: "always C w" "P (disk w)" and run: "bindW m f w = (r, w')"
  obtain r1 w1 where m1: "m w = (r1, w1)" by fastforce
  note first = hoareD [OF m m1 w]
  show "always C w' \<and> Q r (disk w')"
  proof (cases r1)
    case (Inl x)
    then show ?thesis using run m1 first e by (auto simp: bindW_def always_def)
  next
    case (Inr x)
    then have "f x w1 = (r, w')" using run m1 by (simp add: bindW_def)
    from hoareD [OF f this] first Inr show ?thesis by blast
  qed
qed

lemma hoare_then:
  "hoare C P m R \<Longrightarrow> (\<And>e s. C s \<Longrightarrow> R (Err e) s \<Longrightarrow> Q (Err e) s) \<Longrightarrow> hoare C (R (Ok ())) n Q \<Longrightarrow> hoare C P (thenW m n) Q"
  unfolding thenW_def by (rule hoare_bind) auto

lemma thenW_assoc: "thenW (thenW m n) k = thenW m (thenW n k)"
  by (rule ext) (auto simp: thenW_def bindW_def split: prod.splits sum.splits)

text \<open>A step that leaves the precondition alone, in front of another one.\<close>

lemma hoare_keep:
  "hoare C P m (\<lambda>_. P) \<Longrightarrow> hoare C P n Q \<Longrightarrow> (\<And>e s. C s \<Longrightarrow> P s \<Longrightarrow> Q (Err e) s) \<Longrightarrow> hoare C P (thenW m n) Q"
  by (rule hoare_then [where R = "\<lambda>_. P"])

lemma hoare_keep_bind:
  "hoare C P m (\<lambda>_. P) \<Longrightarrow> (\<And>x. hoare C P (f x) Q) \<Longrightarrow> (\<And>e s. C s \<Longrightarrow> P s \<Longrightarrow> Q (Err e) s) \<Longrightarrow> hoare C P (bindW m f) Q"
  by (rule hoare_bind [where R = "\<lambda>_. P"])

lemma hoare_look: "(\<And>t. hoare C (\<lambda>s. P s \<and> s = t) (f t) Q) \<Longrightarrow> hoare C P (look f) Q"
  unfolding hoare_def look_def by blast

lemma hoare_if:
  "(b \<Longrightarrow> hoare C P m Q) \<Longrightarrow> (\<not> b \<Longrightarrow> hoare C P n Q) \<Longrightarrow> hoare C P (if b then m else n) Q"
  by simp

lemma hoare_option:
  "(x = None \<Longrightarrow> hoare C P m Q) \<Longrightarrow> (\<And>y. x = Some y \<Longrightarrow> hoare C P (f y) Q) \<Longrightarrow>
   hoare C P (case x of None \<Rightarrow> m | Some y \<Rightarrow> f y) Q"
  by (cases x) simp_all

lemma hoare_act:
  assumes "\<And>s. C s \<Longrightarrow> P s \<Longrightarrow> C (f s)" "\<And>s. C s \<Longrightarrow> P s \<Longrightarrow> Q (Ok ()) (f s)"
    and "\<And>s e. C s \<Longrightarrow> P s \<Longrightarrow> Q (Err e) s \<and> Q (Err e) (f s)"
  shows "hoare C P (act err f) Q"
  using assms by (auto simp: hoare_def act_def always_def change_def split: prod.splits Outcome.splits)

lemma hoare_record_that:
  "(\<And>s. C s \<Longrightarrow> P s \<Longrightarrow> C (f s) \<and> Q (Ok ()) (f s)) \<Longrightarrow> hoare C P (record_that f) Q"
  by (auto simp: hoare_def record_that_def always_def change_def)

lemma hoare_cleanup:
  assumes m: "hoare C P m R" and c: "\<And>r. hoare C (R r) c (\<lambda>_. S r)"
    and q: "\<And>r s. C s \<Longrightarrow> S r s \<Longrightarrow> Q r s" "\<And>x e s. C s \<Longrightarrow> S (Ok x) s \<Longrightarrow> Q (Err e) s"
  shows "hoare C P (with_cleanup m c) Q"
proof (rule hoareI)
  fix w r w' assume w: "always C w" "P (disk w)" and run: "with_cleanup m c w = (r, w')"
  obtain r1 w1 where m1: "m w = (r1, w1)" by fastforce
  obtain r2 w2 where c1: "c w1 = (r2, w2)" by fastforce
  have s: "always C w2 \<and> S r1 (disk w2)"
    using hoareD [OF m m1 w] hoareD [OF c c1] by blast
  have "w' = w2" "r = (case r1 of Inl e \<Rightarrow> Err e | Inr x \<Rightarrow> (case r2 of Inl e \<Rightarrow> Err e | Inr _ \<Rightarrow> Ok x))"
    using run m1 c1 by (auto simp: with_cleanup_def split: sum.splits)
  with s q show "always C w' \<and> Q r (disk w')" by (auto simp: always_def split: sum.splits)
qed

lemma hoare_recover:
  assumes "hoare C P m R" and "\<And>r s. C s \<Longrightarrow> R r s \<Longrightarrow> Q r s" "\<And>e x s. C s \<Longrightarrow> h e = Some x \<Longrightarrow> R (Err e) s \<Longrightarrow> Q (Ok x) s"
  shows "hoare C P (recover m h) Q"
proof (rule hoareI)
  fix w r w' assume w: "always C w" "P (disk w)" and run: "recover m h w = (r, w')"
  obtain r1 w1 where m1: "m w = (r1, w1)" by fastforce
  from hoareD [OF assms(1) m1 w] run m1 assms(2,3) show "always C w' \<and> Q r (disk w')"
    by (auto simp: recover_def always_def split: sum.splits option.splits)
qed

end
