(* ===== verification/Io_Stream.thy ===== *)
theory Io_Stream
  imports NarInfo_Trust Effects
begin

section \<open>Byte streams that arrive in pieces\<close>

text \<open>
  A connection or a pipe is the list of what its reads will yield: chunks of bytes and faults; its end is the end of the
  list.  A read returns at most as many bytes as asked for, and the rest of a chunk stays for the next read.
\<close>

datatype read_fault = ReadInterrupted | ReadFault io_kind

datatype Arrival = Chunk bytes | Fault read_fault

type_synonym connection = "Arrival list"

fun stream_read :: "connection \<Rightarrow> nat \<Rightarrow> (read_fault + bytes) \<times> connection" where
  "stream_read [] n = (Ok [], [])"
| "stream_read (Fault k # s) n = (Err k, s)"
| "stream_read (Chunk bs # s) n = (if bs = [] then stream_read s n
     else (Ok (take n bs), if length bs \<le> n then s else Chunk (drop n bs) # s))"

fun stream_bytes :: "connection \<Rightarrow> bytes" where
  "stream_bytes [] = []"
| "stream_bytes (Fault k # s) = stream_bytes s"
| "stream_bytes (Chunk bs # s) = bs @ stream_bytes s"

definition fault_free :: "connection \<Rightarrow> bool" where
  "fault_free s = list_all (\<lambda>a. case a of Chunk _ \<Rightarrow> True | Fault _ \<Rightarrow> False) s"

lemma stream_read_length: "stream_read s n = (Ok bs, s') \<Longrightarrow> length bs \<le> n"
  by (induction s n rule: stream_read.induct) (auto split: if_splits)

lemma stream_read_bytes: "stream_read s n = (Ok bs, s') \<Longrightarrow> bs @ stream_bytes s' = stream_bytes s"
  by (induction s n rule: stream_read.induct) (auto split: if_splits)

lemma stream_read_fault: "stream_read s n = (Err k, s') \<Longrightarrow> stream_bytes s' = stream_bytes s"
  by (induction s n rule: stream_read.induct) (auto split: if_splits)

lemma stream_read_end: "stream_read s n = (Ok [], s') \<Longrightarrow> 0 < n \<Longrightarrow> stream_bytes s = []"
  by (induction s n rule: stream_read.induct) (auto split: if_splits)

lemma stream_read_fault_free: "fault_free s \<Longrightarrow> \<exists>bs s'. stream_read s n = (Ok bs, s') \<and> fault_free s'"
  by (induction s n rule: stream_read.induct) (auto simp: fault_free_def)

end
