(* ===== verification/Gc_Apply.thy ===== *)
theory Gc_Apply
  imports Gc_Accounting Advertisement Io_Stream
begin

section \<open>Deleting what was selected (\<open>src/storage/gc.rs\<close>, \<open>src/storage/advertisement.rs\<close>)\<close>

text \<open>
  The effects of a collection on the directories of a flat cache: metadata (the root), payloads and advertisement
  leases.  An unlink is visible at once and durable after the next successful sync of its directory; a crash in between may
  or may not undo it.  Every effect draws its outcome from a list: it succeeds, fails without an effect, or fails
  although it took place.  Checkpoints and calls that touch none of the three directories (the recovery
  marker, opening directories, the record of the removal) only draw an outcome.  \<open>history\<close> is a history
  variable: the directories after every effect.
\<close>

subsection \<open>Directories and effects\<close>

record 'k Dir =
  durable :: "'k set"
  unlinked :: "'k set"

definition visible :: "'k Dir \<Rightarrow> 'k set" where
  "visible d = durable d - unlinked d"

definition dir_unlink :: "'k \<Rightarrow> 'k Dir \<Rightarrow> 'k Dir" where
  "dir_unlink k d = d\<lparr> unlinked := insert k (unlinked d) \<rparr>"

definition dir_sync :: "'k Dir \<Rightarrow> 'k Dir" where
  "dir_sync d = \<lparr> durable = durable d - unlinked d, unlinked = {} \<rparr>"

datatype GcError = GcIo io_kind | GcBusy | GcInvalid | GcPanic

record CacheDirs =
  root_dir :: "string Dir"
  nar_dir :: "string Dir"
  lease_dir :: "StoreHash Dir"

record GcWorld =
  dirs :: CacheDirs
  lease_records :: "StoreHash \<Rightarrow> AdvertisementLease"
  forgotten :: "string list"
  outcomes :: "io_kind Outcome list"
  history :: "CacheDirs list"

type_synonym 'a gc = "(GcWorld, GcError, 'a) run"

definition happen :: "(GcWorld \<Rightarrow> GcWorld) \<Rightarrow> GcWorld \<Rightarrow> GcWorld" where
  "happen f w = (let w' = f w in w'\<lparr> history := history w @ [dirs w'] \<rparr>)"

definition effect :: "(GcWorld \<Rightarrow> GcWorld) \<Rightarrow> unit gc" where
  "effect f = (\<lambda>w. case next_outcome (outcomes w) of (outcome, os) \<Rightarrow> let w = w\<lparr> outcomes := os \<rparr> in
    case outcome of
      Succeeds \<Rightarrow> (Ok (), happen f w)
    | FailsBefore k \<Rightarrow> (Err (GcIo k), w)
    | FailsAfter k \<Rightarrow> (Err (GcIo k), happen f w))"

abbreviation untouched :: "unit gc" where
  "untouched \<equiv> effect (\<lambda>w. w)"

subsection \<open>Operations on the directories\<close>

definition on_root :: "(string Dir \<Rightarrow> string Dir) \<Rightarrow> GcWorld \<Rightarrow> GcWorld" where
  "on_root f w = w\<lparr> dirs := (dirs w)\<lparr> root_dir := f (root_dir (dirs w)) \<rparr> \<rparr>"

definition on_nar :: "(string Dir \<Rightarrow> string Dir) \<Rightarrow> GcWorld \<Rightarrow> GcWorld" where
  "on_nar f w = w\<lparr> dirs := (dirs w)\<lparr> nar_dir := f (nar_dir (dirs w)) \<rparr> \<rparr>"

definition on_lease :: "(StoreHash Dir \<Rightarrow> StoreHash Dir) \<Rightarrow> GcWorld \<Rightarrow> GcWorld" where
  "on_lease f w = w\<lparr> dirs := (dirs w)\<lparr> lease_dir := f (lease_dir (dirs w)) \<rparr> \<rparr>"

definition unlink_root :: "string \<Rightarrow> unit gc" where
  "unlink_root name = (\<lambda>w. if name \<in> visible (root_dir (dirs w)) then effect (on_root (dir_unlink name)) w else (Err (GcIo IoNotFound), w))"

definition unlink_nar :: "string \<Rightarrow> unit gc" where
  "unlink_nar name = (\<lambda>w. if name \<in> visible (nar_dir (dirs w)) then effect (on_nar (dir_unlink name)) w else (Err (GcIo IoNotFound), w))"

definition unlink_lease :: "StoreHash \<Rightarrow> unit gc" where
  "unlink_lease store = (\<lambda>w. if store \<in> visible (lease_dir (dirs w)) then effect (on_lease (dir_unlink store)) w else (Err (GcIo IoNotFound), w))"

definition sync_root :: "unit gc" where
  "sync_root = effect (on_root dir_sync)"

definition sync_nar :: "unit gc" where
  "sync_nar = effect (on_nar dir_sync)"

definition sync_lease :: "unit gc" where
  "sync_lease = effect (on_lease dir_sync)"

text \<open>Forgetting when an object was last used is advisory: its errors are ignored.\<close>

definition access_forget :: "string \<Rightarrow> unit gc" where
  "access_forget name = (\<lambda>w. (Ok (), w\<lparr> forgotten := forgotten w @ [name] \<rparr>))"

fun forget_all :: "string list \<Rightarrow> unit gc" where
  "forget_all [] = retW ()"
| "forget_all (n # ns) = thenW (access_forget n) (forget_all ns)"

subsection \<open>Removing metadata\<close>

definition narinfo_file :: "StoreHash \<Rightarrow> string" where
  "narinfo_file store = store_hash_str store @ ''.narinfo''"

definition set_retention :: "StoreHash \<Rightarrow> AdvertisementRetention \<Rightarrow> GcWorld \<Rightarrow> GcWorld" where
  "set_retention store r w = w\<lparr> lease_records := (lease_records w)(store := (lease_records w store)\<lparr> lease_retention := r \<rparr>) \<rparr>"

text \<open>The removal is authorised by the collection's lease, or stands alone (\<open>None\<close>).\<close>

definition publish_removal :: "Activity option \<Rightarrow> StoreHash \<Rightarrow> unit gc" where
  "publish_removal removal store =
    (case removal of
       None \<Rightarrow> effect (set_retention store RemovalPending)
     | Some activity \<Rightarrow> (case authorize_retention_removal activity store of
         Inl _ \<Rightarrow> failW GcBusy
       | Inr _ \<Rightarrow> effect (set_retention store RemovalPending)))"

definition mark_advertisement_removal_pending :: "AdvertisementLeases \<Rightarrow> Activity option \<Rightarrow> StoreHash \<Rightarrow> unit gc" where
  "mark_advertisement_removal_pending leases removal store = (case leases of
      LeasesAbsent \<Rightarrow> retW ()
    | LeasesIncomplete \<Rightarrow> failW GcInvalid
    | LeasesActive _ \<Rightarrow> thenW untouched (\<lambda>w.
        if store \<notin> visible (lease_dir (dirs w)) then retW () w
        else if lease_version (lease_records w store) \<noteq> LEASE_VERSION then failW GcInvalid w
        else (case lease_retention (lease_records w store) of
            RemovalPending \<Rightarrow> sync_lease w
          | Until _ \<Rightarrow> publish_removal removal store w)))"

definition tolerate_missing :: "unit gc \<Rightarrow> unit gc" where
  "tolerate_missing m = (\<lambda>w. case m w of (r, w') \<Rightarrow> (if r = Err (GcIo IoNotFound) then Ok () else r, w'))"

definition remove_advertisement_record :: "AdvertisementLeases \<Rightarrow> StoreHash \<Rightarrow> unit gc" where
  "remove_advertisement_record leases store = (case leases of
      LeasesAbsent \<Rightarrow> retW ()
    | LeasesIncomplete \<Rightarrow> failW GcInvalid
    | LeasesActive _ \<Rightarrow> thenW sync_root (thenW (tolerate_missing (unlink_lease store)) sync_lease))"

definition remove_narinfo_with_retention_and_unlink :: "AdvertisementLeases \<Rightarrow> Activity option \<Rightarrow> StoreHash \<Rightarrow> unit gc" where
  "remove_narinfo_with_retention_and_unlink leases removal store =
    thenW (mark_advertisement_removal_pending leases removal store)
      (thenW untouched
        (thenW (unlink_root (narinfo_file store)) (remove_advertisement_record leases store)))"

subsection \<open>Applying a selection\<close>

definition payload_access_key :: "encodings \<Rightarrow> string \<Rightarrow> string option" where
  "payload_access_key E name = (case file_name_parse E name of Inl _ \<Rightarrow> None | Inr key \<Rightarrow> Some (file_name_display E key))"

text \<open>The loop over the payloads of an entry, with what was deleted so far: any payload, the raw archive.  A missing or exhausted
  count is a panic.\<close>

fun apply_payloads ::
    "Entry \<Rightarrow> string list \<Rightarrow> (string \<times> nat) list \<Rightarrow> bool \<Rightarrow> bool \<Rightarrow> ((string \<times> nat) list \<times> bool \<times> bool) gc" where
  "apply_payloads entry [] counts payload raw = retW (counts, payload, raw)"
| "apply_payloads entry (name # names) counts payload raw = (case map_of counts name of
      None \<Rightarrow> failW GcPanic
    | Some count \<Rightarrow>
        if count = 0 then failW GcPanic
        else let counts = AList.update name (count - 1) counts in
          if count - 1 \<noteq> 0 then apply_payloads entry names counts payload raw
          else thenW (unlink_nar name) (thenW untouched
            (apply_payloads entry names counts True (raw \<or> name = raw_nar_name entry))))"

definition apply_entry ::
    "encodings \<Rightarrow> AdvertisementLeases \<Rightarrow> Activity option \<Rightarrow> Entry \<Rightarrow> (string \<times> nat) list \<Rightarrow> ((string \<times> nat) list \<times> bool) gc" where
  "apply_entry E leases removal entry counts =
    thenW untouched
      (thenW (remove_narinfo_with_retention_and_unlink leases removal (entry_store entry))
        (thenW untouched
          (thenW sync_root
            (thenW (access_forget (narinfo_file (entry_store entry)))
              (thenW untouched
                (bindW (apply_payloads entry (entry_payload_names entry) counts False False) (\<lambda>(counts, payload, raw).
                  thenW (if payload
                      then thenW sync_nar (forget_all (List.map_filter (payload_access_key E)
                        (filter (\<lambda>name. map_of counts name = Some 0) (entry_payload_names entry))))
                      else retW ())
                    (retW (counts, raw)))))))))"

fun apply_selected ::
    "encodings \<Rightarrow> AdvertisementLeases \<Rightarrow> Activity option \<Rightarrow> Entry list \<Rightarrow> nat list \<Rightarrow> (string \<times> nat) list \<Rightarrow> nat \<Rightarrow> nat gc" where
  "apply_selected E leases removal entries [] counts deleted_nars = retW deleted_nars"
| "apply_selected E leases removal entries (index # selected) counts deleted_nars =
    (if length entries \<le> index then failW GcPanic
     else bindW (apply_entry E leases removal (entries ! index) counts) (\<lambda>(counts, raw).
       apply_selected E leases removal entries selected counts (if raw then deleted_nars + 1 else deleted_nars)))"

definition apply_with_checkpoint ::
    "encodings \<Rightarrow> AdvertisementLeases \<Rightarrow> Activity option \<Rightarrow> Entry list \<Rightarrow> nat list \<Rightarrow> (nat \<times> nat) gc" where
  "apply_with_checkpoint E leases removal entries selected =
    thenW untouched (thenW untouched (thenW untouched
      (bindW (apply_selected E leases removal entries selected (reference_counts entries) 0) (\<lambda>deleted_nars.
        retW (length selected, deleted_nars)))))"

fun unlink_orphans :: "Orphan list \<Rightarrow> nat list \<Rightarrow> unit gc" where
  "unlink_orphans orphans [] = retW ()"
| "unlink_orphans orphans (index # selected) =
    (if length orphans \<le> index then failW GcPanic
     else thenW untouched (thenW (unlink_nar (orphan_name (orphans ! index))) (unlink_orphans orphans selected)))"

definition apply_orphans :: "encodings \<Rightarrow> Orphan list \<Rightarrow> nat list \<Rightarrow> nat gc" where
  "apply_orphans E orphans selected =
    thenW untouched
      (thenW (unlink_orphans orphans selected)
        (thenW (if selected \<noteq> [] then sync_nar else retW ())
          (thenW (forget_all (List.map_filter (payload_access_key E) (map (\<lambda>i. orphan_name (orphans ! i)) selected)))
            (retW (length selected)))))"

definition apply_collection ::
    "encodings \<Rightarrow> AdvertisementLeases \<Rightarrow> Activity option \<Rightarrow> Entry list \<Rightarrow> nat list \<Rightarrow> Orphan list \<Rightarrow> nat list \<Rightarrow> (nat \<times> nat \<times> nat) gc" where
  "apply_collection E leases removal entries selected orphans doomed =
    bindW (apply_with_checkpoint E leases removal entries selected) (\<lambda>(narinfos, nars).
      bindW (apply_orphans E orphans doomed) (\<lambda>deleted. retW (narinfos, nars, deleted)))"

subsection \<open>Triples\<close>

text \<open>From every world whose directories satisfy \<open>P\<close>, a run keeps every state of the directories in \<open>C\<close>, whatever fails, does not
  panic, and establishes \<open>Q\<close> when it succeeds.\<close>

definition all_ok :: "(CacheDirs \<Rightarrow> bool) \<Rightarrow> GcWorld \<Rightarrow> bool" where
  "all_ok C w \<longleftrightarrow> C (dirs w) \<and> list_all C (history w)"

definition triple :: "(CacheDirs \<Rightarrow> bool) \<Rightarrow> (CacheDirs \<Rightarrow> bool) \<Rightarrow> 'a gc \<Rightarrow> ('a \<Rightarrow> CacheDirs \<Rightarrow> bool) \<Rightarrow> bool" where
  "triple C P m Q \<longleftrightarrow> (\<forall>w r w'. P (dirs w) \<longrightarrow> all_ok C w \<longrightarrow> m w = (r, w') \<longrightarrow>
    all_ok C w' \<and> r \<noteq> Err GcPanic \<and> (\<forall>x. r = Ok x \<longrightarrow> Q x (dirs w')))"

lemma tripleD:
  "triple C P m Q \<Longrightarrow> m w = (r, w') \<Longrightarrow> P (dirs w) \<Longrightarrow> all_ok C w \<Longrightarrow>
   all_ok C w' \<and> r \<noteq> Err GcPanic \<and> (\<forall>x. r = Ok x \<longrightarrow> Q x (dirs w'))"
  unfolding triple_def by blast

lemma tripleI:
  "(\<And>w r w'. P (dirs w) \<Longrightarrow> all_ok C w \<Longrightarrow> m w = (r, w') \<Longrightarrow>
     all_ok C w' \<and> r \<noteq> Err GcPanic \<and> (\<forall>x. r = Ok x \<longrightarrow> Q x (dirs w'))) \<Longrightarrow> triple C P m Q"
  unfolding triple_def by blast

lemma triple_weaken: "triple C P' m Q' \<Longrightarrow> (\<And>d. P d \<Longrightarrow> P' d) \<Longrightarrow> (\<And>x d. Q' x d \<Longrightarrow> Q x d) \<Longrightarrow> triple C P m Q"
  unfolding triple_def by blast

lemma triple_ret: "(\<And>d. P d \<Longrightarrow> Q x d) \<Longrightarrow> triple C P (retW x) Q"
  by (auto simp: triple_def retW_def)

lemma triple_fail: "e \<noteq> GcPanic \<Longrightarrow> triple C P (failW e) Q"
  by (simp add: triple_def failW_def)

lemma triple_bind:
  assumes m: "triple C P m R" and f: "\<And>x. triple C (R x) (f x) Q"
  shows "triple C P (bindW m f) Q"
proof (rule tripleI)
  fix w r w' assume P: "P (dirs w)" "all_ok C w" and run: "bindW m f w = (r, w')"
  obtain r1 w1 where m1: "m w = (r1, w1)" by fastforce
  note first = tripleD [OF m m1 P]
  show "all_ok C w' \<and> r \<noteq> Err GcPanic \<and> (\<forall>x. r = Ok x \<longrightarrow> Q x (dirs w'))"
  proof (cases r1)
    case (Inl e)
    then show ?thesis using run m1 first by (auto simp: bindW_def)
  next
    case (Inr x)
    then have "f x w1 = (r, w')" using run m1 by (simp add: bindW_def)
    then show ?thesis using tripleD [OF f] first Inr by blast
  qed
qed

lemma triple_then: "triple C P m (\<lambda>_. R) \<Longrightarrow> triple C R n Q \<Longrightarrow> triple C P (thenW m n) Q"
  unfolding thenW_def by (rule triple_bind)

lemma triple_effect:
  assumes f: "\<And>w. dirs (f w) = g (dirs w)" "\<And>w. history (f w) = history w"
    and g: "\<And>d. P d \<Longrightarrow> C d \<Longrightarrow> C (g d)" "\<And>d. P d \<Longrightarrow> C d \<Longrightarrow> Q () (g d)"
  shows "triple C P (effect f) Q"
proof (rule tripleI)
  fix w r w' assume "P (dirs w)" "all_ok C w" "effect f w = (r, w')"
  moreover have "dirs (happen f (w\<lparr> outcomes := os \<rparr>)) = g (dirs w)"
      "history (happen f (w\<lparr> outcomes := os \<rparr>)) = history w @ [g (dirs w)]" for os
    by (simp_all add: happen_def Let_def f)
  ultimately show "all_ok C w' \<and> r \<noteq> Err GcPanic \<and> (\<forall>x. r = Ok x \<longrightarrow> Q x (dirs w'))"
    using g [of "dirs w"] by (auto simp: effect_def all_ok_def Let_def split: prod.splits Outcome.splits)
qed

lemma triple_untouched: "triple C P untouched (\<lambda>_. P)"
  by (rule triple_effect [where g = "\<lambda>d. d"]) simp_all

lemma triple_look: "(\<And>w0. triple C P (f w0) Q) \<Longrightarrow> triple C P (\<lambda>w. f w w) Q"
  unfolding triple_def by blast

lemma triple_guard:
  assumes "triple C P m Q"
  shows "triple C P (\<lambda>w. if b w then m w else (Err (GcIo k), w)) Q"
proof (rule tripleI)
  fix w r w' assume "P (dirs w)" "all_ok C w" "(if b w then m w else (Err (GcIo k), w)) = (r, w')"
  then show "all_ok C w' \<and> r \<noteq> Err GcPanic \<and> (\<forall>x. r = Ok x \<longrightarrow> Q x (dirs w'))"
    using tripleD [OF assms, of w r w'] by (cases "b w") auto
qed

lemma triple_forget: "triple C P (access_forget n) (\<lambda>_. P)"
  by (auto simp: triple_def access_forget_def all_ok_def)

lemma triple_forget_all: "triple C P (forget_all ns) (\<lambda>_. P)"
  by (induction ns) (auto intro: triple_ret triple_then [OF triple_forget])

subsection \<open>What a crash may leave\<close>

text \<open>After a crash a directory has its durable names, without any of those whose unlink was not yet durable.\<close>

definition crash_views :: "'k Dir \<Rightarrow> 'k set set" where
  "crash_views d = {durable d - lost |lost. lost \<subseteq> unlinked d}"

definition crash_consistent :: "Entry list \<Rightarrow> StoreHash set \<Rightarrow> CacheDirs \<Rightarrow> bool" where
  "crash_consistent entries leased d \<longleftrightarrow>
    (\<forall>R N L. R \<in> crash_views (root_dir d) \<and> N \<in> crash_views (nar_dir d) \<and> L \<in> crash_views (lease_dir d) \<longrightarrow>
      (\<forall>e. e \<in> set entries \<and> narinfo_file (entry_store e) \<in> R \<longrightarrow> set (entry_payload_names e) \<subseteq> N) \<and>
      (\<forall>s. s \<in> leased \<and> narinfo_file s \<in> R \<longrightarrow> s \<in> L))"

text \<open>The invariant: the entries in \<open>S\<close> are untouched, the metadata of the others is durably gone.\<close>

definition intact :: "Entry list \<Rightarrow> StoreHash set \<Rightarrow> nat set \<Rightarrow> CacheDirs \<Rightarrow> bool" where
  "intact entries leased S d \<longleftrightarrow>
    (\<forall>i < length entries. i \<notin> S \<longrightarrow> narinfo_file (entry_store (entries ! i)) \<notin> durable (root_dir d)) \<and>
    names_of entries S \<subseteq> visible (nar_dir d) \<and>
    (\<forall>s. s \<in> leased \<and> narinfo_file s \<in> durable (root_dir d) \<longrightarrow> s \<in> visible (lease_dir d))"

definition removed :: "StoreHash \<Rightarrow> CacheDirs \<Rightarrow> bool" where
  "removed s d \<longleftrightarrow> narinfo_file s \<notin> visible (root_dir d)"

definition durably_removed :: "StoreHash \<Rightarrow> CacheDirs \<Rightarrow> bool" where
  "durably_removed s d \<longleftrightarrow> narinfo_file s \<notin> durable (root_dir d)"

lemma crash_viewsD: "R \<in> crash_views d \<Longrightarrow> visible d \<subseteq> R \<and> R \<subseteq> durable d"
  by (auto simp: crash_views_def visible_def)

lemma intact_consistent:
  assumes "intact entries leased S d"
  shows "crash_consistent entries leased d"
  unfolding crash_consistent_def
proof (intro allI impI conjI; elim conjE)
  fix R N L e
  assume views: "R \<in> crash_views (root_dir d)" "N \<in> crash_views (nar_dir d)"
    and e: "e \<in> set entries" "narinfo_file (entry_store e) \<in> R"
  then obtain i where i: "i < length entries" "e = entries ! i" by (auto simp: in_set_conv_nth)
  then have "i \<in> S" using assms e crash_viewsD [OF views(1)] by (auto simp: intact_def)
  then show "set (entry_payload_names e) \<subseteq> N"
    using assms i crash_viewsD [OF views(2)] by (auto simp: intact_def names_of_def)
next
  fix R N L s
  assume "R \<in> crash_views (root_dir d)" "L \<in> crash_views (lease_dir d)" "s \<in> leased" "narinfo_file s \<in> R"
  then show "s \<in> L"
    using assms crash_viewsD [of R "root_dir d"] crash_viewsD [of L "lease_dir d"] unfolding intact_def by blast
qed

subsection \<open>The operations keep the directories consistent\<close>

abbreviation keeps :: "Entry list \<Rightarrow> StoreHash set \<Rightarrow> (CacheDirs \<Rightarrow> bool) \<Rightarrow> 'a gc \<Rightarrow> ('a \<Rightarrow> CacheDirs \<Rightarrow> bool) \<Rightarrow> bool" where
  "keeps entries leased \<equiv> triple (crash_consistent entries leased)"

text \<open>An effect on the directories that turns the invariant for \<open>S\<close> into the one for \<open>T\<close>.\<close>

lemma keeps_effect:
  assumes "\<And>w. dirs (f w) = g (dirs w)" "\<And>w. history (f w) = history w"
    and "\<And>d. intact entries leased S d \<Longrightarrow> P d \<Longrightarrow> intact entries leased T (g d) \<and> Q (g d)"
  shows "keeps entries leased (\<lambda>d. intact entries leased S d \<and> P d) (effect f) (\<lambda>_ d. intact entries leased T d \<and> Q d)"
  using assms(1,2) by (rule triple_effect) (simp_all add: assms(3) intact_consistent [OF conjunct1 [OF assms(3)]])

lemma unlink_root_keeps:
  "keeps entries leased (intact entries leased S) (unlink_root (narinfo_file s)) (\<lambda>_ d. intact entries leased S d \<and> removed s d)"
proof -
  have "keeps entries leased (\<lambda>d. intact entries leased S d \<and> True) (effect (on_root (dir_unlink (narinfo_file s))))
      (\<lambda>_ d. intact entries leased S d \<and> removed s d)"
    by (rule keeps_effect [where g = "\<lambda>d. d\<lparr> root_dir := dir_unlink (narinfo_file s) (root_dir d) \<rparr>"])
      (auto simp: on_root_def dir_unlink_def intact_def removed_def visible_def)
  then show ?thesis unfolding unlink_root_def by (intro triple_guard) simp
qed

lemma sync_root_keeps:
  "keeps entries leased (\<lambda>d. intact entries leased S d \<and> removed s d) sync_root
    (\<lambda>_ d. intact entries leased S d \<and> durably_removed s d)"
  unfolding sync_root_def
  by (rule keeps_effect [where g = "\<lambda>d. d\<lparr> root_dir := dir_sync (root_dir d) \<rparr>"])
    (auto simp: on_root_def dir_sync_def intact_def removed_def durably_removed_def visible_def)

lemma durably_removed_removed: "durably_removed s d \<Longrightarrow> removed s d"
  by (simp add: durably_removed_def removed_def visible_def)

lemma sync_lease_keeps:
  assumes "\<And>d. P (d\<lparr> lease_dir := dir_sync (lease_dir d) \<rparr>) = P d"
  shows "keeps entries leased (\<lambda>d. intact entries leased S d \<and> P d) sync_lease (\<lambda>_ d. intact entries leased S d \<and> P d)"
  unfolding sync_lease_def
  by (rule keeps_effect [where g = "\<lambda>d. d\<lparr> lease_dir := dir_sync (lease_dir d) \<rparr>"])
    (auto simp: on_lease_def assms, auto simp: dir_sync_def intact_def visible_def)

lemma sync_nar_keeps: "keeps entries leased (intact entries leased S) sync_nar (\<lambda>_. intact entries leased S)"
proof -
  have "keeps entries leased (\<lambda>d. intact entries leased S d \<and> True) sync_nar (\<lambda>_ d. intact entries leased S d \<and> True)"
    unfolding sync_nar_def
    by (rule keeps_effect [where g = "\<lambda>d. d\<lparr> nar_dir := dir_sync (nar_dir d) \<rparr>"])
      (auto simp: on_nar_def dir_sync_def intact_def visible_def)
  then show ?thesis by simp
qed

lemma unlink_nar_keeps:
  assumes "n \<notin> names_of entries S"
  shows "keeps entries leased (intact entries leased S) (unlink_nar n) (\<lambda>_. intact entries leased S)"
proof -
  have "keeps entries leased (\<lambda>d. intact entries leased S d \<and> True) (effect (on_nar (dir_unlink n)))
      (\<lambda>_ d. intact entries leased S d \<and> True)"
    by (rule keeps_effect [where g = "\<lambda>d. d\<lparr> nar_dir := dir_unlink n (nar_dir d) \<rparr>"])
      (use assms in \<open>auto simp: on_nar_def dir_unlink_def intact_def visible_def\<close>)
  then show ?thesis unfolding unlink_nar_def by (intro triple_guard) simp
qed

lemma unlink_lease_keeps:
  "keeps entries leased (\<lambda>d. intact entries leased S d \<and> durably_removed s d) (unlink_lease s)
    (\<lambda>_ d. intact entries leased S d \<and> durably_removed s d)"
  unfolding unlink_lease_def
  by (intro triple_guard keeps_effect [where g = "\<lambda>d. d\<lparr> lease_dir := dir_unlink s (lease_dir d) \<rparr>"])
    (auto simp: on_lease_def dir_unlink_def intact_def durably_removed_def visible_def)

lemma triple_tolerate:
  assumes "triple C P m (\<lambda>_. Q)" "\<And>w r w'. P (dirs w) \<Longrightarrow> all_ok C w \<Longrightarrow> m w = (r, w') \<Longrightarrow> Q (dirs w')"
  shows "triple C P (tolerate_missing m) (\<lambda>_. Q)"
proof (rule tripleI)
  fix w r w' assume P: "P (dirs w)" "all_ok C w" and run: "tolerate_missing m w = (r, w')"
  obtain r1 where m: "m w = (r1, w')" "r = (if r1 = Err (GcIo IoNotFound) then Ok () else r1)"
    using run by (auto simp: tolerate_missing_def split: prod.splits)
  show "all_ok C w' \<and> r \<noteq> Err GcPanic \<and> (\<forall>x. r = Ok x \<longrightarrow> Q (dirs w'))"
    using tripleD [OF assms(1) m(1) P] assms(2) [OF P m(1)] m(2) by auto
qed

lemma unlink_lease_any:
  assumes "intact entries leased S (dirs w)" "durably_removed s (dirs w)" "unlink_lease s w = (r, w')"
  shows "intact entries leased S (dirs w') \<and> durably_removed s (dirs w')"
  using assms
  by (auto simp: unlink_lease_def effect_def happen_def Let_def on_lease_def dir_unlink_def intact_def durably_removed_def
      visible_def split: if_splits prod.splits Outcome.splits)

lemma remove_advertisement_record_keeps:
  "keeps entries leased (\<lambda>d. intact entries leased S d \<and> removed s d) (remove_advertisement_record leases s)
    (\<lambda>_ d. intact entries leased S d \<and> removed s d)"
proof (cases leases)
  case (LeasesActive policy)
  have "keeps entries leased (\<lambda>d. intact entries leased S d \<and> durably_removed s d) (tolerate_missing (unlink_lease s))
      (\<lambda>_ d. intact entries leased S d \<and> durably_removed s d)"
    by (rule triple_tolerate [OF unlink_lease_keeps]) (use unlink_lease_any in blast)
  then have "keeps entries leased (\<lambda>d. intact entries leased S d \<and> removed s d) (remove_advertisement_record leases s)
      (\<lambda>_ d. intact entries leased S d \<and> durably_removed s d)"
    unfolding remove_advertisement_record_def LeasesActive AdvertisementLeases.case
    by (intro triple_then [OF sync_root_keeps] triple_then [OF _ sync_lease_keeps]) (simp_all add: durably_removed_def)
  then show ?thesis by (rule triple_weaken) (simp_all add: durably_removed_removed)
qed (simp_all add: remove_advertisement_record_def triple_ret triple_fail)

lemma mark_pending_keeps:
  "keeps entries leased (intact entries leased S) (mark_advertisement_removal_pending leases removal s)
    (\<lambda>_. intact entries leased S)"
proof (cases leases)
  case (LeasesActive policy)
  have sync: "keeps entries leased (intact entries leased S) sync_lease (\<lambda>_. intact entries leased S)"
    using sync_lease_keeps [of "\<lambda>_. True"] by simp
  have set: "keeps entries leased (intact entries leased S) (effect (set_retention s RemovalPending)) (\<lambda>_. intact entries leased S)"
    by (rule triple_effect [where g = "\<lambda>d. d"]) (simp_all add: set_retention_def)
  then have publish: "keeps entries leased (intact entries leased S) (publish_removal removal s) (\<lambda>_. intact entries leased S)"
    by (auto simp: publish_removal_def triple_fail split: option.split sum.split)
  show ?thesis
    unfolding mark_advertisement_removal_pending_def LeasesActive AdvertisementLeases.case
  proof (rule triple_then [OF triple_untouched], rule tripleI)
    fix w r w'
    assume P: "intact entries leased S (dirs w)" "all_ok (crash_consistent entries leased) w"
      and run: "(if s \<notin> visible (lease_dir (dirs w)) then retW () w
        else if lease_version (lease_records w s) \<noteq> LEASE_VERSION then failW GcInvalid w
        else case lease_retention (lease_records w s) of Until x \<Rightarrow> publish_removal removal s w | RemovalPending \<Rightarrow> sync_lease w) = (r, w')"
    show "all_ok (crash_consistent entries leased) w' \<and> r \<noteq> Err GcPanic \<and> (\<forall>x. r = Ok x \<longrightarrow> intact entries leased S (dirs w'))"
      using run P tripleD [OF sync _ P] tripleD [OF publish _ P]
      by (auto simp: retW_def failW_def split: if_splits AdvertisementRetention.splits)
  qed
qed (simp_all add: mark_advertisement_removal_pending_def triple_ret triple_fail)

lemma remove_narinfo_keeps:
  "keeps entries leased (intact entries leased S) (remove_narinfo_with_retention_and_unlink leases removal s)
    (\<lambda>_ d. intact entries leased S d \<and> removed s d)"
  unfolding remove_narinfo_with_retention_and_unlink_def
  by (intro triple_then [OF mark_pending_keeps] triple_then [OF triple_untouched] triple_then [OF unlink_root_keeps]
      remove_advertisement_record_keeps)

subsection \<open>A payload goes only after its last user\<close>

lemma apply_payloads_keeps:
  assumes "distinct names" "\<And>n. n \<in> set names \<Longrightarrow> \<exists>c. map_of counts n = Some (Suc c) \<and> (c = 0 \<longrightarrow> n \<notin> names_of entries S)"
  shows "keeps entries leased (intact entries leased S) (apply_payloads e names counts payload raw)
    (\<lambda>(counts', _, _) d. intact entries leased S d \<and>
      (\<forall>n. map_of counts' n = (if n \<in> set names then map_option (\<lambda>c. c - 1) (map_of counts n) else map_of counts n)))"
  using assms
proof (induction names arbitrary: counts payload raw)
  case Nil
  then show ?case by (auto intro: triple_ret)
next
  case (Cons n names)
  obtain c where c: "map_of counts n = Some (Suc c)" "c = 0 \<Longrightarrow> n \<notin> names_of entries S"
    using Cons.prems(2) [of n] by auto
  let ?counts = "AList.update n c counts"
  have look: "map_of ?counts m = (if m = n then Some c else map_of counts m)" for m
    by (simp add: update_conv')
  have rest: "keeps entries leased (intact entries leased S) (apply_payloads e names ?counts payload raw)
      (\<lambda>(counts', _, _) d. intact entries leased S d \<and>
        (\<forall>m. map_of counts' m = (if m \<in> set (n # names) then map_option (\<lambda>c. c - 1) (map_of counts m) else map_of counts m)))"
    for payload raw
  proof (rule triple_weaken [OF Cons.IH])
    show "distinct names" using Cons.prems(1) by simp
    show "\<exists>c. map_of ?counts m = Some (Suc c) \<and> (c = 0 \<longrightarrow> m \<notin> names_of entries S)" if "m \<in> set names" for m
      using Cons.prems that by (auto simp: look)
  qed (use Cons.prems(1) c(1) in \<open>auto simp: look\<close>)
  show ?case
  proof (cases "c = 0")
    case True
    then have step: "apply_payloads e (n # names) counts payload raw =
        thenW (unlink_nar n) (thenW untouched (apply_payloads e names ?counts True (raw \<or> n = raw_nar_name e)))"
      using c(1) by simp
    show ?thesis
      unfolding step by (intro triple_then [OF unlink_nar_keeps [OF c(2) [OF True]]] triple_then [OF triple_untouched] rest)
  next
    case False
    then have step: "apply_payloads e (n # names) counts payload raw = apply_payloads e names ?counts payload raw"
      using c(1) by simp
    show ?thesis unfolding step by (rule rest)
  qed
qed

lemma payload_counts:
  assumes "counts_for entries S counts" "finite S" "i \<in> S" "i < length entries" "n \<in> set (entry_payload_names (entries ! i))"
  shows "\<exists>c. map_of counts n = Some (Suc c) \<and> c = card (users entries (S - {i}) n)
    \<and> (c = 0 \<longrightarrow> n \<notin> names_of entries (S - {i}))"
proof -
  have "i \<in> users entries S n" using assms by (simp add: users_def)
  then have "card (users entries S n) = Suc (card (users entries (S - {i}) n))"
    using assms(2) unfolding users_remove by (intro card.remove) simp_all
  moreover have "n \<in> names_of entries {..<length entries}" using assms(4,5) by (auto simp: names_of_def)
  ultimately show ?thesis
    using assms(1,2) users_empty_iff [of entries "S - {i}" n] by (simp add: counts_for_def)
qed

lemma users_other: "n \<notin> set (entry_payload_names (entries ! i)) \<Longrightarrow> users entries (S - {i}) n = users entries S n"
  by (auto simp: users_def)

lemma counts_for_decrement:
  assumes "counts_for entries S counts" "finite S" "i \<in> S" "i < length entries"
    and "\<And>n. map_of counts' n = (if n \<in> set (entry_payload_names (entries ! i))
      then map_option (\<lambda>c. c - 1) (map_of counts n) else map_of counts n)"
  shows "counts_for entries (S - {i}) counts'"
  unfolding counts_for_def
proof
  fix n
  show "map_of counts' n = (if n \<in> names_of entries {..<length entries} then Some (card (users entries (S - {i}) n)) else None)"
  proof (cases "n \<in> set (entry_payload_names (entries ! i))")
    case True
    then have "n \<in> names_of entries {..<length entries}" using assms(4) by (auto simp: names_of_def)
    then show ?thesis using payload_counts [OF assms(1-4) True] True by (auto simp: assms(5))
  next
    case False
    then show ?thesis using assms(1) users_other [OF False] by (simp add: assms(5) counts_for_def)
  qed
qed

lemma intact_drop:
  assumes "intact entries leased S d" "durably_removed (entry_store (entries ! i)) d"
  shows "intact entries leased (S - {i}) d"
  using assms by (auto simp: intact_def durably_removed_def names_of_def)

subsection \<open>Entries, selections, orphans\<close>

lemma apply_entry_keeps:
  assumes "counts_for entries S counts" "finite S" "i \<in> S" "i < length entries"
  shows "keeps entries leased (intact entries leased S) (apply_entry E leases removal (entries ! i) counts)
    (\<lambda>(counts', _) d. intact entries leased (S - {i}) d \<and> counts_for entries (S - {i}) counts')"
proof -
  let ?e = "entries ! i" and ?T = "S - {i}"
  have payloads: "keeps entries leased (intact entries leased ?T)
      (apply_payloads ?e (entry_payload_names ?e) counts False False)
      (\<lambda>(counts', _, _) d. intact entries leased ?T d \<and> counts_for entries ?T counts')"
  proof (rule triple_weaken [OF apply_payloads_keeps])
    show "\<exists>c. map_of counts n = Some (Suc c) \<and> (c = 0 \<longrightarrow> n \<notin> names_of entries ?T)"
      if "n \<in> set (entry_payload_names ?e)" for n
      using payload_counts [OF assms that] by metis
  qed (auto intro: counts_for_decrement [OF assms])
  have rest: "keeps entries leased (\<lambda>d. intact entries leased ?T d \<and> counts_for entries ?T counts')
      (thenW (if payload then thenW sync_nar (forget_all keys) else retW ()) (retW (counts', raw)))
      (\<lambda>(counts', _) d. intact entries leased ?T d \<and> counts_for entries ?T counts')" for counts' payload raw keys
  proof (cases "counts_for entries ?T counts'")
    case True
    have "keeps entries leased (intact entries leased ?T) (if payload then thenW sync_nar (forget_all keys) else retW ())
        (\<lambda>_. intact entries leased ?T)"
      by (simp add: triple_then [OF sync_nar_keeps triple_forget_all] triple_ret)
    then show ?thesis using True by (simp add: triple_then [OF _ triple_ret])
  qed (simp add: triple_def)
  have sync: "keeps entries leased (\<lambda>d. intact entries leased S d \<and> removed (entry_store ?e) d) sync_root
      (\<lambda>_. intact entries leased ?T)"
    by (rule triple_weaken [OF sync_root_keeps]) (auto intro: intact_drop)
  show ?thesis
    unfolding apply_entry_def
    by (intro triple_then [OF triple_untouched] triple_then [OF remove_narinfo_keeps] triple_then [OF sync]
        triple_then [OF triple_forget] triple_bind [OF payloads]) (auto intro: rest)
qed

lemma apply_selected_keeps:
  assumes "counts_for entries S counts" "finite S" "set selected \<subseteq> S" "S \<subseteq> {..<length entries}" "distinct selected"
  shows "keeps entries leased (intact entries leased S) (apply_selected E leases removal entries selected counts n)
    (\<lambda>_. intact entries leased (S - set selected))"
  using assms
proof (induction selected arbitrary: S counts n)
  case Nil
  then show ?case by (simp add: triple_ret)
next
  case (Cons i selected)
  have i: "i \<in> S" "i < length entries" using Cons.prems by auto
  have rest: "keeps entries leased (\<lambda>d. intact entries leased (S - {i}) d \<and> counts_for entries (S - {i}) counts')
      (apply_selected E leases removal entries selected counts' m) (\<lambda>_. intact entries leased (S - {i} - set selected))" for counts' m
  proof (cases "counts_for entries (S - {i}) counts'")
    case True
    have "keeps entries leased (intact entries leased (S - {i})) (apply_selected E leases removal entries selected counts' m)
        (\<lambda>_. intact entries leased (S - {i} - set selected))"
      by (rule Cons.IH [OF True]) (use Cons.prems in auto)
    then show ?thesis by (rule triple_weaken) simp_all
  qed (simp add: triple_def)
  have "S - set (i # selected) = S - {i} - set selected" by auto
  then have goal: "intact entries leased (S - set (i # selected)) = intact entries leased (S - {i} - set selected)" by simp
  have step: "apply_selected E leases removal entries (i # selected) counts n =
      bindW (apply_entry E leases removal (entries ! i) counts) (\<lambda>(counts, raw).
        apply_selected E leases removal entries selected counts (if raw then n + 1 else n))"
    using i by simp
  show ?case
    unfolding step goal by (intro triple_bind [OF apply_entry_keeps [OF Cons.prems(1,2) i]]) (auto intro: rest)
qed

lemma unlink_orphans_keeps:
  assumes "\<And>i. i \<in> set selected \<Longrightarrow> i < length orphans \<and> orphan_name (orphans ! i) \<notin> names_of entries S"
  shows "keeps entries leased (intact entries leased S) (unlink_orphans orphans selected) (\<lambda>_. intact entries leased S)"
  using assms
proof (induction selected)
  case (Cons i selected)
  have step: "unlink_orphans orphans (i # selected) =
      thenW untouched (thenW (unlink_nar (orphan_name (orphans ! i))) (unlink_orphans orphans selected))"
    using Cons.prems [of i] by simp
  have "keeps entries leased (intact entries leased S) (unlink_nar (orphan_name (orphans ! i))) (\<lambda>_. intact entries leased S)"
    using Cons.prems [of i] by (intro unlink_nar_keeps) simp
  moreover have "keeps entries leased (intact entries leased S) (unlink_orphans orphans selected) (\<lambda>_. intact entries leased S)"
    by (rule Cons.IH) (simp add: Cons.prems)
  ultimately show ?case
    unfolding step by (rule triple_then [OF triple_untouched triple_then])
qed (simp add: triple_ret)

lemma apply_orphans_keeps:
  assumes "\<And>i. i \<in> set selected \<Longrightarrow> i < length orphans \<and> orphan_name (orphans ! i) \<notin> names_of entries S"
  shows "keeps entries leased (intact entries leased S) (apply_orphans E orphans selected) (\<lambda>_. intact entries leased S)"
proof -
  have sync: "keeps entries leased (intact entries leased S) (if selected \<noteq> [] then sync_nar else retW ())
      (\<lambda>_. intact entries leased S)"
    by (simp add: sync_nar_keeps triple_ret)
  show ?thesis
    unfolding apply_orphans_def
    by (rule triple_then [OF triple_untouched triple_then [OF unlink_orphans_keeps [OF assms]
        triple_then [OF sync triple_then [OF triple_forget_all triple_ret]]]])
qed

lemma apply_collection_keeps:
  assumes "distinct selected" "set selected \<subseteq> {..<length entries}"
    and "\<And>i. i \<in> set doomed \<Longrightarrow> i < length orphans \<and> orphan_name (orphans ! i) \<notin> names_of entries {..<length entries}"
  shows "keeps entries leased (intact entries leased {..<length entries})
    (apply_collection E leases removal entries selected orphans doomed)
    (\<lambda>_. intact entries leased ({..<length entries} - set selected))"
proof -
  let ?T = "{..<length entries} - set selected"
  have names: "orphan_name (orphans ! i) \<notin> names_of entries ?T" if "i \<in> set doomed" for i
    using assms(3) [OF that] by (auto simp: names_of_def)
  have run: "keeps entries leased (intact entries leased {..<length entries}) (apply_with_checkpoint E leases removal entries selected)
      (\<lambda>_. intact entries leased ?T)"
    unfolding apply_with_checkpoint_def
    by (rule triple_then [OF triple_untouched triple_then [OF triple_untouched triple_then [OF triple_untouched
        triple_bind [OF apply_selected_keeps [OF reference_counts_correct]]]]]) (use assms in \<open>simp_all add: triple_ret\<close>)
  have orphan: "keeps entries leased (intact entries leased ?T) (apply_orphans E orphans doomed) (\<lambda>_. intact entries leased ?T)"
    by (rule apply_orphans_keeps) (simp add: assms(3) names)
  show ?thesis
    unfolding apply_collection_def
    by (rule triple_bind [OF run]) (auto intro: triple_bind [OF orphan] triple_ret)
qed


text \<open>The witness: two entries share an archive, the first is selected, and the sync of the root fails.\<close>

definition sample_entries :: "Entry list" where
  "sample_entries = [sample_entry ''a'' ''x'' [] 1, sample_entry ''b'' ''x'' [] 1]"

definition sample_world :: GcWorld where
  "sample_world = \<lparr> dirs = \<lparr> root_dir = \<lparr> durable = (\<lambda>e. narinfo_file (entry_store e)) ` set sample_entries, unlinked = {} \<rparr>,
      nar_dir = \<lparr> durable = names_of sample_entries {..<length sample_entries} \<union> {''o''}, unlinked = {} \<rparr>,
      lease_dir = \<lparr> durable = {}, unlinked = {} \<rparr> \<rparr>,
    lease_records = (\<lambda>_. \<lparr> lease_version = LEASE_VERSION, lease_identity = content_identity zero_digest (ByteCount 0),
      lease_retention = RemovalPending, lease_output = OutputRaw, lease_source = None \<rparr>), forgotten = [],
    outcomes = replicate 7 Succeeds @ [FailsAfter IoOther], history = [] \<rparr>"


end
