(* ===== verification/Gc_Run.thy ===== *)
theory Gc_Run
  imports Gc_Protect Gc_Select Gc_Apply
begin

section \<open>A collection from the snapshot to the deletion (\<open>src/storage/gc.rs\<close>)\<close>

text \<open>
  How the parts of a flat collection fit together: the snapshot of the coordinator and the leases protect objects, the closure of
  the protected entries is taken, a selection is made, the coordinator is asked to retire the selected objects
  with everything that depends on them, and only then is anything deleted.  What the scans of the directories and the
  access records yield is an input.
\<close>

subsection \<open>Access to the storage\<close>

record AccessSnapshot =
  access_snapshot :: CollectionSnapshot
  access_durable :: AdvertisementProtection

datatype CollectionAccess = AccessOffline AccessSnapshot | AccessOnline AccessSnapshot

definition access_state :: "CollectionAccess \<Rightarrow> AccessSnapshot" where
  "access_state access = (case access of AccessOffline s \<Rightarrow> s | AccessOnline s \<Rightarrow> s)"

definition access_refresh :: "Activity \<Rightarrow> CollectionAccess \<Rightarrow> CollectionAccess" where
  "access_refresh a access = (case access of
      AccessOffline s \<Rightarrow> AccessOffline s
    | AccessOnline s \<Rightarrow> AccessOnline (s\<lparr> access_snapshot := refresh_read_protection a (access_snapshot s) \<rparr>))"

definition access_protects :: "CollectionAccess \<Rightarrow> ProtectedObject \<Rightarrow> bool" where
  "access_protects access object = (case access of
      AccessOffline s \<Rightarrow> durable_protects (access_durable s) object
    | AccessOnline s \<Rightarrow> durable_protects (access_durable s) object \<or> selection_contains (snap_protection (access_snapshot s)) object)"

definition access_protects_nar_name :: "encodings \<Rightarrow> CollectionAccess \<Rightarrow> string \<Rightarrow> bool" where
  "access_protects_nar_name E access name = (case access of
      AccessOffline s \<Rightarrow> durable_protects_nar_name E (access_durable s) name
    | AccessOnline s \<Rightarrow> durable_protects_nar_name E (access_durable s) name
        \<or> contains_nar_name E (snap_protection (access_snapshot s)) name)"

definition with_durable_protection :: "CollectionAccess \<Rightarrow> AdvertisementProtection \<Rightarrow> CollectionAccess" where
  "with_durable_protection access p = (case access of
      AccessOffline s \<Rightarrow> AccessOffline (s\<lparr> access_durable := p \<rparr>)
    | AccessOnline s \<Rightarrow> AccessOnline (s\<lparr> access_durable := p \<rparr>))"

definition access_authorize ::
    "Activity \<Rightarrow> CollectionAccess \<Rightarrow> GcMode \<Rightarrow> ProtectedObject list \<Rightarrow> (CollectionError + unit) \<times> Activity" where
  "access_authorize a access mode retiring =
    (let retiring = (case mode of Apply \<Rightarrow> retiring | DryRun \<Rightarrow> []) in
     case access of
       AccessOffline s \<Rightarrow> authorize_deletion a (access_snapshot s)
     | AccessOnline s \<Rightarrow> authorize_retirement a (access_snapshot s) (SelectObjects retiring))"

subsection \<open>What retires with the selection\<close>

definition retiring_aliases :: "Entry list \<Rightarrow> (string \<times> StoreHash) list" where
  "retiring_aliases entries = fold (\<lambda>e aliases.
     AList.update (store_hash_str (entry_store e)) (entry_store e) (AList.update (store_path e) (entry_store e) aliases)) entries []"

definition add_dependent :: "StoreHash \<Rightarrow> StoreHash \<Rightarrow> (StoreHash \<times> StoreHash list) list \<Rightarrow> (StoreHash \<times> StoreHash list) list" where
  "add_dependent store reference dependents =
    AList.update reference ((case map_of dependents reference of Some ds \<Rightarrow> ds | None \<Rightarrow> []) @ [store]) dependents"

definition retiring_dependents :: "Entry list \<Rightarrow> (StoreHash \<times> StoreHash list) list" where
  "retiring_dependents entries = (let aliases = retiring_aliases entries in
    fold (\<lambda>e dependents. fold (add_dependent (entry_store e))
      (List.map_filter (map_of aliases) (references e)) dependents) entries [])"

text \<open>The loop over the stack of pending stores; \<open>None\<close> is a loop that never ends.\<close>

partial_function (option) retiring_loop ::
    "(StoreHash \<times> StoreHash list) list \<Rightarrow> StoreHash list \<Rightarrow> StoreHash list \<Rightarrow> StoreHash list option" where
  "retiring_loop dependents pending retiring =
    (if pending = [] then Some retiring
     else
        let store = last pending; rest = butlast pending in
        if store \<in> set retiring then retiring_loop dependents rest retiring
        else retiring_loop dependents (rest @ (case map_of dependents store of Some ds \<Rightarrow> ds | None \<Rightarrow> [])) (retiring @ [store]))"

definition retiring_publications :: "Entry list \<Rightarrow> StoreHash list \<Rightarrow> StoreHash list option" where
  "retiring_publications entries selected = retiring_loop (retiring_dependents entries) selected []"

definition retiring_payloads :: "encodings \<Rightarrow> Entry list \<Rightarrow> nat list \<Rightarrow> Orphan list \<Rightarrow> nat list \<Rightarrow> NarHash list" where
  "retiring_payloads E entries selected orphans doomed =
    (let retained = concat (map entry_payload_names (map snd (filter (\<lambda>(i, _). i \<notin> set selected) (enumerate 0 entries))));
         leaving = concat (map entry_payload_names (map snd (filter (\<lambda>(i, _). i \<in> set selected) (enumerate 0 entries))))
           @ map (\<lambda>i. orphan_name (orphans ! i)) doomed in
     List.map_filter (\<lambda>name. case file_name_parse E name of Inl _ \<Rightarrow> None | Inr n \<Rightarrow> raw_hash n)
       (filter (\<lambda>name. name \<notin> set retained) leaving))"

definition retiring_flat_objects :: "encodings \<Rightarrow> Entry list \<Rightarrow> nat list \<Rightarrow> Orphan list \<Rightarrow> nat list \<Rightarrow> ProtectedObject list option" where
  "retiring_flat_objects E entries selected orphans doomed =
    map_option (\<lambda>stores. map ProtPublication stores @ map ProtCanonicalNar (retiring_payloads E entries selected orphans doomed))
      (retiring_publications entries (map (\<lambda>i. entry_store (entries ! i)) selected))"

subsection \<open>The closure under dependents\<close>

definition dependents_of :: "(StoreHash \<times> StoreHash list) list \<Rightarrow> StoreHash \<Rightarrow> StoreHash set" where
  "dependents_of dependents store = (case map_of dependents store of Some ds \<Rightarrow> set ds | None \<Rightarrow> {})"

text \<open>The publication \<open>t\<close> refers to the publication \<open>s\<close>, by path or by hash.\<close>

definition depends :: "Entry list \<Rightarrow> StoreHash \<Rightarrow> StoreHash \<Rightarrow> bool" where
  "depends entries s t \<longleftrightarrow> (\<exists>e. e \<in> set entries \<and> entry_store e = t \<and>
    (\<exists>r. r \<in> set (references e) \<and> map_of (retiring_aliases entries) r = Some s))"

lemma dependents_of_add: "dependents_of (add_dependent t r d) s = dependents_of d s \<union> (if s = r then {t} else {})"
  by (auto simp: dependents_of_def add_dependent_def update_conv' split: option.splits)

lemma dependents_of_adds: "dependents_of (fold (add_dependent t) rs d) s = dependents_of d s \<union> (if s \<in> set rs then {t} else {})"
  by (induction rs arbitrary: d) (auto simp: dependents_of_add)

lemma dependents_of_entries:
  "dependents_of (fold (\<lambda>e. fold (add_dependent (entry_store e)) (List.map_filter al (references e))) es d) s =
   dependents_of d s \<union> {entry_store e |e. e \<in> set es \<and> (\<exists>r. r \<in> set (references e) \<and> al r = Some s)}"
proof (induction es arbitrary: d)
  case (Cons e es)
  have "s \<in> set (List.map_filter al (references e)) \<longleftrightarrow> (\<exists>r. r \<in> set (references e) \<and> al r = Some s)"
    by (force simp: List.map_filter_def)
  then show ?case by (auto simp: Cons dependents_of_adds)
qed simp

lemma dependents_exact: "dependents_of (retiring_dependents entries) s = {t. depends entries s t}"
  unfolding retiring_dependents_def Let_def dependents_of_entries
  by (auto simp: depends_def dependents_of_def)

lemma finite_dependents: "finite (\<Union>s. dependents_of d s)"
proof -
  have "dependents_of d s \<subseteq> (\<Union>ds \<in> snd ` set d. set ds)" for s
    by (auto simp: dependents_of_def image_iff split: option.splits dest!: map_of_SomeD)
  then show ?thesis by (meson UN_least finite_UN_I finite_imageI finite_set finite_subset List.finite_set)
qed

lemma retiring_loop_step:
  "retiring_loop d [] R = Some R"
  "retiring_loop d (p @ [s]) R = (if s \<in> set R then retiring_loop d p R
     else retiring_loop d (p @ (case map_of d s of Some ds \<Rightarrow> ds | None \<Rightarrow> [])) (R @ [s]))"
  by (simp_all add: retiring_loop.simps [of d "[]"] retiring_loop.simps [of d "p @ [s]"] Let_def)

text \<open>What the loop returns: the retired stores, the pending ones, and everything reached from those; closed under dependents when
  what was retired before has its dependents retired or pending.\<close>

definition retires :: "(StoreHash \<times> StoreHash list) list \<Rightarrow> StoreHash list \<Rightarrow> StoreHash list \<Rightarrow> StoreHash list \<Rightarrow> bool" where
  "retires d p R res \<longleftrightarrow> distinct res \<and> set R \<union> set p \<subseteq> set res \<and> (\<forall>s. s \<in> set res \<longrightarrow> dependents_of d s \<subseteq> set res) \<and>
    set res \<subseteq> set R \<union> {t. \<exists>s. s \<in> set p \<and> (\<lambda>a b. b \<in> dependents_of d a)\<^sup>*\<^sup>* s t}"

lemma retires_seen: "retires d q R res \<Longrightarrow> s \<in> set R \<Longrightarrow> retires d (q @ [s]) R res"
  unfolding retires_def by (auto 0 3)

lemma retires_new:
  assumes "retires d (q @ ds) (R @ [s]) res" "set ds = dependents_of d s"
  shows "retires d (q @ [s]) R res"
proof -
  have "(\<lambda>a b. b \<in> dependents_of d a)\<^sup>*\<^sup>* s t" if "u \<in> set ds" "(\<lambda>a b. b \<in> dependents_of d a)\<^sup>*\<^sup>* u t" for u t
    using that assms(2) by (auto intro: converse_rtranclp_into_rtranclp)
  moreover have "set res \<subseteq> set (R @ [s]) \<union> {t. \<exists>u. u \<in> set (q @ ds) \<and> (\<lambda>a b. b \<in> dependents_of d a)\<^sup>*\<^sup>* u t}"
    using assms(1) by (simp only: retires_def)
  ultimately have "set res \<subseteq> set R \<union> {t. \<exists>u. u \<in> set (q @ [s]) \<and> (\<lambda>a b. b \<in> dependents_of d a)\<^sup>*\<^sup>* u t}"
    by fastforce
  then show ?thesis using assms(1) by (simp add: retires_def)
qed

lemma retiring_loop_result:
  assumes "finite U" "\<And>s. dependents_of d s \<subseteq> U" "set p \<subseteq> U" "distinct R"
    and "\<And>s. s \<in> set R \<Longrightarrow> dependents_of d s \<subseteq> set R \<union> set p"
  shows "\<exists>res. retiring_loop d p R = Some res \<and> retires d p R res"
  using assms(3-5)
proof (induction "(p, R)" arbitrary: p R rule: wf_induct_rule
    [OF wf_measures [of "[\<lambda>(p, R). card (U - set R), \<lambda>(p, R). length p]"]])
  case (1 p R)
  show ?case
  proof (cases p rule: rev_cases)
    case Nil
    then show ?thesis using 1(3,4) by (auto simp: retiring_loop_step retires_def)
  next
    case (snoc q s)
    let ?ds = "case map_of d s of Some ds \<Rightarrow> ds | None \<Rightarrow> []"
    have ds: "set ?ds = dependents_of d s" by (simp add: dependents_of_def split: option.split)
    show ?thesis
    proof (cases "s \<in> set R")
      case True
      have "\<exists>res. retiring_loop d q R = Some res \<and> retires d q R res"
        using 1(2-4) snoc True by (intro 1(1)) auto
      then show ?thesis using snoc True retires_seen by (auto simp: retiring_loop_step)
    next
      case False
      have "s \<in> U" using 1(2) snoc by simp
      then have "card (U - set (R @ [s])) < card (U - set R)"
        using assms(1) False by (intro psubset_card_mono) auto
      then have "\<exists>res. retiring_loop d (q @ ?ds) (R @ [s]) = Some res \<and> retires d (q @ ?ds) (R @ [s]) res"
        using 1(2-4) snoc False assms(2) ds by (intro 1(1)) (auto simp: ds)
      then show ?thesis using False retires_new [OF _ ds] by (auto simp: snoc retiring_loop_step)
    qed
  qed
qed

text \<open>Claim C40.  Finding what retires with a selection always ends, also when publications refer to each other or to themselves: it returns, each once, exactly
  the selected publications and everything that depends on one of them, directly or not.\<close>

theorem retiring_is_closure:
  "\<exists>stores. retiring_publications entries selected = Some stores \<and> distinct stores \<and>
    set stores = {t. \<exists>s. s \<in> set selected \<and> (depends entries)\<^sup>*\<^sup>* s t}"
proof -
  let ?d = "retiring_dependents entries"
  have rel: "(\<lambda>a b. b \<in> dependents_of ?d a) = depends entries" by (simp add: dependents_exact)
  have "\<exists>res. retiring_loop ?d selected [] = Some res \<and> retires ?d selected [] res"
    by (rule retiring_loop_result [where U = "set selected \<union> (\<Union>s. dependents_of ?d s)"]) (auto simp: finite_dependents)
  then obtain res where res: "retiring_loop ?d selected [] = Some res" "retires ?d selected [] res" by blast
  have "t \<in> set res" if "(depends entries)\<^sup>*\<^sup>* s t" "s \<in> set selected" for s t
    using that res(2) by (induction rule: rtranclp_induct) (auto simp: retires_def dependents_exact)
  then show ?thesis using res unfolding retiring_publications_def retires_def rel by auto
qed

subsection \<open>Planning\<close>

definition update_flat_last_use :: "encodings \<Rightarrow> (string list \<Rightarrow> nat option) \<Rightarrow> Entry list \<Rightarrow> Entry list" where
  "update_flat_last_use E recorded entries = map (\<lambda>e.
     let keys = narinfo_file (entry_store e) # List.map_filter (payload_access_key E) (entry_payload_names e) in
     e\<lparr> last_use := max (case recorded keys of Some t \<Rightarrow> t | None \<Rightarrow> modified e) (modified e) \<rparr>) entries"

definition payload_last_use_or_publication_time :: "(string list \<Rightarrow> nat option) \<Rightarrow> string option \<Rightarrow> nat \<Rightarrow> nat" where
  "payload_last_use_or_publication_time recorded key written =
    max (case recorded (case key of Some k \<Rightarrow> [k] | None \<Rightarrow> []) of Some t \<Rightarrow> t | None \<Rightarrow> written) written"

definition shield_entries :: "encodings \<Rightarrow> CollectionAccess \<Rightarrow> Entry list \<Rightarrow> Entry list" where
  "shield_entries E access entries = map (\<lambda>e. e\<lparr> protected := protected e
     \<or> access_protects access (ProtPublication (entry_store e)) \<or> access_protects_nar_name E access (raw_nar_name e) \<rparr>) entries"

definition eligible_count :: "encodings \<Rightarrow> Entry list \<Rightarrow> Orphan list \<Rightarrow> nat \<Rightarrow> nat \<Rightarrow> CollectionAccess \<Rightarrow> nat" where
  "eligible_count E entries orphans now minimum_age access =
    length (filter (\<lambda>e. \<not> protected e \<and> minimum_age \<le> now - modified e) entries)
    + length (filter (\<lambda>orphan. minimum_age \<le> now - orphan_modified orphan \<and> \<not> access_protects_nar_name E access (orphan_name orphan)) orphans)"

definition flat_retention_has_remaining_candidates ::
    "encodings \<Rightarrow> Entry list \<Rightarrow> nat list \<Rightarrow> Orphan list \<Rightarrow> nat list \<Rightarrow> nat \<Rightarrow> RetentionPolicy \<Rightarrow> CollectionAccess \<Rightarrow> bool" where
  "flat_retention_has_remaining_candidates E entries selected orphans doomed remaining policy access =
    (list_ex (\<lambda>(i, e). i \<notin> set selected \<and> reason policy (modified e) (protected e) remaining \<noteq> None) (enumerate 0 entries)
     \<or> list_ex (\<lambda>(i, orphan). i \<notin> set doomed
          \<and> reason policy (orphan_modified orphan) (access_protects_nar_name E access (orphan_name orphan)) remaining \<noteq> None) (enumerate 0 orphans))"

record FlatPlan =
  plan_entries :: "Entry list"
  plan_orphans :: "Orphan list"
  plan_selection :: FlatSelection
  plan_before :: nat
  plan_after :: nat
  plan_policy :: RetentionPolicy
  plan_access :: CollectionAccess

text \<open>The scans of the metadata and, given its result, of the orphans are inputs.\<close>

definition plan_flat_gc ::
    "encodings \<Rightarrow> GcOptions \<Rightarrow> nat option \<Rightarrow> Activity \<Rightarrow> CollectionAccess \<Rightarrow> (string list \<Rightarrow> nat option) \<Rightarrow> nat
      \<Rightarrow> Entry list \<Rightarrow> (Entry list \<Rightarrow> Orphan list) \<Rightarrow> FlatPlan" where
  "plan_flat_gc E options target activity access recorded now scanned scan_orphans =
    (let access = access_refresh activity access;
         entries = (if eviction_order (gc_retention options) = EvictLastUse then update_flat_last_use E recorded scanned else scanned);
         entries = fst (protect_entries (gc_protected_roots options) (shield_entries E access entries));
         orphans = scan_orphans entries;
         before = wrapping_add_u64 (total_bytes entries) (orphan_bytes orphans);
         policy = policy_new options before target now;
         selection = select_flat_candidates entries orphans before policy (\<lambda>orphan. access_protects_nar_name E access (orphan_name orphan))
           (\<lambda>orphan. payload_last_use_or_publication_time recorded (payload_access_key E (orphan_name orphan)) (orphan_modified orphan)) in
     \<lparr> plan_entries = entries, plan_orphans = orphans, plan_selection = selection, plan_before = before,
       plan_after = logical_after_bytes entries (selected_publications selection) orphans (selected_orphans selection),
       plan_policy = policy, plan_access = access \<rparr>)"

definition run_flat_gc ::
    "encodings \<Rightarrow> GcOptions \<Rightarrow> AdvertisementLeases \<Rightarrow> Activity \<Rightarrow> FlatPlan \<Rightarrow> (nat \<times> nat \<times> nat) gc" where
  "run_flat_gc E options leases activity plan =
    (case retiring_flat_objects E (plan_entries plan) (selected_publications (plan_selection plan)) (plan_orphans plan)
         (selected_orphans (plan_selection plan)) of
       None \<Rightarrow> failW GcPanic
     | Some retiring \<Rightarrow> (case access_authorize activity (plan_access plan) (gc_mode options) retiring of
           (Inl _, _) \<Rightarrow> failW GcBusy
         | (Inr _, activity) \<Rightarrow>
             if gc_mode options = DryRun then retW (0, 0, 0)
             else apply_collection E leases (Some activity) (plan_entries plan) (selected_publications (plan_selection plan))
               (plan_orphans plan) (selected_orphans (plan_selection plan))))"

subsection \<open>A leased object is not selected\<close>

lemma selected_members:
  assumes "selection = select_flat_candidates entries orphans current policy protects_orphan orphan_use"
  shows "i \<in> set (selected_publications selection) \<Longrightarrow> i < length entries \<and> \<not> protected (entries ! i)"
    and "i \<in> set (selected_orphans selection) \<Longrightarrow> i < length orphans \<and> \<not> protects_orphan (orphans ! i)"
proof -
  have shown: "reason policy written True bytes = None" for written bytes
    by (simp add: reason_def)
  note taken = taken_from_order [where policy = policy and entries = entries and orphans = orphans and current = current
      and protects_orphan = protects_orphan and orphan_use = orphan_use]
  show "i < length entries \<and> \<not> protected (entries ! i)" if "i \<in> set (selected_publications selection)"
    using that taken(3)
    by (cases "protected (entries ! i)") (auto simp: assms taken(1) set_candidate_order candidate_protected_def shown dest!: subsetD)
  show "i < length orphans \<and> \<not> protects_orphan (orphans ! i)" if "i \<in> set (selected_orphans selection)"
    using that taken(3)
    by (cases "protects_orphan (orphans ! i)") (auto simp: assms taken(1) set_candidate_order candidate_protected_def shown dest!: subsetD)
qed

lemma access_durable_protects:
  "durable_protects p object \<Longrightarrow> access_protects (access_refresh a (with_durable_protection access p)) object"
  "durable_protects_nar_name E p name \<Longrightarrow> access_protects_nar_name E (access_refresh a (with_durable_protection access p)) name"
  by (simp_all add: access_protects_def access_protects_nar_name_def access_refresh_def with_durable_protection_def
      split: CollectionAccess.split)

lemma plan_entry_protected:
  assumes "plan = plan_flat_gc E options target activity access recorded now scanned scan_orphans" "i < length (plan_entries plan)"
    and "access_protects (access_refresh activity access) (ProtPublication (entry_store (plan_entries plan ! i)))
      \<or> access_protects_nar_name E (access_refresh activity access) (raw_nar_name (plan_entries plan ! i))"
  shows "protected (plan_entries plan ! i)"
proof -
  define es where "es = shield_entries E (access_refresh activity access)
    (if eviction_order (gc_retention options) = EvictLastUse then update_flat_last_use E recorded scanned else scanned)"
  have entries: "plan_entries plan = fst (protect_entries (gc_protected_roots options) es)"
    by (simp add: assms(1) plan_flat_gc_def Let_def es_def)
  then have i: "i < length es" using assms(2) by (simp add: length_protect_entries)
  note nth = nth_protect_entries [OF i, of "gc_protected_roots options"]
  have "protected (es ! i)" using assms(3) i unfolding entries nth by (auto simp: es_def shield_entries_def split: if_splits)
  then show ?thesis by (simp add: entries nth)
qed


text \<open>The witness: of two old entries under pressure, the first has a lease.\<close>

definition lease_externals :: "(bytes, bytes) externals" where
  "lease_externals = \<lparr> uri_parse = (\<lambda>_. None), signature_from_slice = Some, key_from_bytes = Some, key_as_bytes = (\<lambda>k. k),
     key_is_weak = (\<lambda>_. False), verify_strict = (\<lambda>_ _ _. True) \<rparr>"

definition sample_lease_policy :: LeasePolicy where
  "sample_lease_policy = \<lparr> policy_version = 1, lifetime_seconds = 3600, policy_min_free_bytes = 0 \<rparr>"

definition sample_identity :: NarIdentity where
  "sample_identity = content_identity zero_digest (ByteCount 100)"

definition sample_lease :: AdvertisementLease where
  "sample_lease = \<lparr> lease_version = LEASE_VERSION, lease_identity = sample_identity, lease_retention = Until 4060,
     lease_output = OutputRaw, lease_source = None \<rparr>"

definition sample_options :: GcOptions where
  "sample_options = \<lparr> gc_retention = retention_default, gc_max_bytes = Some 0, gc_target = Some 0, gc_max_age = None,
     gc_min_age = 0, gc_protected_roots = [], gc_mode = Apply \<rparr>"

definition sample_plan :: FlatPlan where
  "sample_plan = plan_flat_gc standard_encodings sample_options (Some 0) (coordinator_new 0)
    (with_durable_protection (AccessOffline \<lparr> access_snapshot = \<lparr> snap_generation = 0, snap_protect_all_until = 0,
        snap_protection = SelectObjects [] \<rparr>, access_durable = ProtectionAbsent \<rparr>)
      (ProtectionRecorded [(StoreHash (ascii ''a''), 4060)] [zero_digest] [file_name_raw zero_digest] 3000))
    (\<lambda>_. None) 9000 [sample_entry ''a'' ''n'' [] 0, sample_entry ''b'' ''m'' [] 1] (\<lambda>_. [])"


end
