(* ===== verification/Token_File.thy ===== *)
theory Token_File
  imports Base_Codecs NarInfo_Trust
begin

section \<open>Token files (\<open>src/token_file.rs\<close>, \<open>src/token.rs\<close>)\<close>

text \<open>
  A token file holds one line per token: a label and the hexadecimal SHA-256 digest of the secret.  The model covers
  reading, looking up, inserting, removing and writing.  The check that the file is private is an input
  (\<open>validate_private_file\<close> is file-system code).  \<open>HEXLOWER\<close> comes from the \<open>data_encoding\<close> package and is a
  parameter; the locale \<open>hexlower_codec\<close> states its documented behaviour, and a concrete codec interprets it.
  Lookup runs in constant time over all records; the theorem says that it finds the first match.
\<close>

subsection \<open>The hexadecimal codec\<close>

record hexlower =
  hex_encode :: "bytes \<Rightarrow> bytes"
  hex_decode :: "bytes \<Rightarrow> bytes option"

definition HEX_SYMBOLS :: string where
  "HEX_SYMBOLS = ''0123456789abcdef''"

locale hexlower_codec =
  fixes enc :: "bytes \<Rightarrow> bytes" and dec :: "bytes \<Rightarrow> bytes option"
  assumes hex_symbols: "set (enc d) \<subseteq> set (ascii HEX_SYMBOLS)"
    and hex_length: "length (enc d) = 2 * length d"
    and hex_decode_encode: "dec (enc d) = Some d"
    and hex_encode_decode: "dec s = Some d \<Longrightarrow> enc d = s"

definition hex16_encode :: "bytes \<Rightarrow> bytes" where
  "hex16_encode d = concat (map (\<lambda>b. [symbol_at HEX_SYMBOLS (unat b div 16), symbol_at HEX_SYMBOLS (unat b mod 16)]) d)"

fun hex16_decode :: "bytes \<Rightarrow> bytes option" where
  "hex16_decode [] = Some []"
| "hex16_decode [x] = None"
| "hex16_decode (x # y # s) = (case (symbol_index HEX_SYMBOLS x, symbol_index HEX_SYMBOLS y) of
     (Some h, Some l) \<Rightarrow> map_option (Cons (of_nat (16 * h + l))) (hex16_decode s)
   | _ \<Rightarrow> None)"

lemma length_HEX_SYMBOLS [simp]: "length HEX_SYMBOLS = 16"
  by (simp add: HEX_SYMBOLS_def)

lemma distinct_HEX_SYMBOLS [simp]: "distinct HEX_SYMBOLS"
  by (simp add: HEX_SYMBOLS_def)

lemma unat_byte_less: "unat (b :: byte) < 256"
  using unsigned_less [of b, where ?'a = nat] by simp

lemma hex16_decode_encode: "hex16_decode (hex16_encode d) = Some d"
proof (induction d)
  case (Cons b d)
  have "unat b div 16 < 16" using unat_byte_less [of b] by (simp add: less_mult_imp_div_less)
  then have "symbol_index HEX_SYMBOLS (symbol_at HEX_SYMBOLS (unat b div 16)) = Some (unat b div 16)"
    by (intro symbol_index_at) simp_all
  moreover have "symbol_index HEX_SYMBOLS (symbol_at HEX_SYMBOLS (unat b mod 16)) = Some (unat b mod 16)"
    by (intro symbol_index_at) simp_all
  moreover have "(of_nat (16 * (unat b div 16) + unat b mod 16) :: byte) = b"
    by (simp only: mult_div_mod_eq) simp
  ultimately show ?case using Cons by (simp add: hex16_encode_def del: of_nat_add of_nat_mult)
qed (simp add: hex16_encode_def)

lemma hex16_encode_decode: "hex16_decode s = Some d \<Longrightarrow> hex16_encode d = s"
proof (induction s arbitrary: d rule: hex16_decode.induct)
  case (3 x y s)
  then obtain h l d' where h: "symbol_index HEX_SYMBOLS x = Some h" and l: "symbol_index HEX_SYMBOLS y = Some l"
    and d': "hex16_decode s = Some d'" and d: "d = of_nat (16 * h + l) # d'"
    by (auto split: option.splits)
  have less: "h < 16" "l < 16" using symbol_index_Some [OF h] symbol_index_Some [OF l] by simp_all
  then have "unat (of_nat (16 * h + l) :: byte) = 16 * h + l"
    by (simp add: unsigned_of_nat take_bit_nat_eq_self del: of_nat_add of_nat_mult)
  then have "hex16_encode d = [symbol_at HEX_SYMBOLS h, symbol_at HEX_SYMBOLS l] @ hex16_encode d'"
    using less by (simp add: d hex16_encode_def)
  then show ?case using 3 h l d' symbol_index_Some [OF h] symbol_index_Some [OF l] by simp
qed (simp_all add: hex16_encode_def)

lemma hex16_symbols: "set (hex16_encode d) \<subseteq> set (ascii HEX_SYMBOLS)"
proof -
  have "symbol_at HEX_SYMBOLS (unat b div 16) \<in> set (ascii HEX_SYMBOLS)" for b :: byte
    using unat_byte_less [of b] by (intro symbol_at_in) (simp add: less_mult_imp_div_less)
  moreover have "symbol_at HEX_SYMBOLS (unat b mod 16) \<in> set (ascii HEX_SYMBOLS)" for b :: byte
    by (intro symbol_at_in) simp
  ultimately show ?thesis by (auto simp: hex16_encode_def)
qed

interpretation hex16: hexlower_codec hex16_encode hex16_decode
proof
  show "length (hex16_encode d) = 2 * length d" for d by (induction d) (simp_all add: hex16_encode_def)
qed (rule hex16_symbols, rule hex16_decode_encode, rule hex16_encode_decode)

definition standard_hex :: hexlower where
  "standard_hex = \<lparr> hex_encode = hex16_encode, hex_decode = hex16_decode \<rparr>"

subsection \<open>Token files\<close>

definition TOKEN_BYTES :: nat where
  "TOKEN_BYTES = 32"

record TokenRecord =
  token_label :: string
  token_digest :: bytes

datatype TokenError = InsecurePermissions | TokenInvalid | InvalidLabel | TokenIo io_kind

definition valid_label :: "string \<Rightarrow> bool" where
  "valid_label label = (label \<noteq> [] \<and> list_all (\<lambda>c. ascii_alphanumeric c \<or> c \<in> set ''._-'') label)"

definition token_line :: "hexlower \<Rightarrow> string list \<times> TokenRecord list \<Rightarrow> string \<Rightarrow> TokenError + (string list \<times> TokenRecord list)" where
  "token_line H state line = (case state of (labels, records) \<Rightarrow>
    (case split_ascii_whitespace line of
       [label, encoded] \<Rightarrow>
         if \<not> valid_label label \<or> label \<in> set labels then Err TokenInvalid
         else (case hex_decode H (ascii encoded) of
            Some d \<Rightarrow> if length d = TOKEN_BYTES
              then Ok (label # labels, records @ [\<lparr> token_label = label, token_digest = d \<rparr>]) else Err TokenInvalid
          | None \<Rightarrow> Err TokenInvalid)
     | _ \<Rightarrow> Err TokenInvalid))"

definition token_read :: "hexlower \<Rightarrow> io_kind + unit \<Rightarrow> bytes \<Rightarrow> TokenError + TokenRecord list" where
  "token_read H private content = (case private of
      Inl IoInvalidData \<Rightarrow> Err InsecurePermissions
    | Inl k \<Rightarrow> Err (TokenIo k)
    | Inr _ \<Rightarrow>
        bindR (ok_or (TokenIo IoInvalidData) (from_utf8 content)) (\<lambda>contents.
        bindR (try_fold (token_line H) ([], []) (filter (\<lambda>line. line \<noteq> []) (str_lines contents))) (\<lambda>(labels, records).
        Ok records)))"

definition token_load :: "hexlower \<Rightarrow> io_kind + (io_kind + unit) \<times> bytes \<Rightarrow> TokenError + TokenRecord list option" where
  "token_load H opened = (case opened of
      Inl IoNotFound \<Rightarrow> Ok None
    | Inl k \<Rightarrow> Err (TokenIo k)
    | Inr (private, content) \<Rightarrow> bindR (token_read H private content) (\<lambda>records. Ok (Some records)))"

text \<open>The constant-time scan: \<open>take\<close> selects the position of the first equal digest, kept in 32 bits.\<close>

definition matching_step :: "bytes \<Rightarrow> nat \<times> TokenRecord \<Rightarrow> bool \<times> nat \<Rightarrow> bool \<times> nat" where
  "matching_step actual pr state = (case (pr, state) of ((position, record), (found, index)) \<Rightarrow>
     let equal = (token_digest record = actual); take_it = (equal \<and> \<not> found) in
     (found \<or> equal, if take_it then position mod 2 ^ 32 else index))"

definition matching_label :: "TokenRecord list \<Rightarrow> bytes \<Rightarrow> string option" where
  "matching_label records actual =
    (case fold (matching_step actual) (enumerate 0 records) (False, 0) of
       (found, index) \<Rightarrow> if found then Some (token_label (records ! index)) else None)"

definition token_insert :: "TokenRecord list \<Rightarrow> string \<Rightarrow> bytes \<Rightarrow> TokenError + bool \<times> TokenRecord list" where
  "token_insert records label digest =
    (if \<not> valid_label label then Err InvalidLabel
     else if list_ex (\<lambda>r. token_label r = label) records then Ok (False, records)
     else Ok (True, records @ [\<lparr> token_label = label, token_digest = digest \<rparr>]))"

definition token_remove :: "TokenRecord list \<Rightarrow> string \<Rightarrow> bool \<times> TokenRecord list" where
  "token_remove records label =
    (let kept = filter (\<lambda>r. token_label r \<noteq> label) records in (length kept \<noteq> length records, kept))"

definition token_store :: "hexlower \<Rightarrow> TokenRecord list \<Rightarrow> bytes" where
  "token_store H records = concat (map (\<lambda>r.
     ascii (token_label r) @ ascii '' '' @ hex_encode H (token_digest r) @ ascii [CHR 0x0A]) records)"

text \<open>\<open>create_secret_token\<close> and \<open>revoke\<close>: the random bytes and the hash function are inputs, the result is the new
  content of the file.\<close>

datatype TokenCommandError = CannotUpdate TokenError | LabelExists | UnknownLabel

definition create_secret_token ::
    "hexlower \<Rightarrow> (bytes \<Rightarrow> bytes) \<Rightarrow> io_kind + (io_kind + unit) \<times> bytes \<Rightarrow> string \<Rightarrow> bytes \<Rightarrow> TokenCommandError + bytes \<times> bytes" where
  "create_secret_token H sha256 opened name random =
    bindR (map_err CannotUpdate (token_load H opened)) (\<lambda>loaded.
    let tokens = (case loaded of Some t \<Rightarrow> t | None \<Rightarrow> []); secret = hex_encode H random in
    bindR (map_err CannotUpdate (token_insert tokens name (sha256 secret))) (\<lambda>(inserted, tokens).
    if \<not> inserted then Err LabelExists else Ok (secret, token_store H tokens)))"

definition token_revoke ::
    "hexlower \<Rightarrow> io_kind + (io_kind + unit) \<times> bytes \<Rightarrow> string \<Rightarrow> TokenCommandError + bytes" where
  "token_revoke H opened name =
    bindR (map_err CannotUpdate (token_load H opened)) (\<lambda>loaded.
    let tokens = (case loaded of Some t \<Rightarrow> t | None \<Rightarrow> []) in
    case token_remove tokens name of (removed, tokens) \<Rightarrow>
      if \<not> removed then Err UnknownLabel else Ok (token_store H tokens))"

subsection \<open>Lookup\<close>

lemma matching_step_pair: "matching_step actual (position, record) (found, index) =
    (found \<or> token_digest record = actual, if token_digest record = actual \<and> \<not> found then position mod 2 ^ 32 else index)"
  by (simp add: matching_step_def Let_def)

lemma matching_fold_found:
  "fold (matching_step actual) prs (True, index) = (True, index)"
proof (induction prs)
  case (Cons pr prs)
  then show ?case by (cases pr) (simp add: matching_step_pair)
qed simp

lemma matching_fold:
  assumes "n + length records \<le> 2 ^ 32"
  shows "fold (matching_step actual) (enumerate n records) (False, i) =
    (let k = length (takeWhile (\<lambda>r. token_digest r \<noteq> actual) records) in
     if k < length records then (True, n + k) else (False, i))"
  using assms
proof (induction records arbitrary: n)
  case (Cons r records)
  show ?case
  proof (cases "token_digest r = actual")
    case True
    with Cons.prems show ?thesis by (simp add: matching_step_pair Let_def matching_fold_found)
  next
    case False
    with Cons show ?thesis by (simp add: matching_step_pair Let_def)
  qed
qed simp

lemma find_takeWhile:
  "find P xs = (let k = length (takeWhile (\<lambda>x. \<not> P x) xs) in if k < length xs then Some (xs ! k) else None)"
  by (induction xs) (simp_all add: Let_def)

lemma matching_label_find:
  assumes "length records \<le> 2 ^ 32"
  shows "matching_label records actual = map_option token_label (find (\<lambda>r. token_digest r = actual) records)"
  using assms matching_fold [of 0 records actual 0] by (simp add: matching_label_def find_takeWhile Let_def)

subsection \<open>Reading what was written\<close>

definition tokens_wf :: "TokenRecord list \<Rightarrow> bool" where
  "tokens_wf records = (distinct (map token_label records)
    \<and> (\<forall>r \<in> set records. valid_label (token_label r) \<and> length (token_digest r) = TOKEN_BYTES))"

lemma valid_label_text:
  assumes "valid_label l"
  shows "list_all (\<lambda>c. \<not> ascii_whitespace c) l" and "is_ascii l" and "l \<noteq> []"
proof -
  have "\<not> ascii_whitespace c \<and> of_char c < (128 :: nat)" if "ascii_alphanumeric c \<or> c \<in> set ''._-''" for c
    using that by (auto simp: ascii_alphanumeric_def ascii_digit_def ascii_whitespace_def)
  then show "list_all (\<lambda>c. \<not> ascii_whitespace c) l" "is_ascii l"
    using assms by (auto simp: valid_label_def list_all_iff is_ascii_def)
  show "l \<noteq> []" using assms by (simp add: valid_label_def)
qed

lemma hex_text:
  assumes "hexlower_codec enc dec"
  shows "list_all (\<lambda>c. \<not> ascii_whitespace c) (str_of (enc d))" and "is_ascii (str_of (enc d))"
proof -
  have "list_all (\<lambda>c. \<not> ascii_whitespace c \<and> of_char c < (128 :: nat)) HEX_SYMBOLS"
    by (simp add: HEX_SYMBOLS_def ascii_whitespace_def)
  moreover have "set (str_of (enc d)) \<subseteq> set (str_of (ascii HEX_SYMBOLS))"
    unfolding str_of_def set_map by (rule image_mono) (rule hexlower_codec.hex_symbols [OF assms])
  ultimately show "list_all (\<lambda>c. \<not> ascii_whitespace c) (str_of (enc d))" "is_ascii (str_of (enc d))"
    unfolding str_of_ascii by (auto simp: list_all_iff is_ascii_def)
qed

abbreviation hex_of :: "hexlower \<Rightarrow> bool" where
  "hex_of H \<equiv> hexlower_codec (hex_encode H) (hex_decode H)"

definition token_text :: "hexlower \<Rightarrow> TokenRecord \<Rightarrow> string" where
  "token_text H r = token_label r @ '' '' @ str_of (hex_encode H (token_digest r))"

lemma token_store_text: "token_store H records = ascii (unlines (map (token_text H) records))"
proof -
  have "ascii (concat ls) = concat (map ascii ls)" for ls by (induction ls) (simp_all add: ascii_def)
  moreover have app: "ascii (a @ b) = ascii a @ ascii b" for a b by (simp add: ascii_def)
  have "ascii (token_text H r @ [CHR 0x0A]) =
      ascii (token_label r) @ ascii '' '' @ hex_encode H (token_digest r) @ ascii [CHR 0x0A]" for r
    by (simp only: token_text_def app ascii_str_of append_assoc)
  ultimately show ?thesis by (simp add: token_store_def unlines_def comp_def)
qed

lemma token_text_plain:
  assumes "hex_of H" "valid_label (token_label r)"
  shows "CHR 0x0A \<notin> set (token_text H r)" and "CHR 0x0D \<notin> set (token_text H r)"
    and "is_ascii (token_text H r)" and "token_text H r \<noteq> []"
proof -
  have "\<not> ascii_whitespace c \<or> c = CHR '' ''" if "c \<in> set (token_text H r)" for c
    using that hex_text(1) [OF assms(1), of "token_digest r"] valid_label_text(1) [OF assms(2)]
    by (auto simp: token_text_def list_all_iff)
  moreover have "ascii_whitespace (CHR 0x0A)" "ascii_whitespace (CHR 0x0D)" by (simp_all add: ascii_whitespace_def)
  ultimately show "CHR 0x0A \<notin> set (token_text H r)" "CHR 0x0D \<notin> set (token_text H r)" by fastforce+
  show "is_ascii (token_text H r)"
    using hex_text(2) [OF assms(1)] valid_label_text(2) [OF assms(2)] by (simp add: token_text_def)
  show "token_text H r \<noteq> []" by (simp add: token_text_def)
qed

lemma token_line_text:
  assumes H: "hex_of H" and r: "valid_label (token_label r)" "length (token_digest r) = TOKEN_BYTES" "token_label r \<notin> set labels"
  shows "token_line H (labels, records) (token_text H r) = Ok (token_label r # labels, records @ [r])"
proof -
  have "length (hex_encode H (token_digest r)) = 2 * TOKEN_BYTES"
    using hexlower_codec.hex_length [OF H] r(2) by simp
  then have "str_of (hex_encode H (token_digest r)) \<noteq> []" by (auto simp: str_of_def TOKEN_BYTES_def)
  then have "split_ascii_whitespace (join '' '' [token_label r, str_of (hex_encode H (token_digest r))]) =
      [token_label r, str_of (hex_encode H (token_digest r))]"
    using hex_text [OF H] valid_label_text [OF r(1)] by (intro split_whitespace_join) auto
  then show ?thesis
    using r hexlower_codec.hex_decode_encode [OF H] by (simp add: token_line_def token_text_def)
qed

lemma token_lines_fold:
  assumes H: "hex_of H" and "tokens_wf (acc @ records)"
  shows "try_fold (token_line H) (rev (map token_label acc), acc) (map (token_text H) records) =
    Ok (rev (map token_label (acc @ records)), acc @ records)"
  using assms(2)
proof (induction records arbitrary: acc)
  case (Cons r records)
  have "token_line H (rev (map token_label acc), acc) (token_text H r) = Ok (token_label r # rev (map token_label acc), acc @ [r])"
    using Cons.prems by (intro token_line_text [OF H]) (auto simp: tokens_wf_def)
  with Cons.IH [of "acc @ [r]"] Cons.prems show ?case by simp
qed simp

lemma token_read_store:
  assumes H: "hex_of H" and wf: "tokens_wf records"
  shows "token_read H (Ok ()) (token_store H records) = Ok records"
proof -
  have valid: "valid_label (token_label r)" if "r \<in> set records" for r using that wf by (simp add: tokens_wf_def)
  have "str_lines (unlines (map (token_text H) records)) = map (token_text H) records"
  proof (rule str_lines_unlines)
    fix l assume "l \<in> set (map (token_text H) records)"
    then obtain r where "r \<in> set records" "l = token_text H r" by auto
    then show "CHR 0x0A \<notin> set l \<and> CHR 0x0D \<notin> set l" using token_text_plain [OF H valid] by simp
  qed
  moreover have "is_ascii (unlines (map (token_text H) records))"
    using valid by (induction records) (simp_all add: unlines_def token_text_plain [OF H])
  moreover have "filter (\<lambda>l. l \<noteq> []) (map (token_text H) records) = map (token_text H) records"
    by (rule filter_True) (auto simp: token_text_def)
  moreover have "try_fold (token_line H) ([], []) (map (token_text H) records) = Ok (rev (map token_label records), records)"
    using token_lines_fold [OF H, of "[]" records] wf by simp
  ultimately show ?thesis
    by (simp add: token_read_def token_store_text from_utf8_ascii ok_or_def bindR_def)
qed

subsection \<open>What is read is well formed\<close>

lemma token_line_keeps:
  assumes "token_line H (labels, records) line = Ok (labels', records')"
    and "set labels = set (map token_label records)" "tokens_wf records"
  shows "set labels' = set (map token_label records') \<and> tokens_wf records'"
  using assms by (auto simp: token_line_def tokens_wf_def split: list.splits if_splits option.splits)

lemma token_read_wf:
  assumes "token_read H private content = Ok records"
  shows "tokens_wf records"
proof -
  obtain ls labels where "try_fold (token_line H) ([], []) ls = Ok (labels, records)"
    using assms by (auto simp: token_read_def run_simps split: sum.splits io_kind.splits)
  then have "(\<lambda>(labels, records). set labels = set (map token_label records) \<and> tokens_wf records) (labels, records)"
  proof (rule try_fold_invariant)
    show "(\<lambda>(labels, records). set labels = set (map token_label records) \<and> tokens_wf records) ([], [])"
      by (simp add: tokens_wf_def)
    fix a line a'
    assume "case a of (labels, records) \<Rightarrow> set labels = set (map token_label records) \<and> tokens_wf records"
      and "token_line H a line = Inr a'"
    then show "case a' of (labels, records) \<Rightarrow> set labels = set (map token_label records) \<and> tokens_wf records"
      using token_line_keeps [of H "fst a" "snd a" line "fst a'" "snd a'"] by (simp add: case_prod_beta)
  qed
  then show ?thesis by simp
qed

end
