(* ===== verification/Publication_Record.thy ===== *)
theory Publication_Record
  imports Token_File Store_Ids Io_Stream "HOL-Library.AList"
begin

section \<open>Publication records (\<open>src/storage/publication_record.rs\<close>)\<close>

text \<open>
  For every publication the cache keeps a small text record, also for a week after its removal, and an index from payload
  names to the publication that owns them.  The two directories are association lists from file names to contents; a missing
  directory is an empty one.  A file is replaced atomically.  Every access to the file system draws an outcome.  A
  \<open>SystemTime\<close> is a number of nanoseconds from the Unix epoch, which has 63 bits of seconds.
\<close>

subsection \<open>The text of a record\<close>

definition MAX_RECORD_BYTES :: nat where
  "MAX_RECORD_BYTES = 4096"

definition RETENTION :: int where
  "RETENTION = 7 * 24 * 60 * 60 * 10 ^ 9"

datatype PubError = PubIo io_kind | PubInvalid

record PublicationRecord =
  pub_store_path :: string
  published_at :: int
  writer :: "string option"
  removed_at :: "int option"
  nar_file :: "string option"

definition single_line :: "string \<Rightarrow> bool" where
  "single_line value \<longleftrightarrow> value \<noteq> [] \<and> \<not> list_ex ascii_whitespace value"

definition unix_seconds :: "int \<Rightarrow> PubError + nat" where
  "unix_seconds time = (if time < 0 then Err PubInvalid else Ok (nat (time div 10 ^ 9)))"

definition system_time :: "string \<Rightarrow> PubError + int" where
  "system_time seconds = bindR (ok_or PubInvalid (parse_u64 seconds)) (\<lambda>s.
     if s < 2 ^ 63 then Ok (int s * 10 ^ 9) else Err PubInvalid)"

definition record_expired :: "int \<Rightarrow> int \<Rightarrow> bool" where
  "record_expired removed now \<longleftrightarrow> removed \<le> now \<and> RETENTION < now - removed"

definition optional_line :: "string \<Rightarrow> string option \<Rightarrow> string" where
  "optional_line name value = (case value of Some v \<Rightarrow> name @ '' '' @ v | None \<Rightarrow> name)"

definition encode_record :: "PublicationRecord \<Rightarrow> PubError + bytes" where
  "encode_record record =
    bindR (unix_seconds (published_at record)) (\<lambda>published.
    bindR (traverse_option unix_seconds (removed_at record)) (\<lambda>removed.
    let bytes = ascii (unlines [''v1'', ''path '' @ pub_store_path record, ''published '' @ u64_to_string published,
          optional_line ''writer'' (writer record), optional_line ''removed'' (map_option u64_to_string removed),
          optional_line ''nar'' (nar_file record)]) in
    if MAX_RECORD_BYTES < length bytes then Err PubInvalid else Ok bytes))"

definition publication_field :: "string option \<Rightarrow> string \<Rightarrow> PubError + string" where
  "publication_field line name = (case line of
      None \<Rightarrow> Err PubInvalid
    | Some line \<Rightarrow> (case strip_prefix name line of
          None \<Rightarrow> Err PubInvalid
        | Some rest \<Rightarrow> if rest = [] then Ok [] else ok_or PubInvalid (strip_prefix '' '' rest)))"

text \<open>\<open>next\<close> on the iterator of lines.\<close>

fun next_line :: "string list \<Rightarrow> string option \<times> string list" where
  "next_line [] = (None, [])"
| "next_line (l # ls) = (Some l, ls)"

definition parse_record :: "encodings \<Rightarrow> string \<Rightarrow> PubError + PublicationRecord" where
  "parse_record E text = (case next_line (str_lines text) of
      (None, _) \<Rightarrow> Err PubInvalid
    | (Some version, lines) \<Rightarrow>
    if version \<noteq> ''v1'' then Err PubInvalid
    else case next_line lines of (l, lines) \<Rightarrow>
    bindR (publication_field l ''path'') (\<lambda>path.
    if \<not> single_line path then Err PubInvalid
    else case next_line lines of (l, lines) \<Rightarrow>
    bindR (bindR (publication_field l ''published'') system_time) (\<lambda>published.
    case next_line lines of (l, lines) \<Rightarrow>
    bindR (bindR (publication_field l ''writer'') (\<lambda>label.
      if label = [] then Ok None else if valid_label label then Ok (Some label) else Err PubInvalid)) (\<lambda>label.
    case next_line lines of (l, lines) \<Rightarrow>
    bindR (bindR (publication_field l ''removed'') (\<lambda>seconds.
      if seconds = [] then Ok None else bindR (system_time seconds) (\<lambda>t. Ok (Some t)))) (\<lambda>removed.
    case next_line lines of (l, lines) \<Rightarrow>
    bindR (case l of None \<Rightarrow> Ok None
      | Some _ \<Rightarrow> bindR (publication_field l ''nar'') (\<lambda>name.
          if name = [] then Ok None
          else (case file_name_parse E name of Inl _ \<Rightarrow> Err PubInvalid | Inr _ \<Rightarrow> Ok (Some name)))) (\<lambda>name.
    if fst (next_line lines) \<noteq> None then Err PubInvalid
    else Ok \<lparr> pub_store_path = path, published_at = published, writer = label, removed_at = removed, nar_file = name \<rparr>))))))"

definition read_limited :: "bytes \<Rightarrow> PubError + string" where
  "read_limited file = (let bytes = take (MAX_RECORD_BYTES + 1) file in
     if MAX_RECORD_BYTES < length bytes then Err PubInvalid else ok_or PubInvalid (from_utf8 bytes))"

definition encode_nar_owner :: "StoreHash \<Rightarrow> bytes" where
  "encode_nar_owner store = ascii (store_hash_str store @ [CHR 0x0A])"

definition read_nar_owner :: "bytes \<Rightarrow> PubError + StoreHash" where
  "read_nar_owner file = (let bytes = take 34 file in
     if length bytes \<noteq> 33 then Err PubInvalid
     else bindR (ok_or PubInvalid (from_utf8 bytes)) (\<lambda>text.
       bindR (ok_or PubInvalid (strip_suffix [CHR 0x0A] text)) (\<lambda>hash.
         case store_hash_parse hash of Inl _ \<Rightarrow> Err PubInvalid | Inr store \<Rightarrow> Ok store)))"

subsection \<open>A record reads back\<close>

definition time_ok :: "int \<Rightarrow> bool" where
  "time_ok t \<longleftrightarrow> 0 \<le> t \<and> t < 2 ^ 63 * 10 ^ 9"

definition record_wf :: "encodings \<Rightarrow> PublicationRecord \<Rightarrow> bool" where
  "record_wf E r \<longleftrightarrow> single_line (pub_store_path r) \<and> valid_utf8 (ascii (pub_store_path r)) \<and> time_ok (published_at r) \<and>
    pred_option valid_label (writer r) \<and> pred_option time_ok (removed_at r) \<and>
    pred_option (\<lambda>name. is_ascii name \<and> single_line name \<and> (\<exists>n. file_name_parse E name = Ok n)) (nar_file r)"

definition whole_seconds :: "int \<Rightarrow> int" where
  "whole_seconds t = t div 10 ^ 9 * 10 ^ 9"

definition stored :: "PublicationRecord \<Rightarrow> PublicationRecord" where
  "stored r = r\<lparr> published_at := whole_seconds (published_at r), removed_at := map_option whole_seconds (removed_at r) \<rparr>"

lemma div_less_int: "t div c < b" if "t < b * c" "0 < c" for t b c :: int
proof (rule ccontr)
  assume "\<not> t div c < b"
  then have "b * c \<le> t div c * c" using that(2) by (simp add: mult_right_mono)
  also have "\<dots> \<le> t" using that(2) by (simp add: minus_mod_eq_div_mult [symmetric])
  finally show False using that(1) by simp
qed

lemma time_ok_div: "time_ok t \<Longrightarrow> 0 \<le> t div 10 ^ 9 \<and> t div 10 ^ 9 < 2 ^ 63"
  unfolding time_ok_def by (intro conjI div_less_int) (simp_all only: pos_imp_zdiv_nonneg_iff zero_less_power zero_less_numeral)

lemma time_ok_whole: "time_ok t \<Longrightarrow> time_ok (whole_seconds t)"
  using time_ok_div [of t] by (simp add: time_ok_def whole_seconds_def)

lemma seconds_bound: "time_ok t \<Longrightarrow> nat (t div 10 ^ 9) < 2 ^ 63"
  using time_ok_div [of t] by (simp add: nat_less_iff)

lemma unix_seconds_ok: "time_ok t \<Longrightarrow> unix_seconds t = Ok (nat (t div 10 ^ 9))"
  by (simp add: unix_seconds_def time_ok_def)

lemma system_time_seconds: "time_ok t \<Longrightarrow> system_time (u64_to_string (nat (t div 10 ^ 9))) = Ok (whole_seconds t)"
  using seconds_bound [of t] time_ok_div [of t]
  by (simp add: system_time_def ok_or_def bindR_def u64_max_def whole_seconds_def)

lemma publication_field_optional [simp]:
  "publication_field (Some (optional_line name value)) name = Ok (case value of Some v \<Rightarrow> v | None \<Rightarrow> [])"
  using strip_prefix_append [of name "[]"] by (simp add: publication_field_def optional_line_def ok_or_def split: option.split)

lemma publication_field_value: "publication_field (Some (name @ '' '' @ v)) name = Ok v"
  using publication_field_optional [of name "Some v"] by (simp add: optional_line_def)

lemma single_line_text: "single_line s \<Longrightarrow> CHR 0x0A \<notin> set s \<and> CHR 0x0D \<notin> set s"
  by (auto simp: single_line_def list_ex_iff ascii_whitespace_def)

lemma record_lines_text:
  assumes "record_wf E r"
  shows "\<forall>l \<in> set [''v1'', ''path '' @ pub_store_path r, ''published '' @ u64_to_string m, optional_line ''writer'' (writer r),
      optional_line ''removed'' (map_option u64_to_string k), optional_line ''nar'' (nar_file r)].
    CHR 0x0A \<notin> set l \<and> CHR 0x0D \<notin> set l \<and> valid_utf8 (ascii l)"
proof -
  have digits: "CHR 0x0A \<notin> set (u64_to_string n) \<and> CHR 0x0D \<notin> set (u64_to_string n) \<and> is_ascii (u64_to_string n)" for n
  proof -
    have "c \<noteq> CHR 0x0A \<and> c \<noteq> CHR 0x0D \<and> of_char c < (128 :: nat)" if "ascii_digit c" for c
      using that by (auto simp: ascii_digit_def)
    then show ?thesis using u64_to_string_digits [of _ n] unfolding is_ascii_def by blast
  qed
  have label: "CHR 0x0A \<notin> set l \<and> CHR 0x0D \<notin> set l \<and> is_ascii l" if "valid_label l" for l
    using valid_label_text [OF that] by (auto simp: list_all_iff ascii_whitespace_def)
  have opt: "CHR 0x0A \<notin> set (optional_line name v) \<and> CHR 0x0D \<notin> set (optional_line name v) \<and> valid_utf8 (ascii (optional_line name v))"
    if "is_ascii name" "CHR 0x0A \<notin> set name" "CHR 0x0D \<notin> set name" "pred_option (\<lambda>l. CHR 0x0A \<notin> set l \<and> CHR 0x0D \<notin> set l \<and> is_ascii l) v"
    for name v
    using that by (cases v) (auto simp: optional_line_def intro!: valid_utf8_ascii)
  have "pred_option (\<lambda>l. CHR 0x0A \<notin> set l \<and> CHR 0x0D \<notin> set l \<and> is_ascii l) (nar_file r)"
    "pred_option (\<lambda>l. CHR 0x0A \<notin> set l \<and> CHR 0x0D \<notin> set l \<and> is_ascii l) (writer r)"
    "pred_option (\<lambda>l. CHR 0x0A \<notin> set l \<and> CHR 0x0D \<notin> set l \<and> is_ascii l) (map_option u64_to_string k)"
    using assms label digits single_line_text by (auto simp: record_wf_def pred_option_def)
  moreover have "valid_utf8 (ascii (''path '' @ pub_store_path r))"
    using assms valid_utf8_append [OF valid_utf8_ascii, of "''path ''" "ascii (pub_store_path r)"]
    by (simp add: record_wf_def ascii_def)
  moreover have "valid_utf8 (ascii ''v1'')" "valid_utf8 (ascii (''published '' @ u64_to_string m))"
    using digits [of m] by (auto intro!: valid_utf8_ascii)
  ultimately show ?thesis
    using opt assms digits [of m] single_line_text by (auto simp: record_wf_def)
qed

lemma valid_utf8_unlines: "\<forall>l \<in> set ls. valid_utf8 (ascii l) \<Longrightarrow> valid_utf8 (ascii (unlines ls))"
proof (induction ls)
  case (Cons l ls)
  have nl: "valid_utf8 (ascii [CHR 0x0A])" by (rule valid_utf8_ascii) simp
  have "ascii (unlines (l # ls)) = ascii l @ ascii [CHR 0x0A] @ ascii (unlines ls)"
    by (simp add: unlines_def ascii_def)
  then show ?case using Cons nl by (simp add: valid_utf8_append)
qed (simp add: unlines_def ascii_def)

lemma pred_option_cases: "pred_option P x \<longleftrightarrow> (case x of None \<Rightarrow> True | Some v \<Rightarrow> P v)"
  by (cases x) simp_all

lemma parse_encode_record:
  assumes wf: "record_wf E r" and encode: "encode_record r = Ok bs"
  shows "\<exists>text. read_limited bs = Ok text \<and> parse_record E text = Ok (stored r)"
proof -
  define m where "m = nat (published_at r div 10 ^ 9)"
  define k where "k = map_option (\<lambda>t. nat (t div 10 ^ 9)) (removed_at r)"
  let ?lines = "[''v1'', ''path '' @ pub_store_path r, ''published '' @ u64_to_string m, optional_line ''writer'' (writer r),
      optional_line ''removed'' (map_option u64_to_string k), optional_line ''nar'' (nar_file r)]"
  have times: "unix_seconds (published_at r) = Ok m" "traverse_option unix_seconds (removed_at r) = Ok k"
    using wf unix_seconds_ok
    by (auto simp: record_wf_def m_def k_def traverse_option_def bindR_def pred_option_cases split: option.splits)
  have bs: "bs = ascii (unlines ?lines)" "length bs \<le> MAX_RECORD_BYTES"
    using encode times by (auto simp: encode_record_def bindR_def Let_def split: if_splits)
  note chars = record_lines_text [OF wf, of m k]
  have "read_limited bs = Ok (unlines ?lines)"
    using bs valid_utf8_unlines [of ?lines] chars by (simp add: read_limited_def ok_or_def from_utf8_def)
  moreover have lines: "str_lines (unlines ?lines) = ?lines"
    using chars by (intro str_lines_unlines) blast
  moreover have published: "system_time (u64_to_string m) = Ok (whole_seconds (published_at r))"
    unfolding m_def by (rule system_time_seconds) (use wf in \<open>simp add: record_wf_def\<close>)
  moreover have "removed_at r = Some t \<Longrightarrow> system_time (u64_to_string (nat (t div 10 ^ 9))) = Ok (whole_seconds t)" for t
    by (rule system_time_seconds) (use wf in \<open>simp add: record_wf_def\<close>)
  moreover have path: "publication_field (Some (''path '' @ pub_store_path r)) ''path'' = Ok (pub_store_path r)"
    "publication_field (Some (''published '' @ u64_to_string m)) ''published'' = Ok (u64_to_string m)"
    using publication_field_value [of "''path''"] publication_field_value [of "''published''"] by simp_all
  moreover have "writer r = Some l \<Longrightarrow> valid_label l \<and> l \<noteq> []" for l
    using wf valid_label_text(3) by (auto simp: record_wf_def)
  moreover have "nar_file r = Some l \<Longrightarrow> (\<exists>n. file_name_parse E l = Ok n) \<and> l \<noteq> []" for l
    using wf by (auto simp: record_wf_def single_line_def)
  ultimately show ?thesis
    using wf
    by (cases "writer r"; cases "removed_at r"; cases "nar_file r")
      (auto simp: parse_record_def lines bindR_def record_wf_def stored_def k_def simp del: append_Cons append.simps)
qed

lemma file_name_text:
  assumes "nix32_of E"
  shows "is_ascii (file_name_display E n) \<and> single_line (file_name_display E n)"
proof -
  have "c \<in> set NIX32 \<Longrightarrow> of_char c < (128 :: nat) \<and> \<not> ascii_whitespace c" for c
    by (auto simp: NIX32_def ascii_whitespace_def)
  then have "is_ascii (digest_display E d) \<and> \<not> list_ex ascii_whitespace (digest_display E d)" for d
    using digest_display_chars [OF assms, of d] unfolding is_ascii_def list_ex_iff by blast
  moreover have "is_ascii (wire_suffix e) \<and> \<not> list_ex ascii_whitespace (wire_suffix e) \<and> wire_suffix e \<noteq> []" for e
    by (auto simp: wire_suffix_def codec_suffix_def ascii_whitespace_def split: WireEncoding.split CompressionCodec.split)
  ultimately show ?thesis by (simp add: file_name_display_def single_line_def)
qed

lemma read_encode_owner:
  assumes "store_hash_wf s"
  shows "read_nar_owner (encode_nar_owner s) = Ok s"
proof -
  let ?s = "store_hash_str s"
  have len: "length ?s = 32" using assms by (simp add: store_hash_wf_def valid_nix32_def)
  have "from_utf8 (ascii (?s @ [CHR 0x0A])) = Some (?s @ [CHR 0x0A])"
    using store_hash_ascii [OF assms] by (intro from_utf8_ascii) simp
  moreover have "strip_suffix [CHR 0x0A] (?s @ [CHR 0x0A]) = Some ?s" by (simp add: strip_suffix_Some)
  moreover have "store_hash_parse ?s = Ok s" using assms by (simp add: store_hash_parse_iff)
  ultimately show ?thesis
    using len by (simp add: read_nar_owner_def encode_nar_owner_def Let_def ok_or_def bindR_def)
qed

subsection \<open>The two directories\<close>

record PubWorld =
  record_files :: "(string \<times> bytes) list"
  name_files :: "(string \<times> bytes) list"
  pub_outcomes :: "io_kind Outcome list"

type_synonym 'a pub = "(PubWorld, PubError, 'a) run"

definition pub_step :: "(PubWorld \<Rightarrow> PubWorld) \<Rightarrow> unit pub" where
  "pub_step f = (\<lambda>w. case next_outcome (pub_outcomes w) of (outcome, os) \<Rightarrow> let w = w\<lparr> pub_outcomes := os \<rparr> in
    case outcome of
      Succeeds \<Rightarrow> (Ok (), f w)
    | FailsBefore k \<Rightarrow> (Err (PubIo k), w)
    | FailsAfter k \<Rightarrow> (Err (PubIo k), f w))"

text \<open>Reading a file; a missing directory or file is \<open>None\<close>.\<close>

definition pub_open :: "(PubWorld \<Rightarrow> (string \<times> bytes) list) \<Rightarrow> string \<Rightarrow> bytes option pub" where
  "pub_open files name = (\<lambda>w. case pub_step (\<lambda>w. w) w of
      (Inl e, w) \<Rightarrow> (if e = PubIo IoNotFound then Ok None else Err e, w)
    | (Inr _, w) \<Rightarrow> (Ok (map_of (files w) name), w))"

text \<open>Unlinking a file and syncing its directory; that it is missing is fine.\<close>

definition pub_unlink :: "(PubWorld \<Rightarrow> PubWorld) \<Rightarrow> unit pub" where
  "pub_unlink f = (\<lambda>w. case pub_step f w of
      (Inl e, w) \<Rightarrow> (if e = PubIo IoNotFound then Ok () else Err e, w)
    | (Inr _, w) \<Rightarrow> pub_step (\<lambda>w. w) w)"

definition unlink_record :: "string \<Rightarrow> unit pub" where
  "unlink_record name = pub_unlink (\<lambda>w. w\<lparr> record_files := AList.delete name (record_files w) \<rparr>)"

definition unlink_name :: "string \<Rightarrow> unit pub" where
  "unlink_name name = pub_unlink (\<lambda>w. w\<lparr> name_files := AList.delete name (name_files w) \<rparr>)"

definition liftW :: "'e + 'a \<Rightarrow> ('s, 'e, 'a) run" where
  "liftW r = (\<lambda>w. (r, w))"

definition write_record :: "StoreHash \<Rightarrow> PublicationRecord \<Rightarrow> unit pub" where
  "write_record store record = thenW (pub_step (\<lambda>w. w)) (bindW (liftW (encode_record record)) (\<lambda>bytes.
     pub_step (\<lambda>w. w\<lparr> record_files := AList.update (store_hash_str store) bytes (record_files w) \<rparr>)))"

definition write_nar_name :: "string \<Rightarrow> StoreHash \<Rightarrow> unit pub" where
  "write_nar_name name store = thenW (pub_step (\<lambda>w. w))
     (pub_step (\<lambda>w. w\<lparr> name_files := AList.update name (encode_nar_owner store) (name_files w) \<rparr>))"

definition unlink_nar_name_if_owner :: "string \<Rightarrow> StoreHash \<Rightarrow> unit pub" where
  "unlink_nar_name_if_owner name store = bindW (pub_open name_files name) (\<lambda>file. case file of
      None \<Rightarrow> retW ()
    | Some bytes \<Rightarrow> bindW (liftW (read_nar_owner bytes)) (\<lambda>owner.
        if owner \<noteq> store then retW () else unlink_name name))"

definition publication_record_at :: "encodings \<Rightarrow> StoreHash \<Rightarrow> PublicationRecord option pub" where
  "publication_record_at E store = bindW (pub_open record_files (store_hash_str store)) (\<lambda>file. case file of
      None \<Rightarrow> retW None
    | Some bytes \<Rightarrow> bindW (liftW (bindR (read_limited bytes) (parse_record E))) (\<lambda>record. retW (Some record)))"

definition publication_record :: "encodings \<Rightarrow> StoreHash \<Rightarrow> int \<Rightarrow> PublicationRecord option pub" where
  "publication_record E store now = bindW (publication_record_at E store) (\<lambda>found. case found of
      None \<Rightarrow> retW None
    | Some record \<Rightarrow>
        if \<not> (case removed_at record of None \<Rightarrow> False | Some removed \<Rightarrow> record_expired removed now) then retW (Some record)
        else thenW (unlink_record (store_hash_str store))
          (thenW (case nar_file record of None \<Rightarrow> retW () | Some name \<Rightarrow> unlink_nar_name_if_owner name store) (retW None)))"

fun expire_names :: "encodings \<Rightarrow> int \<Rightarrow> string list \<Rightarrow> unit pub" where
  "expire_names E now [] = retW ()"
| "expire_names E now (name # names) = (case store_hash_parse name of
      Inl _ \<Rightarrow> expire_names E now names
    | Inr store \<Rightarrow> bindW (publication_record E store now) (\<lambda>_. expire_names E now names))"

definition expire_elapsed_records :: "encodings \<Rightarrow> int \<Rightarrow> unit pub" where
  "expire_elapsed_records E now = thenW (pub_step (\<lambda>w. w)) (\<lambda>w. expire_names E now (map fst (record_files w)) w)"

definition remember_publication ::
    "encodings \<Rightarrow> StoreHash \<Rightarrow> string \<Rightarrow> string option \<Rightarrow> NarFileName option \<Rightarrow> int \<Rightarrow> unit pub" where
  "remember_publication E store path label nar now =
    (if \<not> single_line path then failW PubInvalid
     else thenW (expire_elapsed_records E now) (bindW (publication_record_at E store) (\<lambda>existing.
       bindW (liftW (case label of
           Some l \<Rightarrow> if valid_label l then Ok (Some l) else Err PubInvalid
         | None \<Rightarrow> Ok (Option.bind existing writer))) (\<lambda>label.
       let previous_name = Option.bind existing nar_file;
           nar_name = (case nar of Some name \<Rightarrow> Some (file_name_display E name) | None \<Rightarrow> previous_name) in
       thenW (write_record store \<lparr> pub_store_path = path, published_at = now, writer = label, removed_at = None, nar_file = nar_name \<rparr>)
         (case nar of
            None \<Rightarrow> retW ()
          | Some name \<Rightarrow> let name = file_name_display E name in
              thenW (write_nar_name name store)
                (case previous_name of
                   Some previous \<Rightarrow> if previous \<noteq> name then unlink_nar_name_if_owner previous store else retW ()
                 | None \<Rightarrow> retW ()))))))"

definition note_publication_removed :: "encodings \<Rightarrow> StoreHash \<Rightarrow> int \<Rightarrow> unit pub" where
  "note_publication_removed E store now =
    thenW (expire_elapsed_records E now) (bindW (publication_record_at E store) (\<lambda>found. case found of
      None \<Rightarrow> retW ()
    | Some record \<Rightarrow> if removed_at record = None then write_record store (record\<lparr> removed_at := Some now \<rparr>) else retW ()))"

definition published_store_for_nar ::
    "encodings \<Rightarrow> NarFileName \<Rightarrow> int \<Rightarrow> (StoreHash \<times> PublicationRecord) option pub" where
  "published_store_for_nar E nar now = (let name = file_name_display E nar in
    bindW (pub_open name_files name) (\<lambda>file. case file of
      None \<Rightarrow> retW None
    | Some bytes \<Rightarrow> bindW (liftW (read_nar_owner bytes)) (\<lambda>store.
        bindW (publication_record E store now) (\<lambda>found. case found of
            None \<Rightarrow> thenW (unlink_nar_name_if_owner name store) (retW None)
          | Some record \<Rightarrow>
              if nar_file record \<noteq> Some name then thenW (unlink_nar_name_if_owner name store) (retW None)
              else retW (Some (store, record))))))"

subsection \<open>Every file stays readable\<close>

definition record_bytes :: "encodings \<Rightarrow> bytes \<Rightarrow> bool" where
  "record_bytes E bs \<longleftrightarrow> (\<exists>r. record_wf E r \<and> encode_record r = Ok bs)"

definition owner_bytes :: "bytes \<Rightarrow> bool" where
  "owner_bytes bs \<longleftrightarrow> (\<exists>s. store_hash_wf s \<and> bs = encode_nar_owner s)"

definition files_ok :: "encodings \<Rightarrow> PubWorld \<Rightarrow> bool" where
  "files_ok E w \<longleftrightarrow> (\<forall>bs \<in> snd ` set (record_files w). record_bytes E bs) \<and> (\<forall>bs \<in> snd ` set (name_files w). owner_bytes bs)"

text \<open>A run on readable directories keeps them readable, satisfies \<open>Q\<close> when it succeeds, and fails only with errors in \<open>F\<close>.\<close>

definition pub_keeps :: "encodings \<Rightarrow> 'a pub \<Rightarrow> ('a \<Rightarrow> bool) \<Rightarrow> (PubError \<Rightarrow> bool) \<Rightarrow> bool" where
  "pub_keeps E m Q F \<longleftrightarrow> (\<forall>w r w'. files_ok E w \<longrightarrow> m w = (r, w') \<longrightarrow>
    files_ok E w' \<and> (\<forall>e. r = Err e \<longrightarrow> F e) \<and> (\<forall>x. r = Ok x \<longrightarrow> Q x))"

abbreviation only_io :: "PubError \<Rightarrow> bool" where
  "only_io \<equiv> (\<lambda>e. e \<noteq> PubInvalid)"

lemma keeps_ret: "Q x \<Longrightarrow> pub_keeps E (retW x) Q F"
  by (simp add: pub_keeps_def retW_def)

lemma keeps_fail: "F e \<Longrightarrow> pub_keeps E (failW e) Q F"
  by (simp add: pub_keeps_def failW_def)

lemma keeps_lift: "(case r of Inl e \<Rightarrow> F e | Inr x \<Rightarrow> Q x) \<Longrightarrow> pub_keeps E (liftW r) Q F"
  by (auto simp: pub_keeps_def liftW_def)

lemma keeps_bind:
  assumes m: "pub_keeps E m P F" and f: "\<And>x. P x \<Longrightarrow> pub_keeps E (f x) Q F"
  shows "pub_keeps E (bindW m f) Q F"
  unfolding pub_keeps_def
proof (intro allI impI)
  fix w r w' assume w: "files_ok E w" and run: "bindW m f w = (r, w')"
  obtain r1 w1 where m1: "m w = (r1, w1)" by fastforce
  have first: "files_ok E w1" "\<And>e. r1 = Err e \<Longrightarrow> F e" "\<And>x. r1 = Ok x \<Longrightarrow> P x"
    using m w m1 unfolding pub_keeps_def by blast+
  show "files_ok E w' \<and> (\<forall>e. r = Err e \<longrightarrow> F e) \<and> (\<forall>x. r = Ok x \<longrightarrow> Q x)"
  proof (cases r1)
    case (Inl e)
    then show ?thesis using run m1 first by (auto simp: bindW_def)
  next
    case (Inr x)
    then have "f x w1 = (r, w')" "P x" using run m1 first by (simp_all add: bindW_def)
    then show ?thesis using f first(1) unfolding pub_keeps_def by blast
  qed
qed

lemma keeps_then: "pub_keeps E m (\<lambda>_. True) F \<Longrightarrow> pub_keeps E n Q F \<Longrightarrow> pub_keeps E (thenW m n) Q F"
  unfolding thenW_def by (rule keeps_bind)

lemma keeps_weaken: "pub_keeps E m Q' F' \<Longrightarrow> (\<And>x. Q' x \<Longrightarrow> Q x) \<Longrightarrow> (\<And>e. F' e \<Longrightarrow> F e) \<Longrightarrow> pub_keeps E m Q F"
  unfolding pub_keeps_def by blast

lemma keeps_any: "pub_keeps E m Q F \<Longrightarrow> pub_keeps E m Q (\<lambda>_. True)"
  by (rule keeps_weaken) simp_all

lemma files_ok_outcomes [simp]: "files_ok E (w\<lparr> pub_outcomes := os \<rparr>) = files_ok E w"
  by (simp add: files_ok_def)

lemma set_update_snd: "snd ` set (AList.update k v al) \<subseteq> insert v (snd ` set al)"
  by (induction al) auto

lemma all_update: "\<forall>bs \<in> snd ` set al. P bs \<Longrightarrow> P v \<Longrightarrow> \<forall>bs \<in> snd ` set (AList.update k v al). P bs"
  using set_update_snd [of k v al] by blast

lemma keeps_step:
  assumes "\<And>w. files_ok E w \<Longrightarrow> files_ok E (f w)"
  shows "pub_keeps E (pub_step f) (\<lambda>_. True) only_io"
  using assms by (auto simp: pub_keeps_def pub_step_def Let_def split: prod.splits Outcome.splits)

lemma keeps_untouched: "pub_keeps E (pub_step (\<lambda>w. w)) (\<lambda>_. True) only_io"
  by (rule keeps_step)

lemma keeps_unlink:
  assumes "\<And>w. files_ok E w \<Longrightarrow> files_ok E (f w)"
  shows "pub_keeps E (pub_unlink f) (\<lambda>_. True) only_io"
  using assms
  by (auto simp: pub_keeps_def pub_unlink_def pub_step_def Let_def split: prod.splits Outcome.splits if_splits)

lemma keeps_open:
  assumes "\<And>w bs. files_ok E w \<Longrightarrow> map_of (files w) name = Some bs \<Longrightarrow> P bs"
  shows "pub_keeps E (pub_open files name) (\<lambda>file. \<forall>bs. file = Some bs \<longrightarrow> P bs) only_io"
  unfolding pub_keeps_def
proof (intro allI impI)
  fix w r w' assume w: "files_ok E w" "pub_open files name w = (r, w')"
  obtain r1 where step: "pub_step (\<lambda>w. w) w = (r1, w')"
    using w(2) by (auto simp: pub_open_def split: prod.splits sum.splits)
  then have "files_ok E w'" "\<And>e. r1 = Err e \<Longrightarrow> e \<noteq> PubInvalid"
    using keeps_untouched [of E] w(1) unfolding pub_keeps_def by blast+
  then show "files_ok E w' \<and> (\<forall>e. r = Err e \<longrightarrow> only_io e) \<and> (\<forall>x. r = Ok x \<longrightarrow> (\<forall>bs. x = Some bs \<longrightarrow> P bs))"
    using w(2) step assms by (cases r1) (auto simp: pub_open_def split: if_splits)
qed

lemma keeps_open_record: "pub_keeps E (pub_open record_files name) (\<lambda>file. \<forall>bs. file = Some bs \<longrightarrow> record_bytes E bs) only_io"
  by (rule keeps_open) (force simp: files_ok_def dest: map_of_SomeD)

lemma keeps_open_name: "pub_keeps E (pub_open name_files name) (\<lambda>file. \<forall>bs. file = Some bs \<longrightarrow> owner_bytes bs) only_io"
  by (rule keeps_open) (force simp: files_ok_def dest: map_of_SomeD)

lemma keeps_read_owner: "owner_bytes bs \<Longrightarrow> pub_keeps E (liftW (read_nar_owner bs)) store_hash_wf only_io"
  by (rule keeps_lift) (auto simp: owner_bytes_def read_encode_owner)

lemma record_wf_stored: "record_wf E r \<Longrightarrow> record_wf E (stored r)"
  by (auto simp: record_wf_def stored_def time_ok_whole pred_option_cases split: option.splits)

lemma keeps_parse: "record_bytes E bs \<Longrightarrow> pub_keeps E (liftW (bindR (read_limited bs) (parse_record E))) (record_wf E) only_io"
  using parse_encode_record [of E _ bs] record_wf_stored
  by (intro keeps_lift) (fastforce simp: record_bytes_def bindR_def)

lemma keeps_unlink_record: "pub_keeps E (unlink_record name) (\<lambda>_. True) only_io"
  unfolding unlink_record_def by (rule keeps_unlink) (auto simp: files_ok_def AList.delete_eq)

lemma keeps_unlink_name: "pub_keeps E (unlink_name name) (\<lambda>_. True) only_io"
  unfolding unlink_name_def by (rule keeps_unlink) (auto simp: files_ok_def AList.delete_eq)

lemma keeps_unlink_if_owner: "pub_keeps E (unlink_nar_name_if_owner name store) (\<lambda>_. True) only_io"
  unfolding unlink_nar_name_if_owner_def
  by (rule keeps_bind [OF keeps_open_name])
    (auto split: option.split intro!: keeps_ret keeps_bind [OF keeps_read_owner] keeps_unlink_name)

lemma keeps_record_at: "pub_keeps E (publication_record_at E store) (pred_option (record_wf E)) only_io"
  unfolding publication_record_at_def
  by (rule keeps_bind [OF keeps_open_record]) (auto split: option.split intro!: keeps_ret keeps_bind [OF keeps_parse])

lemma keeps_record: "pub_keeps E (publication_record E store now) (pred_option (record_wf E)) only_io"
  unfolding publication_record_def
  by (rule keeps_bind [OF keeps_record_at])
    (auto split: option.split intro!: keeps_ret keeps_then [OF keeps_unlink_record] keeps_then keeps_unlink_if_owner)

lemma keeps_expire_names: "pub_keeps E (expire_names E now names) (\<lambda>_. True) only_io"
  by (induction names) (auto split: sum.split intro!: keeps_ret keeps_bind [OF keeps_record])

lemma keeps_expire: "pub_keeps E (expire_elapsed_records E now) (\<lambda>_. True) only_io"
  unfolding expire_elapsed_records_def
proof (rule keeps_then [OF keeps_untouched])
  show "pub_keeps E (\<lambda>w. expire_names E now (map fst (record_files w)) w) (\<lambda>_. True) only_io"
    using keeps_expire_names [of E now] unfolding pub_keeps_def by blast
qed

lemma keeps_write_record: "record_wf E r \<Longrightarrow> pub_keeps E (write_record store r) (\<lambda>_. True) (\<lambda>_. True)"
proof -
  assume r: "record_wf E r"
  have put: "pub_keeps E (pub_step (\<lambda>w. w\<lparr> record_files := AList.update k bs (record_files w) \<rparr>)) (\<lambda>_. True) (\<lambda>_. True)"
    if "encode_record r = Ok bs" for bs k
  proof (rule keeps_weaken [OF keeps_step])
    fix w assume "files_ok E w"
    then show "files_ok E (w\<lparr> record_files := AList.update k bs (record_files w) \<rparr>)"
      using r that all_update [of "record_files w" "record_bytes E" bs k] by (auto simp: files_ok_def record_bytes_def)
  qed simp_all
  have lift: "pub_keeps E (liftW (encode_record r)) (\<lambda>bs. encode_record r = Ok bs) (\<lambda>_. True)"
    by (rule keeps_lift) (simp split: sum.split)
  show ?thesis
    unfolding write_record_def
    by (rule keeps_then [OF keeps_weaken [OF keeps_untouched] keeps_bind [OF lift put]]) simp_all
qed

lemma keeps_write_name: "store_hash_wf store \<Longrightarrow> pub_keeps E (write_nar_name name store) (\<lambda>_. True) only_io"
  unfolding write_nar_name_def
proof (rule keeps_then [OF keeps_untouched], rule keeps_step)
  fix w assume "store_hash_wf store" "files_ok E w"
  then show "files_ok E (w\<lparr> name_files := AList.update name (encode_nar_owner store) (name_files w) \<rparr>)"
    using all_update [of "name_files w" owner_bytes "encode_nar_owner store" name] by (auto simp: files_ok_def owner_bytes_def)
qed

lemma keeps_remember:
  assumes E: "nix32_of E" and wf: "store_hash_wf store" "valid_utf8 (ascii path)" "time_ok now" "pred_option file_name_wf nar"
  shows "pub_keeps E (remember_publication E store path label nar now) (\<lambda>_. True) (\<lambda>_. True)"
proof (cases "single_line path")
  case True
  have name: "is_ascii (file_name_display E n) \<and> single_line (file_name_display E n) \<and> (\<exists>m. file_name_parse E (file_name_display E n) = Ok m)"
    if "nar = Some n" for n
    using file_name_text [OF E, of n] file_name_parse_display [OF E] wf(4) that by auto
  have label: "pub_keeps E (liftW (case label of Some l \<Rightarrow> if valid_label l then Ok (Some l) else Err PubInvalid
      | None \<Rightarrow> Ok (Option.bind existing writer))) (pred_option valid_label) (\<lambda>_. True)"
    if "pred_option (record_wf E) existing" for existing
    using that by (intro keeps_lift) (auto simp: record_wf_def pred_option_cases split: option.splits)
  have rec: "record_wf E \<lparr> pub_store_path = path, published_at = now, writer = l, removed_at = None,
      nar_file = (case nar of Some name \<Rightarrow> Some (file_name_display E name) | None \<Rightarrow> Option.bind existing nar_file) \<rparr>"
    if "pred_option (record_wf E) existing" "pred_option valid_label l" for existing l
    using that True wf(2,3) name by (auto simp: record_wf_def pred_option_cases split: option.splits)
  have index: "pub_keeps E (case nar of None \<Rightarrow> retW ()
      | Some name \<Rightarrow> let name = file_name_display E name in thenW (write_nar_name name store)
          (case previous of Some p \<Rightarrow> if p \<noteq> name then unlink_nar_name_if_owner p store else retW () | None \<Rightarrow> retW ()))
      (\<lambda>_. True) only_io" for previous
    using keeps_write_name [OF wf(1)]
    by (auto simp: Let_def split: option.split intro!: keeps_ret keeps_then keeps_unlink_if_owner)
  note step = keeps_bind [OF label keeps_then [OF keeps_write_record [OF rec] keeps_any [OF index [unfolded Let_def]]]]
  show ?thesis
    unfolding remember_publication_def Let_def
    by (simp only: True simp_thms if_False)
      (rule keeps_then [OF keeps_any [OF keeps_expire] keeps_bind [OF keeps_any [OF keeps_record_at] step]])
next
  case False
  then show ?thesis by (simp add: remember_publication_def keeps_fail)
qed

lemma keeps_note_removed:
  assumes "time_ok now"
  shows "pub_keeps E (note_publication_removed E store now) (\<lambda>_. True) (\<lambda>_. True)"
  unfolding note_publication_removed_def
proof (rule keeps_then [OF keeps_any [OF keeps_expire] keeps_bind [OF keeps_any [OF keeps_record_at]]])
  fix found assume found: "pred_option (record_wf E) found"
  have "record_wf E (r\<lparr> removed_at := Some now \<rparr>)" if "found = Some r" for r
    using found assms that by (simp add: record_wf_def)
  then show "pub_keeps E (case found of None \<Rightarrow> retW ()
      | Some record \<Rightarrow> if removed_at record = None then write_record store (record\<lparr> removed_at := Some now \<rparr>) else retW ())
      (\<lambda>_. True) (\<lambda>_. True)"
    by (auto split: option.split intro!: keeps_ret keeps_write_record)
qed

lemma keeps_for_nar: "pub_keeps E (published_store_for_nar E nar now) (\<lambda>_. True) only_io"
proof -
  have drop: "pub_keeps E (thenW (unlink_nar_name_if_owner name store) (retW None)) (\<lambda>_. True) only_io" for name store
    by (rule keeps_then [OF keeps_unlink_if_owner keeps_ret]) simp
  have "pub_keeps E (case found of
      None \<Rightarrow> thenW (unlink_nar_name_if_owner name store) (retW None)
    | Some record \<Rightarrow> if nar_file record \<noteq> Some name then thenW (unlink_nar_name_if_owner name store) (retW None)
        else retW (Some (store, record))) (\<lambda>_. True) only_io" for found name store
    by (auto split: option.split intro!: drop keeps_ret)
  note found = keeps_bind [OF keeps_record this]
  show ?thesis
    unfolding published_store_for_nar_def Let_def
    by (rule keeps_bind [OF keeps_open_name]) (auto split: option.split intro!: keeps_ret keeps_bind [OF keeps_read_owner found])
qed

subsection \<open>Sequences of operations\<close>

datatype PubOp =
    OpRemember StoreHash string "string option" "NarFileName option" int
  | OpRemoved StoreHash int
  | OpRecord StoreHash int
  | OpForNar NarFileName int

fun pub_op :: "encodings \<Rightarrow> PubOp \<Rightarrow> PubWorld \<Rightarrow> PubWorld" where
  "pub_op E (OpRemember store path label nar now) w = snd (remember_publication E store path label nar now w)"
| "pub_op E (OpRemoved store now) w = snd (note_publication_removed E store now w)"
| "pub_op E (OpRecord store now) w = snd (publication_record E store now w)"
| "pub_op E (OpForNar nar now) w = snd (published_store_for_nar E nar now w)"

text \<open>The arguments are values of their Rust types.\<close>

fun pub_op_wf :: "PubOp \<Rightarrow> bool" where
  "pub_op_wf (OpRemember store path label nar now) \<longleftrightarrow>
    store_hash_wf store \<and> valid_utf8 (ascii path) \<and> pred_option file_name_wf nar \<and> time_ok now"
| "pub_op_wf (OpRemoved store now) \<longleftrightarrow> time_ok now"
| "pub_op_wf _ \<longleftrightarrow> True"

definition no_records :: "io_kind Outcome list \<Rightarrow> PubWorld" where
  "no_records outcomes = \<lparr> record_files = [], name_files = [], pub_outcomes = outcomes \<rparr>"

lemma keeps_state: "pub_keeps E m Q F \<Longrightarrow> files_ok E w \<Longrightarrow> files_ok E (snd (m w))"
  unfolding pub_keeps_def by (metis prod.collapse)

lemma keeps_valid: "pub_keeps E m Q only_io \<Longrightarrow> files_ok E w \<Longrightarrow> fst (m w) \<noteq> Err PubInvalid"
  unfolding pub_keeps_def by (metis prod.collapse)

lemma files_ok_op: "nix32_of E \<Longrightarrow> pub_op_wf op \<Longrightarrow> files_ok E w \<Longrightarrow> files_ok E (pub_op E op w)"
  by (cases op) (auto intro: keeps_state [OF keeps_remember] keeps_state [OF keeps_note_removed] keeps_state [OF keeps_record]
      keeps_state [OF keeps_for_nar])

lemma files_ok_ops: "nix32_of E \<Longrightarrow> list_all pub_op_wf ops \<Longrightarrow> files_ok E w \<Longrightarrow> files_ok E (fold (pub_op E) ops w)"
  by (induction ops arbitrary: w) (simp_all add: files_ok_op)

text \<open>Claim C38.  The record directories stay well typed.  After any sequence of operations, whatever effects fail on the way, every record
  file reads and parses as a record and every index file names a store hash; therefore no lookup and no expiry, which reads all records, ever fails
  because of the contents of a file.\<close>

theorem records_stay_readable:
  assumes "nix32_codec (nix32_encode E) (nix32_decode E)" and "list_all pub_op_wf ops"
    and "w = fold (pub_op E) ops (no_records outcomes)"
  shows "(\<forall>bs \<in> snd ` set (record_files w). \<exists>text r. read_limited bs = Ok text \<and> parse_record E text = Ok r)
    \<and> (\<forall>bs \<in> snd ` set (name_files w). \<exists>store. read_nar_owner bs = Ok store)
    \<and> (\<forall>store nar now. fst (publication_record E store now w) \<noteq> Err PubInvalid \<and>
        fst (published_store_for_nar E nar now w) \<noteq> Err PubInvalid \<and> fst (expire_elapsed_records E now w) \<noteq> Err PubInvalid)"
proof -
  have ok: "files_ok E w"
    unfolding assms(3) by (rule files_ok_ops [OF assms(1,2)]) (simp add: files_ok_def no_records_def)
  have readable: "\<exists>text r. read_limited bs = Ok text \<and> parse_record E text = Ok r" if "bs \<in> snd ` set (record_files w)" for bs
  proof -
    have "record_bytes E bs" using conjunct1 [OF ok [unfolded files_ok_def]] that by (rule bspec)
    then obtain r where "record_wf E r" "encode_record r = Ok bs" unfolding record_bytes_def by (elim exE conjE)
    from parse_encode_record [OF this] show ?thesis by (elim exE conjE) (intro exI conjI)
  qed
  have owner: "\<exists>store. read_nar_owner bs = Ok store" if "bs \<in> snd ` set (name_files w)" for bs
  proof -
    have "owner_bytes bs" using conjunct2 [OF ok [unfolded files_ok_def]] that by (rule bspec)
    then show ?thesis using read_encode_owner by (auto simp: owner_bytes_def)
  qed
  show ?thesis
    by (intro conjI ballI allI readable owner keeps_valid [OF keeps_record ok] keeps_valid [OF keeps_for_nar ok]
        keeps_valid [OF keeps_expire ok])
qed

theorem records_stay_readable_witness:
  "fst (expire_elapsed_records standard_encodings 0 (fold (pub_op standard_encodings)
      [OpRemember (StoreHash (ascii (replicate 32 CHR ''0''))) ''/nix/store/x'' None None 5, OpRemoved (StoreHash (ascii (replicate 32 CHR ''0''))) 7]
      (no_records [Succeeds, FailsAfter IoOther]))) \<noteq> Err PubInvalid"
proof -
  let ?s = "StoreHash (ascii (replicate 32 CHR ''0''))"
  have "store_hash_wf ?s" by (simp add: store_hash_wf_def store_hash_str_def valid_nix32_def NIX32_def list_all_iff)
  moreover have "valid_utf8 (ascii ''/nix/store/x'')" by (rule valid_utf8_ascii) simp
  ultimately have "list_all pub_op_wf [OpRemember ?s ''/nix/store/x'' None None 5, OpRemoved ?s 7]"
    by (simp add: time_ok_def)
  note all = conjunct2 [OF conjunct2 [OF records_stay_readable [OF nix32_standard this refl]]]
  show ?thesis by (rule conjunct2 [OF conjunct2 [OF spec [OF spec [OF spec [OF all]]]]])
qed

end
