(* ===== verification/Auth.thy ===== *)
theory Auth
  imports Token_File
begin

section \<open>Authorisation of requests (\<open>src/auth.rs\<close>)\<close>

text \<open>
  A request is its list of header names and values.  The SHA-256 function and base-64 decoding are parameters.  The
  theorems say which requests are let in, and what creating and revoking a token does to
  the file the authoriser reads.
\<close>

datatype Permission = PermissionRead | PermissionWrite

datatype ReadVisibility = VisibilityPublic | VisibilityPrivate

datatype ReadPolicy = ReadPublic | ReadPrivate "TokenRecord list"

datatype AcceptedAccess = Unlabeled | AccessToken string

record Authorizer =
  auth_read :: ReadPolicy
  auth_write :: "TokenRecord list"

type_synonym headers = "(string \<times> string) list"

type_synonym opened = "io_kind + (io_kind + unit) \<times> bytes"

definition read_policy_load :: "hexlower \<Rightarrow> opened \<Rightarrow> TokenError + ReadPolicy" where
  "read_policy_load H read_tokens = bindR (token_load H read_tokens) (\<lambda>loaded.
    Ok (case loaded of Some tokens \<Rightarrow> ReadPrivate tokens | None \<Rightarrow> ReadPublic))"

definition is_public :: "ReadPolicy \<Rightarrow> bool" where
  "is_public policy = (case policy of ReadPublic \<Rightarrow> True | ReadPrivate _ \<Rightarrow> False)"

definition read_matching_label :: "ReadPolicy \<Rightarrow> bytes \<Rightarrow> string option" where
  "read_matching_label policy actual = (case policy of ReadPublic \<Rightarrow> None | ReadPrivate tokens \<Rightarrow> matching_label tokens actual)"

definition authorizer_load :: "hexlower \<Rightarrow> opened \<Rightarrow> opened \<Rightarrow> TokenError + Authorizer" where
  "authorizer_load H read_tokens write_tokens =
    bindR (read_policy_load H read_tokens) (\<lambda>read_policy.
    bindR (token_load H write_tokens) (\<lambda>loaded.
    Ok \<lparr> auth_read = read_policy, auth_write = (case loaded of Some tokens \<Rightarrow> tokens | None \<Rightarrow> []) \<rparr>))"

definition after_colon :: "bytes \<Rightarrow> bytes option" where
  "after_colon decoded = (case dropWhile (\<lambda>b. b \<noteq> 58) decoded of [] \<Rightarrow> None | _ # token \<Rightarrow> Some token)"

definition authorization_token_hash :: "encodings \<Rightarrow> (bytes \<Rightarrow> bytes) \<Rightarrow> headers \<Rightarrow> bytes option" where
  "authorization_token_hash E sha256 headers =
    (case filter (\<lambda>(name, _). eq_ignore_ascii_case name ''Authorization'') headers of
       [(_, value)] \<Rightarrow> (case split_once (CHR '' '') value of
           None \<Rightarrow> None
         | Some (scheme, encoded) \<Rightarrow>
             if \<not> eq_ignore_ascii_case scheme ''basic'' \<or> encoded = [] \<or> list_ex ascii_whitespace encoded then None
             else (case base64_decode E (ascii encoded) of
                None \<Rightarrow> None
              | Some decoded \<Rightarrow> (case after_colon decoded of
                    None \<Rightarrow> None
                  | Some token \<Rightarrow> if token = [] then None else Some (sha256 token))))
     | _ \<Rightarrow> None)"

definition authenticate :: "encodings \<Rightarrow> (bytes \<Rightarrow> bytes) \<Rightarrow> Authorizer \<Rightarrow> headers \<Rightarrow> Permission \<Rightarrow> AcceptedAccess option" where
  "authenticate E sha256 a headers permission =
    (if permission = PermissionRead \<and> is_public (auth_read a) then Some Unlabeled
     else (case authorization_token_hash E sha256 headers of
        None \<Rightarrow> None
      | Some actual \<Rightarrow>
          let write_label = matching_label (auth_write a) actual; read_label = read_matching_label (auth_read a) actual;
              label = (case permission of
                  PermissionRead \<Rightarrow> (case write_label of Some l \<Rightarrow> Some l | None \<Rightarrow> read_label)
                | PermissionWrite \<Rightarrow> write_label) in
          map_option AccessToken label))"

definition allows :: "encodings \<Rightarrow> (bytes \<Rightarrow> bytes) \<Rightarrow> Authorizer \<Rightarrow> headers \<Rightarrow> Permission \<Rightarrow> bool" where
  "allows E sha256 a headers permission = (authenticate E sha256 a headers permission \<noteq> None)"

definition read_visibility :: "Authorizer \<Rightarrow> ReadVisibility" where
  "read_visibility a = (case auth_read a of ReadPublic \<Rightarrow> VisibilityPublic | ReadPrivate _ \<Rightarrow> VisibilityPrivate)"

subsection \<open>Which requests are let in\<close>

text \<open>The secret a request presents: the password of its only \<open>Authorization\<close> header of the \<open>Basic\<close> scheme.\<close>

definition presents :: "encodings \<Rightarrow> headers \<Rightarrow> bytes \<Rightarrow> bool" where
  "presents E headers secret = (\<exists>name scheme encoded user.
    filter (\<lambda>(name, _). eq_ignore_ascii_case name ''Authorization'') headers = [(name, scheme @ '' '' @ encoded)]
    \<and> CHR '' '' \<notin> set scheme \<and> eq_ignore_ascii_case scheme ''basic''
    \<and> \<not> list_ex ascii_whitespace encoded \<and> encoded \<noteq> []
    \<and> base64_decode E (ascii encoded) = Some (user @ [58] @ secret) \<and> 58 \<notin> set user \<and> secret \<noteq> [])"

definition holders :: "Authorizer \<Rightarrow> Permission \<Rightarrow> TokenRecord set" where
  "holders a permission = (case permission of
      PermissionWrite \<Rightarrow> set (auth_write a)
    | PermissionRead \<Rightarrow> set (auth_write a) \<union> (case auth_read a of ReadPublic \<Rightarrow> {} | ReadPrivate tokens \<Rightarrow> set tokens))"

lemma after_colon_Some: "after_colon d = Some t \<longleftrightarrow> (\<exists>u. d = u @ [58] @ t \<and> 58 \<notin> set u)"
proof
  assume "after_colon d = Some t"
  then obtain c where d: "dropWhile (\<lambda>b. b \<noteq> 58) d = c # t" by (auto simp: after_colon_def split: list.splits)
  then have "c = 58" using hd_dropWhile [of "\<lambda>b. b \<noteq> 58" d] by (metis list.discI list.sel(1))
  moreover have "d = takeWhile (\<lambda>b. b \<noteq> 58) d @ c # t" using takeWhile_dropWhile_id [of "\<lambda>b. b \<noteq> 58" d] d by simp
  moreover have "58 \<notin> set (takeWhile (\<lambda>b. b \<noteq> 58) d)" by (auto dest: set_takeWhileD)
  ultimately show "\<exists>u. d = u @ [58] @ t \<and> 58 \<notin> set u" by auto
next
  assume "\<exists>u. d = u @ [58] @ t \<and> 58 \<notin> set u"
  then obtain u where "d = u @ [58] @ t" "58 \<notin> set u" by blast
  moreover from this have "dropWhile (\<lambda>b. b \<noteq> 58) (u @ [58] @ t) = [58] @ t"
    by (subst dropWhile_append2) auto
  ultimately show "after_colon d = Some t" by (simp add: after_colon_def)
qed

lemma token_hash_Some:
  "authorization_token_hash E sha256 headers = Some h \<longleftrightarrow> (\<exists>secret. presents E headers secret \<and> h = sha256 secret)"
proof
  assume "authorization_token_hash E sha256 headers = Some h"
  then obtain name scheme encoded decoded secret where
      "filter (\<lambda>(name, _). eq_ignore_ascii_case name ''Authorization'') headers = [(name, scheme @ '' '' @ encoded)]"
      "CHR '' '' \<notin> set scheme" "eq_ignore_ascii_case scheme ''basic''" "encoded \<noteq> []" "\<not> list_ex ascii_whitespace encoded"
      "base64_decode E (ascii encoded) = Some decoded" "after_colon decoded = Some secret" "secret \<noteq> []" "h = sha256 secret"
    by (auto simp: authorization_token_hash_def split_once_Some split: list.splits option.splits if_splits)
  then show "\<exists>secret. presents E headers secret \<and> h = sha256 secret"
    unfolding presents_def after_colon_Some by blast
next
  assume "\<exists>secret. presents E headers secret \<and> h = sha256 secret"
  then obtain secret name scheme encoded user where p:
      "filter (\<lambda>(name, _). eq_ignore_ascii_case name ''Authorization'') headers = [(name, scheme @ '' '' @ encoded)]"
      "CHR '' '' \<notin> set scheme" "eq_ignore_ascii_case scheme ''basic''" "\<not> list_ex ascii_whitespace encoded" "encoded \<noteq> []"
      "base64_decode E (ascii encoded) = Some (user @ [58] @ secret)" "58 \<notin> set user" "secret \<noteq> []" "h = sha256 secret"
    unfolding presents_def by blast
  have "split_once (CHR '' '') (scheme @ '' '' @ encoded) = Some (scheme, encoded)"
    using p(2) by (simp add: split_once_Some)
  moreover have "after_colon (user @ [58] @ secret) = Some secret" using p(7) by (auto simp: after_colon_Some)
  ultimately show "authorization_token_hash E sha256 headers = Some h"
    using p by (simp add: authorization_token_hash_def)
qed

lemma matching_label_Some:
  assumes "length records \<le> 2 ^ 32"
  shows "matching_label records d \<noteq> None \<longleftrightarrow> (\<exists>r \<in> set records. token_digest r = d)"
  using assms by (auto simp: matching_label_find find_None_iff)

text \<open>C32: access control is exact.  Writing is allowed exactly for a request that presents, in its only \<open>Authorization\<close>
  header, a secret whose digest is in the write file.  Reading is allowed to everybody when there is no read file, and
  otherwise exactly for a request that presents a secret of the read file or the write file.\<close>

theorem allows_exact:
  assumes "length (auth_write a) \<le> 2 ^ 32" "\<And>tokens. auth_read a = ReadPrivate tokens \<Longrightarrow> length tokens \<le> 2 ^ 32"
  shows "allows E sha256 a headers permission \<longleftrightarrow>
    (permission = PermissionRead \<and> auth_read a = ReadPublic)
    \<or> (\<exists>secret. presents E headers secret \<and> sha256 secret \<in> token_digest ` holders a permission)"
proof (cases "permission = PermissionRead \<and> auth_read a = ReadPublic")
  case True
  then show ?thesis by (simp add: allows_def authenticate_def is_public_def)
next
  case False
  then have "\<not> (permission = PermissionRead \<and> is_public (auth_read a))"
    by (auto simp: is_public_def split: ReadPolicy.splits)
  then have "allows E sha256 a headers permission \<longleftrightarrow> (\<exists>h. authorization_token_hash E sha256 headers = Some h \<and>
      (matching_label (auth_write a) h \<noteq> None \<or> permission = PermissionRead \<and> read_matching_label (auth_read a) h \<noteq> None))"
    by (auto simp: allows_def authenticate_def Let_def split: option.splits Permission.splits)
  moreover have "(matching_label (auth_write a) h \<noteq> None \<or> permission = PermissionRead \<and> read_matching_label (auth_read a) h \<noteq> None)
      \<longleftrightarrow> h \<in> token_digest ` holders a permission" for h
    using matching_label_Some [OF assms(1)] matching_label_Some [OF assms(2)]
    by (cases permission; cases "auth_read a") (auto simp: holders_def read_matching_label_def image_iff)
  ultimately have "allows E sha256 a headers permission \<longleftrightarrow>
      (\<exists>h. authorization_token_hash E sha256 headers = Some h \<and> h \<in> token_digest ` holders a permission)"
    by simp
  then show ?thesis using False unfolding token_hash_Some by blast
qed

definition sample_authorizer :: Authorizer where
  "sample_authorizer = \<lparr> auth_read = ReadPublic, auth_write = [\<lparr> token_label = ''ci'', token_digest = [115] \<rparr>] \<rparr>"

text \<open>A request with the credentials \<open>u:s\<close>, under the identity as encoding and as hash function.\<close>

definition plain_encodings :: encodings where
  "plain_encodings = standard_encodings\<lparr> base64_encode := (\<lambda>s. s), base64_decode := Some \<rparr>"

theorem allows_exact_witness:
  "allows plain_encodings (\<lambda>s. s) sample_authorizer [(''Authorization'', ''basic u:s'')] PermissionWrite
    \<and> \<not> allows plain_encodings (\<lambda>s. s) sample_authorizer [] PermissionWrite"
proof -
  have "presents plain_encodings [(''Authorization'', ''basic u:s'')] [115]"
    unfolding presents_def
  proof (intro exI conjI)
    show "filter (\<lambda>(name, _). eq_ignore_ascii_case name ''Authorization'') [(''Authorization'', ''basic u:s'')] =
        [(''Authorization'', ''basic'' @ '' '' @ ''u:s'')]"
      by (simp add: eq_ignore_ascii_case_def)
    show "eq_ignore_ascii_case ''basic'' ''basic''" by (simp add: eq_ignore_ascii_case_def)
    show "base64_decode plain_encodings (ascii ''u:s'') = Some ([117] @ [58] @ [115])"
      by (simp add: plain_encodings_def ascii_def)
  qed (simp_all add: ascii_whitespace_def)
  moreover have "\<not> presents plain_encodings [] s" for s by (simp add: presents_def)
  moreover have "token_digest ` holders sample_authorizer PermissionWrite = {[115]}"
    by (simp add: holders_def sample_authorizer_def)
  moreover have "allows plain_encodings (\<lambda>s. s) sample_authorizer headers PermissionWrite \<longleftrightarrow>
      (\<exists>secret. presents plain_encodings headers secret \<and> secret \<in> token_digest ` holders sample_authorizer PermissionWrite)" for headers
    using allows_exact [of sample_authorizer plain_encodings "\<lambda>s. s" headers PermissionWrite] by (simp add: sample_authorizer_def)
  ultimately show ?thesis by simp
qed

subsection \<open>Creating and revoking a token\<close>

definition loaded_tokens :: "TokenRecord list option \<Rightarrow> TokenRecord list" where
  "loaded_tokens loaded = (case loaded of Some tokens \<Rightarrow> tokens | None \<Rightarrow> [])"

lemma token_load_wf: "token_load H opened = Ok loaded \<Longrightarrow> tokens_wf (loaded_tokens loaded)"
  by (auto simp: token_load_def loaded_tokens_def run_simps tokens_wf_def dest!: token_read_wf
      split: sum.splits io_kind.splits prod.splits)

text \<open>C31: the life of a token.  When \<open>create\<close> succeeds, the file it writes loads to the tokens there were before, followed by the new
  label with the digest of the secret handed out; and revoking that label then writes the tokens there were before.\<close>

theorem create_then_revoke:
  assumes H: "hex_of H" and sha: "\<And>s. length (sha256 s) = TOKEN_BYTES"
    and load: "token_load H opened = Ok loaded"
    and create: "create_secret_token H sha256 opened name random = Ok (secret, content)"
  shows "token_load H (Ok (Ok (), content)) =
      Ok (Some (loaded_tokens loaded @ [\<lparr> token_label = name, token_digest = sha256 secret \<rparr>]))
    \<and> token_revoke H (Ok (Ok (), content)) name = Ok (token_store H (loaded_tokens loaded))"
proof -
  let ?old = "loaded_tokens loaded" and ?new = "\<lparr> token_label = name, token_digest = sha256 secret \<rparr>"
  have insert: "token_insert ?old name (sha256 (hex_encode H random)) = Ok (True, ?old @ [?new])" "content = token_store H (?old @ [?new])"
    using create load
    by (auto simp: create_secret_token_def run_simps loaded_tokens_def Let_def token_insert_def split: if_splits option.splits)
  then have fresh: "valid_label name" "name \<notin> token_label ` set ?old"
    by (auto simp: token_insert_def list_ex_iff split: if_splits)
  then have wf: "tokens_wf (?old @ [?new])" using token_load_wf [OF load] sha by (auto simp: tokens_wf_def)
  have "token_load H (Ok (Ok (), content)) = Ok (Some (?old @ [?new]))"
    using token_read_store [OF H wf] by (simp add: token_load_def insert(2) bindR_def)
  moreover have "token_remove (?old @ [?new]) name = (True, ?old)"
  proof -
    have "filter (\<lambda>r. token_label r \<noteq> name) ?old = ?old" using fresh(2) by (intro filter_True) auto
    then show ?thesis by (simp add: token_remove_def Let_def)
  qed
  ultimately show ?thesis
    by (simp add: token_revoke_def bindR_def map_err_def)
qed

theorem create_then_revoke_witness:
  "\<exists>secret content. create_secret_token standard_hex (\<lambda>s. replicate 32 0) (Inl IoNotFound) ''ci'' [1] = Ok (secret, content)
    \<and> token_revoke standard_hex (Ok (Ok (), content)) ''ci'' = Ok []"
proof -
  have H: "hex_of standard_hex" by (simp add: standard_hex_def hex16.hexlower_codec_axioms)
  obtain secret content where c: "create_secret_token standard_hex (\<lambda>s. replicate 32 0) (Inl IoNotFound) ''ci'' [1] = Ok (secret, content)"
    by (simp add: create_secret_token_def token_load_def bindR_def map_err_def Let_def token_insert_def valid_label_def
        ascii_alphanumeric_def)
  have "token_revoke standard_hex (Ok (Ok (), content)) ''ci'' = Ok (token_store standard_hex (loaded_tokens None))"
    using create_then_revoke [OF H _ _ c, of None] by (simp add: TOKEN_BYTES_def token_load_def)
  with c show ?thesis by (auto simp: token_store_def loaded_tokens_def)
qed

end
