(* ===== verification/Http_Request.thy ===== *)
theory Http_Request
  imports Rust_Str Io_Stream
begin

section \<open>Requests on a connection (\<open>src/http_server/request.rs\<close>)\<close>

text \<open>
  The head of a request is collected in a buffer of 16 KiB; each round searches only the bytes that are new and the three before
  them.  Two packages are parameters: \<open>memchr::memmem::find\<close>, with its documented law in the locale
  \<open>delimiter_search\<close>, and the parser \<open>httparse\<close>, whose result locates the parts of the request
  by ranges of the buffer.
\<close>

subsection \<open>The end of the head\<close>

definition DELIMITER :: bytes where
  "DELIMITER = [13, 10, 13, 10]"

definition delimiter_at :: "bytes \<Rightarrow> nat \<Rightarrow> bool" where
  "delimiter_at bs i = (take 4 (drop i bs) = DELIMITER)"

locale delimiter_search =
  fixes search :: "bytes \<Rightarrow> nat option"
  assumes search_Some: "search bs = Some i \<longleftrightarrow> delimiter_at bs i \<and> (\<forall>j < i. \<not> delimiter_at bs j)"

fun first_delimiter :: "bytes \<Rightarrow> nat option" where
  "first_delimiter [] = None"
| "first_delimiter (b # bs) = (if take 4 (b # bs) = DELIMITER then Some 0 else map_option Suc (first_delimiter bs))"

definition MAX_HEADER_BYTES :: nat where
  "MAX_HEADER_BYTES = 16 * 1024"

definition MAX_HEADERS :: nat where
  "MAX_HEADERS = 64"

datatype HeadError = HeadersTooLong | EmptyConnection | EndedEarly | HeadFault read_fault
  | IncompleteRequest | MalformedRequest | BoundaryMismatch | TargetOutside | HeaderOutside | HeaderNotUtf8
  | TooManyHeaders | UnsupportedTransferEncoding | InvalidContentLength | DuplicateContentLength

record BufferedHead =
  head_stream :: connection
  head_buffer :: bytes
  head_end :: nat

function head_read_loop :: "(bytes \<Rightarrow> nat option) \<Rightarrow> connection \<Rightarrow> bytes \<Rightarrow> nat \<Rightarrow> (connection \<times> HeadError) + BufferedHead" where
  "head_read_loop search stream buffer scanned_until =
    (let search_start = scanned_until - 3 in
     case search (drop search_start buffer) of
       Some offset \<Rightarrow> Ok \<lparr> head_stream = stream, head_buffer = buffer, head_end = search_start + offset + 4 \<rparr>
     | None \<Rightarrow>
         if length buffer = MAX_HEADER_BYTES then Err (stream, HeadersTooLong)
         else (case stream_read stream (MAX_HEADER_BYTES - length buffer) of
             (Inl k, stream) \<Rightarrow> Err (stream, HeadFault k)
           | (Inr bs, stream) \<Rightarrow>
               if bs = [] then Err (stream, if buffer = [] then EmptyConnection else EndedEarly)
               else head_read_loop search stream (buffer @ bs) (length buffer)))"
  by pat_completeness auto

termination
proof (relation "measure (\<lambda>(search, stream, buffer, scanned_until). MAX_HEADER_BYTES - length buffer)")
  fix search :: "bytes \<Rightarrow> nat option" and stream and buffer :: bytes and scanned_until search_start r s' bs
  assume "(r, s') = stream_read stream (MAX_HEADER_BYTES - length buffer)" "r = Inr bs" "bs \<noteq> []"
  moreover from this have "length bs \<le> MAX_HEADER_BYTES - length buffer" by (metis stream_read_length)
  ultimately show "((search, s', buffer @ bs, length buffer), (search, stream, buffer, scanned_until))
      \<in> measure (\<lambda>(search, stream, buffer, scanned_until). MAX_HEADER_BYTES - length buffer)"
    by (cases bs) auto
qed simp

declare head_read_loop.simps [simp del]

definition head_read :: "(bytes \<Rightarrow> nat option) \<Rightarrow> connection \<Rightarrow> (connection \<times> HeadError) + BufferedHead" where
  "head_read search stream = head_read_loop search stream [] 0"

subsection \<open>The parts of the head\<close>

datatype Method = Get | Head | Put | OtherMethod

datatype RequestExpectation = ExpectNone | ExpectContinue | ExpectUnsupported

datatype ConnectionDisposition = KeepAlive | Close

type_synonym range = "nat \<times> nat"

record HttpParsed =
  parsed_method :: "string option"
  parsed_path :: "range option"
  parsed_version :: "nat option"
  parsed_headers :: "(range \<times> range) list"

datatype HttpStatus = HttpComplete nat HttpParsed | HttpPartial | HttpMalformed

definition range_ok :: "bytes \<Rightarrow> range \<Rightarrow> bool" where
  "range_ok buffer r = (fst r \<le> snd r \<and> snd r \<le> length buffer)"

definition range_bytes :: "bytes \<Rightarrow> range \<Rightarrow> bytes" where
  "range_bytes buffer r = take (snd r - fst r) (drop (fst r) buffer)"

definition header_range :: "bytes \<Rightarrow> range \<times> range \<Rightarrow> HeadError + (range \<times> range)" where
  "header_range buffer header = (case header of (name, value) \<Rightarrow>
    if \<not> range_ok buffer name then Err HeaderOutside
    else if \<not> range_ok buffer value then Err HeaderOutside
    else if \<not> valid_utf8 (range_bytes buffer value) then Err HeaderNotUtf8
    else Ok (name, value))"

definition header_ranges :: "bytes \<Rightarrow> (range \<times> range) list \<Rightarrow> HeadError + (range \<times> range) list" where
  "header_ranges buffer headers =
    (if MAX_HEADERS < length headers then Err TooManyHeaders else traverse_list (header_range buffer) headers)"

definition header_texts :: "bytes \<Rightarrow> (range \<times> range) list \<Rightarrow> (string \<times> string) list" where
  "header_texts buffer headers =
    map (\<lambda>(name, value). (str_of (range_bytes buffer name), str_of (range_bytes buffer value))) headers"

definition method_from_http :: "string \<Rightarrow> Method" where
  "method_from_http m = (if m = ''GET'' then Get else if m = ''HEAD'' then Head else if m = ''PUT'' then Put else OtherMethod)"

definition request_expectation :: "nat \<Rightarrow> (string \<times> string) list \<Rightarrow> RequestExpectation" where
  "request_expectation version headers =
    (if version = 0 then ExpectNone
     else fold (\<lambda>value expectation.
         if expectation = ExpectUnsupported \<or> \<not> eq_ignore_ascii_case (str_trim value) ''100-continue''
         then ExpectUnsupported else ExpectContinue)
       (concat (map (\<lambda>(_, value). str_split (CHR '','') value)
          (filter (\<lambda>(name, _). eq_ignore_ascii_case name ''Expect'') headers))) ExpectNone)"

definition reject_unsupported_transfer_encoding :: "(string \<times> string) list \<Rightarrow> HeadError + unit" where
  "reject_unsupported_transfer_encoding headers =
    (if list_ex (\<lambda>(name, _). eq_ignore_ascii_case name ''Transfer-Encoding'') headers
     then Err UnsupportedTransferEncoding else Ok ())"

definition content_length_step :: "nat option \<Rightarrow> string \<times> string \<Rightarrow> HeadError + nat option" where
  "content_length_step found header =
    bindR (ok_or InvalidContentLength (parse_u64 (snd header))) (\<lambda>len.
    case found of Some _ \<Rightarrow> Err DuplicateContentLength | None \<Rightarrow> Ok (Some len))"

definition request_content_length :: "(string \<times> string) list \<Rightarrow> HeadError + nat option" where
  "request_content_length headers =
    bindR (reject_unsupported_transfer_encoding headers) (\<lambda>_.
    try_fold content_length_step None (filter (\<lambda>(name, _). eq_ignore_ascii_case name ''Content-Length'') headers))"

definition request_connection_disposition :: "nat \<Rightarrow> (string \<times> string) list \<Rightarrow> ConnectionDisposition" where
  "request_connection_disposition version headers =
    (let has_close_directive = list_ex (\<lambda>(name, value). eq_ignore_ascii_case name ''Connection''
           \<and> list_ex (\<lambda>v. eq_ignore_ascii_case (str_trim v) ''close'') (str_split (CHR '','') value)) headers in
     if version = 1 \<and> \<not> has_close_directive then KeepAlive else Close)"

record ParsedHead =
  http_method :: string
  head_method :: Method
  head_url :: range
  head_headers :: "(range \<times> range) list"
  head_body_length :: "nat option"
  head_connection :: ConnectionDisposition
  head_expectation :: RequestExpectation

definition parsed_head_parse :: "(bytes \<Rightarrow> HttpStatus) \<Rightarrow> BufferedHead \<Rightarrow> HeadError + ParsedHead" where
  "parsed_head_parse httparse buffered = (case httparse (head_buffer buffered) of
      HttpPartial \<Rightarrow> Err IncompleteRequest
    | HttpMalformed \<Rightarrow> Err MalformedRequest
    | HttpComplete parsed_end parsed \<Rightarrow>
        if parsed_end \<noteq> head_end buffered then Err BoundaryMismatch
        else (case (parsed_method parsed, parsed_path parsed, parsed_version parsed) of
            (Some method, Some target, Some version) \<Rightarrow>
              if \<not> range_ok (head_buffer buffered) target then Err TargetOutside
              else bindR (header_ranges (head_buffer buffered) (parsed_headers parsed)) (\<lambda>headers.
                let texts = header_texts (head_buffer buffered) headers in
                bindR (request_content_length texts) (\<lambda>body_length.
                Ok \<lparr> http_method = method, head_method = method_from_http method, head_url = target,
                     head_headers = headers, head_body_length = body_length,
                     head_connection = request_connection_disposition version texts,
                     head_expectation = request_expectation version texts \<rparr>))
          | _ \<Rightarrow> Err IncompleteRequest))"

subsection \<open>Requests and their bodies\<close>

datatype BodyState = Unread | Reading | Complete | Failed

record Request =
  req_stream :: connection
  req_buffer :: bytes
  body_prefix :: range
  req_head :: ParsedHead
  body_state :: BodyState
  req_connection :: ConnectionDisposition
  req_expectation :: RequestExpectation

definition into_request :: "(bytes \<Rightarrow> HttpStatus) \<Rightarrow> BufferedHead \<Rightarrow> (connection \<times> HeadError) + Request" where
  "into_request httparse buffered =
    bindR (map_err (\<lambda>e. (head_stream buffered, e)) (parsed_head_parse httparse buffered)) (\<lambda>parsed.
    Ok \<lparr> req_stream = head_stream buffered, req_buffer = head_buffer buffered,
         body_prefix = (head_end buffered, length (head_buffer buffered)), req_head = parsed,
         body_state = (case head_body_length parsed of Some _ \<Rightarrow> Unread | None \<Rightarrow> Complete),
         req_connection = head_connection parsed, req_expectation = head_expectation parsed \<rparr>)"

definition request_read ::
    "(bytes \<Rightarrow> nat option) \<Rightarrow> (bytes \<Rightarrow> HttpStatus) \<Rightarrow> connection \<Rightarrow> (connection \<times> HeadError) + Request" where
  "request_read search httparse stream = bindR (head_read search stream) (into_request httparse)"

definition request_headers :: "Request \<Rightarrow> (string \<times> string) list" where
  "request_headers r = header_texts (req_buffer r) (head_headers (req_head r))"

definition body_length :: "Request \<Rightarrow> nat option" where
  "body_length r = head_body_length (req_head r)"

text \<open>What \<open>acknowledge_body\<close> writes to the connection, or its error.\<close>

definition acknowledge_body :: "Request \<Rightarrow> (unit + bytes) \<times> Request" where
  "acknowledge_body r =
    ((case req_expectation r of
        ExpectNone \<Rightarrow> Ok []
      | ExpectContinue \<Rightarrow> Ok (case body_length r of
            Some len \<Rightarrow> if snd (body_prefix r) - fst (body_prefix r) < len
              then ascii (''HTTP/1.1 100 Continue'' @ [CHR 0x0D, CHR 0x0A, CHR 0x0D, CHR 0x0A]) else []
          | None \<Rightarrow> [])
      | ExpectUnsupported \<Rightarrow> Err ()),
     r\<lparr> req_expectation := ExpectNone \<rparr>)"

record BodyReader =
  br_stream :: connection
  br_prefix :: bytes
  prefix_offset :: nat
  br_remaining :: nat
  br_state :: BodyState

definition as_reader :: "Request \<Rightarrow> BodyReader option" where
  "as_reader r = (if body_state r \<noteq> Unread then None
     else let len = (case body_length r of Some n \<Rightarrow> n | None \<Rightarrow> 0) in
       Some \<lparr> br_stream = req_stream r, br_prefix = range_bytes (req_buffer r) (body_prefix r), prefix_offset = 0,
              br_remaining = len, br_state = (if len = 0 then Complete else Reading) \<rparr>)"

definition body_read :: "BodyReader \<Rightarrow> nat \<Rightarrow> (read_fault + bytes) \<times> BodyReader" where
  "body_read b n =
    (if br_remaining b = 0 \<or> n = 0 then (Ok [], b)
     else let available = length (br_prefix b) - prefix_offset b in
       if available \<noteq> 0
       then let count = min (min available n) (br_remaining b);
                b' = b\<lparr> prefix_offset := prefix_offset b + count, br_remaining := br_remaining b - count \<rparr> in
         (Ok (take count (drop (prefix_offset b) (br_prefix b))),
          if br_remaining b' = 0 then b'\<lparr> br_state := Complete \<rparr> else b')
       else (case stream_read (br_stream b) (min n (br_remaining b)) of
           (Inl k, s) \<Rightarrow> (Err k, b\<lparr> br_stream := s, br_state := Failed \<rparr>)
         | (Inr bs, s) \<Rightarrow>
             let b' = b\<lparr> br_stream := s, br_state := (if bs = [] then Failed else br_state b),
                         br_remaining := br_remaining b - length bs \<rparr> in
             (Ok bs, if br_remaining b' = 0 then b'\<lparr> br_state := Complete \<rparr> else b')))"

definition drop_reader :: "Request \<Rightarrow> BodyReader \<Rightarrow> Request" where
  "drop_reader r b = r\<lparr> req_stream := br_stream b,
     body_state := (if br_state b = Reading then Failed else br_state b) \<rparr>"

definition close_after_response :: "Request \<Rightarrow> Request" where
  "close_after_response r = r\<lparr> req_connection := Close \<rparr>"

datatype RequestBodyDisposition = FullyConsumed | StillOutstanding

definition request_body_disposition :: "Request \<Rightarrow> RequestBodyDisposition" where
  "request_body_disposition r =
    (if (body_length r = Some 0 \<and> body_state r = Unread) \<or> body_state r = Complete then FullyConsumed else StillOutstanding)"

definition response_connection_disposition :: "Request \<Rightarrow> ConnectionDisposition" where
  "response_connection_disposition r =
    (let buffered_bytes_after_body = snd (body_prefix r) - fst (body_prefix r)
           - (case body_length r of Some n \<Rightarrow> n | None \<Rightarrow> 0) in
     if req_connection r = KeepAlive \<and> request_body_disposition r = FullyConsumed \<and> buffered_bytes_after_body = 0
     then KeepAlive else Close)"

end
