(* ===== verification/Http_Framing.thy ===== *)
theory Http_Framing
  imports Http_Request
begin

section \<open>Where a request ends\<close>

text \<open>
  Two properties of the framing of requests.  The head: the incremental search finds the same end of the head as a search of
  everything that arrives, however the bytes are cut into chunks.  The body: a connection is kept for another
  request only when exactly the announced body has been taken from it, so no byte of one request is ever read as part
  of another.
\<close>

subsection \<open>Delimiters\<close>

lemma delimiter_at_length: "delimiter_at bs i \<Longrightarrow> i + 4 \<le> length bs"
proof -
  assume "delimiter_at bs i"
  then have "length (take 4 (drop i bs)) = 4" by (simp add: delimiter_at_def DELIMITER_def)
  then show ?thesis by simp
qed

lemma delimiter_at_drop: "delimiter_at (drop k bs) i \<longleftrightarrow> delimiter_at bs (k + i)"
  by (simp add: delimiter_at_def add.commute)

lemma delimiter_at_append: "i + 4 \<le> length bs \<Longrightarrow> delimiter_at (bs @ cs) i \<longleftrightarrow> delimiter_at bs i"
  by (simp add: delimiter_at_def)

lemma first_delimiter_Some:
  "first_delimiter bs = Some i \<longleftrightarrow> delimiter_at bs i \<and> (\<forall>j < i. \<not> delimiter_at bs j)"
proof (induction bs arbitrary: i)
  case Nil
  then show ?case by (simp add: delimiter_at_def DELIMITER_def)
next
  case (Cons b bs)
  have shift: "delimiter_at (b # bs) (Suc k) \<longleftrightarrow> delimiter_at bs k" for k by (simp add: delimiter_at_def)
  have zero: "delimiter_at (b # bs) 0 \<longleftrightarrow> take 4 (b # bs) = DELIMITER" by (simp add: delimiter_at_def)
  show ?case
  proof (cases i)
    case 0
    then show ?thesis using zero by (auto split: if_splits)
  next
    case (Suc k)
    have "(\<forall>j < Suc k. \<not> delimiter_at (b # bs) j) \<longleftrightarrow> \<not> delimiter_at (b # bs) 0 \<and> (\<forall>j < k. \<not> delimiter_at bs j)"
      unfolding shift [symmetric] by (auto simp: less_Suc_eq_0_disj)
    then show ?thesis using Cons.IH [of k] zero by (simp add: Suc shift)
  qed
qed

lemma first_delimiter_None: "first_delimiter bs = None \<longleftrightarrow> (\<forall>i. \<not> delimiter_at bs i)"
proof
  assume none: "first_delimiter bs = None"
  show "\<forall>i. \<not> delimiter_at bs i"
  proof (rule ccontr)
    assume "\<not> (\<forall>i. \<not> delimiter_at bs i)"
    then have "\<exists>i. delimiter_at bs i \<and> (\<forall>j < i. \<not> delimiter_at bs j)"
      using LeastI_ex [of "delimiter_at bs"] not_less_Least [of _ "delimiter_at bs"] by blast
    then show False using none unfolding first_delimiter_Some [symmetric] by auto
  qed
next
  assume "\<forall>i. \<not> delimiter_at bs i"
  then show "first_delimiter bs = None" using first_delimiter_Some [of bs] by (cases "first_delimiter bs") auto
qed

interpretation naive: delimiter_search first_delimiter
  by unfold_locales (rule first_delimiter_Some)

context delimiter_search
begin

lemma search_first: "search bs = first_delimiter bs"
proof (cases "first_delimiter bs")
  case None
  then have "search bs = None" using search_Some [of bs] unfolding first_delimiter_None by (cases "search bs") auto
  then show ?thesis using None by simp
next
  case (Some i)
  then have "search bs = Some i" unfolding search_Some first_delimiter_Some .
  then show ?thesis using Some by simp
qed

text \<open>Searching again from three bytes before the new ones finds the first delimiter of the whole buffer.\<close>

lemma overlap_search:
  assumes "\<And>j. j + 4 \<le> scanned \<Longrightarrow> \<not> delimiter_at buffer j"
  shows "map_option (\<lambda>offset. scanned - 3 + offset) (search (drop (scanned - 3) buffer)) = first_delimiter buffer"
proof (cases "first_delimiter buffer")
  case None
  then have "first_delimiter (drop (scanned - 3) buffer) = None" unfolding first_delimiter_None delimiter_at_drop by simp
  then show ?thesis using None by (simp add: search_first)
next
  case (Some i)
  then have i: "delimiter_at buffer i" "\<forall>j < i. \<not> delimiter_at buffer j" unfolding first_delimiter_Some by simp_all
  then have "scanned - 3 \<le> i" using assms [of i] by linarith
  moreover from this have "first_delimiter (drop (scanned - 3) buffer) = Some (i - (scanned - 3))"
    using i unfolding first_delimiter_Some delimiter_at_drop by auto
  ultimately show ?thesis using Some by (simp add: search_first)
qed

end

subsection \<open>The head\<close>

text \<open>What reading the head must return for the bytes \<open>data\<close>, of which some may have been read already.\<close>

definition head_result :: "bytes \<Rightarrow> (connection \<times> HeadError) + BufferedHead \<Rightarrow> bool" where
  "head_result data r = (case first_delimiter data of
      None \<Rightarrow> (\<exists>s e. r = Err (s, e))
    | Some i \<Rightarrow> if i + 4 \<le> MAX_HEADER_BYTES
        then (\<exists>b. r = Ok b \<and> head_end b = i + 4 \<and> i + 4 \<le> length (head_buffer b)
          \<and> length (head_buffer b) \<le> MAX_HEADER_BYTES \<and> head_buffer b @ stream_bytes (head_stream b) = data)
        else (\<exists>s. r = Err (s, HeadersTooLong)))"

lemma head_result_found:
  assumes "first_delimiter buffer = Some i" "length buffer \<le> MAX_HEADER_BYTES"
  shows "head_result (buffer @ stream_bytes s) (Ok \<lparr> head_stream = s, head_buffer = buffer, head_end = i + 4 \<rparr>)"
proof -
  have i: "delimiter_at buffer i" "\<forall>j < i. \<not> delimiter_at buffer j" using assms(1) unfolding first_delimiter_Some by simp_all
  then have "i + 4 \<le> length buffer" by (intro delimiter_at_length)
  then have "first_delimiter (buffer @ stream_bytes s) = Some i"
    using i unfolding first_delimiter_Some by (simp add: delimiter_at_append)
  then show ?thesis using \<open>i + 4 \<le> length buffer\<close> assms(2) by (simp add: head_result_def)
qed

lemma head_result_too_long:
  assumes "first_delimiter buffer = None" "length buffer = MAX_HEADER_BYTES"
  shows "head_result (buffer @ rest) (Err (s, HeadersTooLong))"
proof -
  have "MAX_HEADER_BYTES < i + 4" if "first_delimiter (buffer @ rest) = Some i" for i
  proof (rule ccontr)
    assume "\<not> MAX_HEADER_BYTES < i + 4"
    then have "delimiter_at buffer i"
      using that assms(2) delimiter_at_append [of i buffer rest] unfolding first_delimiter_Some by simp
    then show False using assms(1) unfolding first_delimiter_None by simp
  qed
  then show ?thesis by (fastforce simp: head_result_def split: option.splits)
qed

lemma head_read_loop_result:
  assumes search: "delimiter_search search" and "fault_free stream"
    and "\<And>j. j + 4 \<le> scanned \<Longrightarrow> \<not> delimiter_at buffer j" and "length buffer \<le> MAX_HEADER_BYTES"
  shows "head_result (buffer @ stream_bytes stream) (head_read_loop search stream buffer scanned)"
  using assms
proof (induction search stream buffer scanned rule: head_read_loop.induct)
  case (1 search stream buffer scanned)
  have overlap: "map_option (\<lambda>offset. scanned - 3 + offset) (search (drop (scanned - 3) buffer)) = first_delimiter buffer"
    by (rule delimiter_search.overlap_search [OF "1.prems"(1)]) (rule "1.prems"(3))
  show ?case
  proof (cases "search (drop (scanned - 3) buffer)")
    case (Some offset)
    then have "first_delimiter buffer = Some (scanned - 3 + offset)" using overlap by simp
    from head_result_found [OF this "1.prems"(4), of stream] show ?thesis
      by (subst head_read_loop.simps) (simp add: Some Let_def)
  next
    case None
    then have none: "first_delimiter buffer = None" using overlap by simp
    show ?thesis
    proof (cases "length buffer = MAX_HEADER_BYTES")
      case True
      from head_result_too_long [OF none True] show ?thesis
        by (subst head_read_loop.simps) (simp add: None True Let_def)
    next
      case False
      obtain bs s where read: "stream_read stream (MAX_HEADER_BYTES - length buffer) = (Ok bs, s)" and s: "fault_free s"
        using stream_read_fault_free [OF "1.prems"(2)] by blast
      have bytes: "bs @ stream_bytes s = stream_bytes stream" by (rule stream_read_bytes [OF read])
      show ?thesis
      proof (cases "bs = []")
        case True
        then have "stream_bytes stream = []" using stream_read_end read False "1.prems"(4) by simp
        then show ?thesis
          using True read False none by (subst head_read_loop.simps) (simp add: None Let_def head_result_def)
      next
        case nonempty: False
        have "length (buffer @ bs) \<le> MAX_HEADER_BYTES" using stream_read_length [OF read] "1.prems"(4) by simp
        moreover have "\<not> delimiter_at (buffer @ bs) j" if "j + 4 \<le> length buffer" for j
          using that none delimiter_at_append unfolding first_delimiter_None by blast
        ultimately have "head_result ((buffer @ bs) @ stream_bytes s) (head_read_loop search s (buffer @ bs) (length buffer))"
          using "1.IH" [OF refl None False read [symmetric] refl nonempty "1.prems"(1) s] by blast
        then show ?thesis
          using bytes read False nonempty by (subst head_read_loop.simps) (simp add: None Let_def)
      qed
    qed
  qed
qed

text \<open>C33: reading the head of a request is independent of how its bytes arrive.  On a connection without faults the
  incremental search, which looks at every byte once apart from an overlap of three, succeeds exactly when the first blank line
  of everything that arrives ends within 16 KiB, and then reports that end; the bytes read beyond it and the rest of the connection
  are kept, so nothing is lost.  It always terminates.\<close>

theorem head_read_exact:
  assumes "delimiter_search search" and "fault_free stream"
  shows "head_result (stream_bytes stream) (head_read search stream)"
  using head_read_loop_result [OF assms, of 0 "[]"] by (simp add: head_read_def delimiter_at_def DELIMITER_def)

theorem head_read_exact_witness:
  "head_result (ascii ''G'' @ DELIMITER @ [1]) (head_read first_delimiter [Chunk (ascii ''G'' @ [13, 10]), Chunk [13, 10, 1]])"
  using head_read_exact [OF naive.delimiter_search_axioms, of "[Chunk (ascii ''G'' @ [13, 10]), Chunk [13, 10, 1]]"]
  by (simp add: fault_free_def DELIMITER_def)

subsection \<open>The body\<close>

text \<open>A handler reads the body with buffers of any sizes, errors notwithstanding, and drops the reader.\<close>

fun body_reads :: "BodyReader \<Rightarrow> nat list \<Rightarrow> bytes \<times> BodyReader" where
  "body_reads b [] = ([], b)"
| "body_reads b (n # ns) = (case body_read b n of (r, b1) \<Rightarrow> case body_reads b1 ns of (d, b2) \<Rightarrow>
    ((case r of Inr bs \<Rightarrow> bs | Inl _ \<Rightarrow> []) @ d, b2))"

definition consume_body :: "Request \<Rightarrow> nat list \<Rightarrow> bytes \<times> Request" where
  "consume_body r ns = (case as_reader r of
      None \<Rightarrow> ([], r)
    | Some b \<Rightarrow> (case body_reads b ns of (d, b') \<Rightarrow> (d, drop_reader r b')))"

definition announced :: "Request \<Rightarrow> nat" where
  "announced r = (case body_length r of Some n \<Rightarrow> n | None \<Rightarrow> 0)"

definition body_inv :: "bytes \<Rightarrow> bytes \<Rightarrow> nat \<Rightarrow> bytes \<Rightarrow> BodyReader \<Rightarrow> bool" where
  "body_inv P S L d b = (br_prefix b = P \<and> prefix_offset b = min (length d) (length P) \<and> br_remaining b + length d = L
    \<and> d @ drop (prefix_offset b) P @ stream_bytes (br_stream b) = P @ S
    \<and> (br_state b = Complete \<longrightarrow> br_remaining b = 0))"

lemma body_read_keeps:
  assumes inv: "body_inv P S L d b" and read: "body_read b n = (r, b')"
  shows "body_inv P S L (d @ (case r of Inr bs \<Rightarrow> bs | Inl _ \<Rightarrow> [])) b'"
proof (cases "br_remaining b = 0 \<or> n = 0")
  case True
  then show ?thesis using inv read by (auto simp: body_read_def)
next
  case go: False
  show ?thesis
  proof (cases "length P - prefix_offset b = 0")
    case False
    then have off: "prefix_offset b = length d" "length d < length P" using inv by (auto simp: body_inv_def)
    define c where "c = min (min (length P - length d) n) (br_remaining b)"
    have "r = Ok (take c (drop (length d) P))" "br_prefix b' = P" "prefix_offset b' = length d + c"
        "br_remaining b' = br_remaining b - c" "br_stream b' = br_stream b"
        "br_state b' = Complete \<longrightarrow> br_remaining b' = 0"
      using go False read inv off by (auto simp: body_read_def Let_def body_inv_def c_def split: if_splits)
    moreover have "c \<le> length P - length d" "c \<le> br_remaining b" by (simp_all add: c_def)
    moreover have "d @ (take c (drop (length d) P) @ drop c (drop (length d) P)) @ stream_bytes (br_stream b) = P @ S"
      using inv off unfolding append_take_drop_id by (simp add: body_inv_def)
    then have "d @ take c (drop (length d) P) @ drop (length d + c) P @ stream_bytes (br_stream b) = P @ S"
      by (simp add: add.commute del: append_take_drop_id)
    ultimately show ?thesis using inv off(2) by (simp add: body_inv_def)
  next
    case True
    then have off: "prefix_offset b = length P" "length P \<le> length d" using inv by (auto simp: body_inv_def)
    obtain r0 s where sr: "stream_read (br_stream b) (min n (br_remaining b)) = (r0, s)" by fastforce
    show ?thesis
    proof (cases r0)
      case (Inl k)
      then have "r = Err k" "b' = b\<lparr> br_stream := s, br_state := Failed \<rparr>"
        using go True read inv sr by (auto simp: body_read_def Let_def body_inv_def)
      moreover have "stream_bytes s = stream_bytes (br_stream b)" using sr unfolding Inl by (rule stream_read_fault)
      ultimately show ?thesis using inv off by (simp add: body_inv_def)
    next
      case (Inr bs)
      then have "r = Ok bs" "br_prefix b' = P" "prefix_offset b' = prefix_offset b" "br_remaining b' = br_remaining b - length bs"
          "br_stream b' = s" "br_state b' = Complete \<longrightarrow> br_remaining b' = 0"
        using go True read inv sr by (auto simp: body_read_def Let_def body_inv_def split: if_splits)
      moreover have "length bs \<le> br_remaining b" "bs @ stream_bytes s = stream_bytes (br_stream b)"
        using stream_read_length [OF sr [unfolded Inr]] stream_read_bytes [OF sr [unfolded Inr]] by simp_all
      ultimately show ?thesis using inv off by (simp add: body_inv_def)
    qed
  qed
qed

lemma body_reads_keeps:
  "body_inv P S L d b \<Longrightarrow> body_reads b ns = (e, b') \<Longrightarrow> body_inv P S L (d @ e) b'"
proof (induction ns arbitrary: b d e)
  case (Cons n ns)
  obtain r b1 where read: "body_read b n = (r, b1)" by fastforce
  obtain e2 b2 where rest: "body_reads b1 ns = (e2, b2)" by fastforce
  have "e = (case r of Inr bs \<Rightarrow> bs | Inl _ \<Rightarrow> []) @ e2" "b' = b2" using Cons.prems(2) read rest by simp_all
  then show ?case using Cons.IH [OF body_read_keeps [OF Cons.prems(1) read]] rest by simp
qed simp

text \<open>A reader made for a request: its invariant, and what a kept connection then means.\<close>

lemma as_reader_inv:
  assumes "as_reader r = Some b"
  shows "body_inv (range_bytes (req_buffer r) (body_prefix r)) (stream_bytes (req_stream r)) (announced r) [] b"
  using assms by (auto simp: as_reader_def body_inv_def announced_def Let_def split: if_splits)

lemma body_inv_complete:
  assumes "body_inv P S L d b" "br_remaining b = 0" "length P \<le> L"
  shows "length d = L \<and> d @ stream_bytes (br_stream b) = P @ S"
proof -
  have "length d = L" using assms by (simp add: body_inv_def)
  moreover from this have "prefix_offset b = length P" using assms by (simp add: body_inv_def)
  ultimately show ?thesis using assms(1) by (simp add: body_inv_def)
qed

lemma head_read_loop_keeps:
  assumes "delimiter_search search" "head_read_loop search stream buffer scanned = Ok b"
  shows "head_buffer b @ stream_bytes (head_stream b) = buffer @ stream_bytes stream \<and> head_end b \<le> length (head_buffer b)"
  using assms
proof (induction search stream buffer scanned rule: head_read_loop.induct)
  case (1 search stream buffer scanned)
  show ?case
  proof (cases "search (drop (scanned - 3) buffer)")
    case (Some offset)
    then have "delimiter_at (drop (scanned - 3) buffer) offset"
      using delimiter_search.search_Some [OF "1.prems"(1)] by blast
    then have "scanned - 3 + offset + 4 \<le> length buffer"
      unfolding delimiter_at_drop by (rule delimiter_at_length)
    then show ?thesis using "1.prems"(2) Some by (subst (asm) head_read_loop.simps) (auto simp: Let_def)
  next
    case None
    then obtain bs s where read: "length buffer \<noteq> MAX_HEADER_BYTES" "stream_read stream (MAX_HEADER_BYTES - length buffer) = (Ok bs, s)"
        "bs \<noteq> []" "head_read_loop search s (buffer @ bs) (length buffer) = Ok b"
      using "1.prems"(2) by (subst (asm) head_read_loop.simps) (auto simp: Let_def split: if_splits sum.splits prod.splits)
    from "1.IH" [OF refl None read(1) read(2) [symmetric] refl read(3) "1.prems"(1) read(4)] stream_read_bytes [OF read(2)]
    show ?thesis by simp
  qed
qed

lemma request_read_parts:
  assumes "delimiter_search search" "request_read search httparse stream = Ok r"
  shows "take (fst (body_prefix r)) (req_buffer r) @ range_bytes (req_buffer r) (body_prefix r) @ stream_bytes (req_stream r) =
      stream_bytes stream"
    and "snd (body_prefix r) - fst (body_prefix r) = length (range_bytes (req_buffer r) (body_prefix r))"
    and "body_state r = Unread \<longleftrightarrow> body_length r \<noteq> None" and "body_state r = Complete \<longleftrightarrow> body_length r = None"
proof -
  obtain h where h: "head_read search stream = Ok h" "into_request httparse h = Ok r"
    using assms(2) by (auto simp: request_read_def run_simps)
  have "head_buffer h @ stream_bytes (head_stream h) = stream_bytes stream" "head_end h \<le> length (head_buffer h)"
    using head_read_loop_keeps [OF assms(1), of stream "[]" 0 h] h(1) by (simp_all add: head_read_def)
  moreover have "req_buffer r = head_buffer h" "body_prefix r = (head_end h, length (head_buffer h))" "req_stream r = head_stream h"
      "body_state r = (case body_length r of Some _ \<Rightarrow> Unread | None \<Rightarrow> Complete)"
    using h(2) by (auto simp: into_request_def run_simps body_length_def)
  ultimately show "take (fst (body_prefix r)) (req_buffer r) @ range_bytes (req_buffer r) (body_prefix r) @ stream_bytes (req_stream r) =
      stream_bytes stream"
      "snd (body_prefix r) - fst (body_prefix r) = length (range_bytes (req_buffer r) (body_prefix r))"
      "body_state r = Unread \<longleftrightarrow> body_length r \<noteq> None" "body_state r = Complete \<longleftrightarrow> body_length r = None"
    by (simp_all add: range_bytes_def flip: append_assoc split: option.splits)
qed

lemma kept_connection:
  assumes "response_connection_disposition r = KeepAlive"
  shows "snd (body_prefix r) - fst (body_prefix r) \<le> announced r"
    and "(body_length r = Some 0 \<and> body_state r = Unread) \<or> body_state r = Complete"
  using assms by (auto simp: response_connection_disposition_def request_body_disposition_def announced_def Let_def split: if_splits)

text \<open>C34: no byte of one request is read as part of another.  A request is read from a connection and a handler reads its
  body with any buffer sizes, or not at all.  If the connection is then kept for another request, the bytes taken from it are the head
  and the announced body, complete, and what is left on the connection is everything that comes after the body.\<close>

theorem kept_connection_is_framed:
  assumes search: "delimiter_search search" and request: "request_read search httparse stream = Ok r"
    and body: "(body, r') \<in> {([], r), consume_body r sizes}"
    and keep: "response_connection_disposition r' = KeepAlive"
  shows "length body = announced r
    \<and> take (fst (body_prefix r)) (req_buffer r) @ body @ stream_bytes (req_stream r') = stream_bytes stream"
proof -
  note parts = request_read_parts [OF search request]
  let ?P = "range_bytes (req_buffer r) (body_prefix r)"
  show ?thesis
  proof (cases "as_reader r = None \<or> (body, r') = ([], r)")
    case True
    then have eq: "body = []" "r' = r" using body by (auto simp: consume_body_def)
    then have "announced r = 0" using kept_connection(2) [OF keep] parts(3,4) by (auto simp: announced_def)
    moreover from this have "?P = []" using kept_connection(1) [OF keep] parts(2) eq by simp
    ultimately show ?thesis using parts(1) eq by simp
  next
    case False
    then obtain b b' where b: "as_reader r = Some b" "body_reads b sizes = (body, b')" "r' = drop_reader r b'"
      using body by (auto simp: consume_body_def split: prod.splits)
    have same: "body_prefix r' = body_prefix r" "announced r' = announced r" "body_length r' = body_length r"
        "req_stream r' = br_stream b'"
      by (simp_all add: b(3) drop_reader_def announced_def body_length_def)
    have inv: "body_inv ?P (stream_bytes (req_stream r)) (announced r) body b'"
      using body_reads_keeps [OF as_reader_inv [OF b(1)] b(2)] by simp
    have "br_state b' = Complete \<or> (body_length r = Some 0 \<and> br_state b' = Unread)"
      using kept_connection(2) [OF keep] same(3) by (auto simp: b(3) drop_reader_def split: if_splits)
    then have "br_remaining b' = 0" using inv by (auto simp: body_inv_def announced_def)
    moreover have "length ?P \<le> announced r" using kept_connection(1) [OF keep] parts(2) same(1,2) by simp
    ultimately show ?thesis using body_inv_complete [OF inv] parts(1) same(4) by simp
  qed
qed

text \<open>A parser that accepts a head of fixed shape, an upload of two bytes whose first one arrives with the head, and the next
  request behind it.\<close>

definition sample_httparse :: "bytes \<Rightarrow> HttpStatus" where
  "sample_httparse buffer = HttpComplete 25 \<lparr> parsed_method = Some ''PUT'', parsed_path = Some (0, 1), parsed_version = Some 1,
     parsed_headers = [((2, 16), (17, 18))] \<rparr>"

definition sample_head :: bytes where
  "sample_head = ascii ''/ Content-Length:2   '' @ DELIMITER"

definition sample_upload :: connection where
  "sample_upload = [Chunk (sample_head @ [7]), Chunk [8], Chunk [9]]"

lemma eq_ignore_length: "length a \<noteq> length b \<Longrightarrow> \<not> eq_ignore_ascii_case a b"
  unfolding eq_ignore_ascii_case_def by (metis length_map)

lemma sample_head_read: "head_read first_delimiter sample_upload =
    Ok \<lparr> head_stream = [Chunk [8], Chunk [9]], head_buffer = sample_head @ [7], head_end = 25 \<rparr>"
proof -
  have d: "first_delimiter (sample_head @ [7]) = Some 21"
    by (simp add: sample_head_def DELIMITER_def ascii_def)
  have l: "length sample_head = 25" by (simp add: sample_head_def DELIMITER_def)
  show ?thesis
    unfolding head_read_def sample_upload_def
    apply (subst head_read_loop.simps)
    apply (subst head_read_loop.simps)
    using d l by (simp add: MAX_HEADER_BYTES_def sample_head_def)
qed

lemma sample_texts: "header_texts (sample_head @ [7]) [((2, 16), (17, 18))] = [(''Content-Length'', ''2'')]"
proof -
  have "range_bytes (sample_head @ [7]) (2, 16) = ascii ''Content-Length''" "range_bytes (sample_head @ [7]) (17, 18) = ascii ''2''"
    by (simp_all add: range_bytes_def sample_head_def ascii_def DELIMITER_def)
  then show ?thesis by (simp add: header_texts_def)
qed

lemma sample_parse: "parsed_head_parse sample_httparse
    \<lparr> head_stream = [Chunk [8], Chunk [9]], head_buffer = sample_head @ [7], head_end = 25 \<rparr> =
  Ok \<lparr> http_method = ''PUT'', head_method = Put, head_url = (0, 1), head_headers = [((2, 16), (17, 18))], head_body_length = Some 2,
    head_connection = KeepAlive, head_expectation = ExpectNone \<rparr>"
proof -
  have len: "length sample_head = 25" by (simp add: sample_head_def DELIMITER_def)
  have "range_bytes (sample_head @ [7]) (17, 18) = [50]"
    by (simp add: range_bytes_def sample_head_def ascii_def DELIMITER_def)
  then have ranges: "header_ranges (sample_head @ [7]) [((2, 16), (17, 18))] = Ok [((2, 16), (17, 18))]"
    using len by (simp add: header_ranges_def header_range_def MAX_HEADERS_def range_ok_def bindR_def)
  have names: "eq_ignore_ascii_case ''Content-Length'' ''Content-Length''" "\<not> eq_ignore_ascii_case ''Content-Length'' ''Transfer-Encoding''"
      "\<not> eq_ignore_ascii_case ''Content-Length'' ''Connection''" "\<not> eq_ignore_ascii_case ''Content-Length'' ''Expect''"
    by (simp add: eq_ignore_ascii_case_def, (rule eq_ignore_length, simp)+)
  have "parse_u64 ''2'' = Some 2" by (simp add: parse_u64_def ascii_digit_def u64_max_def)
  then have "request_content_length [(''Content-Length'', ''2'')] = Ok (Some 2)"
    using names by (simp add: request_content_length_def reject_unsupported_transfer_encoding_def content_length_step_def ok_or_def bindR_def)
  moreover have "request_connection_disposition 1 [(''Content-Length'', ''2'')] = KeepAlive"
      "request_expectation 1 [(''Content-Length'', ''2'')] = ExpectNone"
    using names by (simp_all add: request_connection_disposition_def request_expectation_def)
  ultimately show ?thesis
    using ranges sample_texts len
    by (simp add: parsed_head_parse_def sample_httparse_def range_ok_def bindR_def method_from_http_def)
qed

lemma sample_body:
  "consume_body \<lparr> req_stream = [Chunk [8], Chunk [9]], req_buffer = sample_head @ [7], body_prefix = (25, 26), req_head = h,
     body_state = Unread, req_connection = KeepAlive, req_expectation = ExpectNone \<rparr> [10, 10] =
   ([7, 8], \<lparr> req_stream = [Chunk [9]], req_buffer = sample_head @ [7], body_prefix = (25, 26), req_head = h,
     body_state = Complete, req_connection = KeepAlive, req_expectation = ExpectNone \<rparr>)"
  if "head_body_length h = Some 2" for h
proof -
  have "length sample_head = 25" by (simp add: sample_head_def DELIMITER_def)
  then show ?thesis
    using that by (simp add: consume_body_def as_reader_def body_length_def range_bytes_def body_read_def drop_reader_def Let_def)
qed

theorem kept_connection_is_framed_witness:
  "\<exists>r body r'. request_read first_delimiter sample_httparse sample_upload = Ok r \<and> consume_body r [10, 10] = (body, r')
    \<and> response_connection_disposition r' = KeepAlive \<and> length body = announced r"
proof -
  define h where "h = \<lparr> http_method = ''PUT'', head_method = Put, head_url = (0, 1), head_headers = [((2, 16), (17, 18))],
    head_body_length = Some 2, head_connection = KeepAlive, head_expectation = ExpectNone \<rparr>"
  define r where "r = \<lparr> req_stream = [Chunk [8], Chunk [9]], req_buffer = sample_head @ [7], body_prefix = (25, 26), req_head = h,
    body_state = Unread, req_connection = KeepAlive, req_expectation = ExpectNone \<rparr>"
  define r' where "r' = \<lparr> req_stream = [Chunk [9]], req_buffer = sample_head @ [7], body_prefix = (25, 26), req_head = h,
    body_state = Complete, req_connection = KeepAlive, req_expectation = ExpectNone \<rparr>"
  have "request_read first_delimiter sample_httparse sample_upload = Ok r"
    using sample_head_read sample_parse
    by (simp add: request_read_def into_request_def bindR_def map_err_def r_def h_def sample_head_def DELIMITER_def)
  moreover have "consume_body r [10, 10] = ([7, 8], r')"
    unfolding r_def r'_def by (rule sample_body) (simp add: h_def)
  moreover have "response_connection_disposition r' = KeepAlive"
    by (simp add: response_connection_disposition_def request_body_disposition_def body_length_def r'_def h_def)
  moreover have "length [7 :: byte, 8] = announced r"
    using kept_connection_is_framed [OF naive.delimiter_search_axioms, of sample_httparse sample_upload r "[7, 8]" r' "[10, 10]"]
      calculation by simp
  ultimately show ?thesis by blast
qed

end
