(* ===== verification/Verified_Stream.thy ===== *)
theory Verified_Stream
  imports Io_Stream Object
begin

section \<open>Verified streams (\<open>src/verified_stream.rs\<close>)\<close>

text \<open>
  A stream of known size and digest, written into a pipe by a producer thread.  The reader signals the end of the stream
  only after the digest of everything delivered has been compared, the pipe has been found empty, and the
  producer has reported success.  The producer's result is an input: \<open>None\<close> when its channel was dropped.  The
  running digest is the sequence of bytes it has been fed; the hash function is a parameter.
\<close>

datatype StreamError = StreamFailedState | IdentityMismatch | ProducerExceeded | EndedBeforeSize | ProducerDropped
  | ProducerFailed io_kind | StreamFault read_fault

record 'p ReceivingStream =
  rs_reader :: connection
  rs_limit :: nat
  rs_producer :: "(io_kind + unit) option"
  rs_expected :: "'p ContentIdentity"
  rs_digest :: bytes

datatype 'p StreamState = Streaming "'p ReceivingStream" | StreamComplete | StreamFailed

definition verified_stream_new :: "'p ContentIdentity \<Rightarrow> connection \<Rightarrow> (io_kind + unit) option \<Rightarrow> 'p StreamState" where
  "verified_stream_new expected reader producer = Streaming \<lparr> rs_reader = reader,
     rs_limit = count_get (content_size expected), rs_producer = producer, rs_expected = expected, rs_digest = [] \<rparr>"

text \<open>A read that is repeated while it is interrupted.\<close>

lemma stream_read_interrupted: "stream_read s n = (Err f, s') \<Longrightarrow> length s' < length s"
  by (induction s n rule: stream_read.induct) (auto split: if_splits)

function read_uninterrupted_chunk :: "connection \<Rightarrow> nat \<Rightarrow> (read_fault + bytes) \<times> connection" where
  "read_uninterrupted_chunk s n = (case stream_read s n of
      (Inl ReadInterrupted, s') \<Rightarrow> read_uninterrupted_chunk s' n
    | r \<Rightarrow> r)"
  by auto

termination
  by (relation "measure (\<lambda>(s, n). length s)") (simp_all, metis stream_read_interrupted)

declare read_uninterrupted_chunk.simps [simp del]

text \<open>The same on a reader limited by \<open>Take\<close>, which never asks for more than its limit and returns nothing once that is used up.\<close>

definition take_read :: "'p ReceivingStream \<Rightarrow> nat \<Rightarrow> (read_fault + bytes) \<times> 'p ReceivingStream" where
  "take_read st n =
    (if rs_limit st = 0 then (Ok [], st)
     else (case read_uninterrupted_chunk (rs_reader st) (min n (rs_limit st)) of
         (Inl f, s) \<Rightarrow> (Err f, st\<lparr> rs_reader := s \<rparr>)
       | (Inr bs, s) \<Rightarrow> (Ok bs, st\<lparr> rs_reader := s, rs_limit := rs_limit st - length bs \<rparr>)))"

definition wait_for_producer_completion :: "(io_kind + unit) option \<Rightarrow> StreamError + unit" where
  "wait_for_producer_completion producer = (case producer of
      None \<Rightarrow> Err ProducerDropped
    | Some (Inl k) \<Rightarrow> Err (ProducerFailed k)
    | Some (Inr _) \<Rightarrow> Ok ())"

definition read_chunk :: "'p ReceivingStream \<Rightarrow> nat \<Rightarrow> StreamError + bytes \<times> 'p ReceivingStream" where
  "read_chunk st n = (case take_read st n of
      (Inl f, st) \<Rightarrow> Err (StreamFault f)
    | (Inr bs, st) \<Rightarrow>
        if bs = [] \<and> rs_limit st \<noteq> 0
        then bindR (wait_for_producer_completion (rs_producer st)) (\<lambda>_. Err EndedBeforeSize)
        else Ok (bs, st\<lparr> rs_digest := rs_digest st @ bs \<rparr>))"

definition verify_identity_and_producer_completion :: "(bytes \<Rightarrow> bytes) \<Rightarrow> 'p ReceivingStream \<Rightarrow> StreamError + unit" where
  "verify_identity_and_producer_completion sha256 st =
    (if Sha256Digest (sha256 (rs_digest st)) \<noteq> content_hash (rs_expected st) then Err IdentityMismatch
     else (case read_uninterrupted_chunk (rs_reader st) 1 of
         (Inl f, _) \<Rightarrow> Err (StreamFault f)
       | (Inr bs, _) \<Rightarrow> if bs \<noteq> [] then Err ProducerExceeded else wait_for_producer_completion (rs_producer st)))"

definition read_and_verify_completion ::
    "(bytes \<Rightarrow> bytes) \<Rightarrow> 'p ReceivingStream \<Rightarrow> nat \<Rightarrow> StreamError + 'p StreamState \<times> bytes" where
  "read_and_verify_completion sha256 st n =
    bindR (read_chunk st n) (\<lambda>(bs, st).
    if rs_limit st = 0
    then bindR (verify_identity_and_producer_completion sha256 st) (\<lambda>_. Ok (StreamComplete, bs))
    else Ok (Streaming st, bs))"

definition state_read :: "(bytes \<Rightarrow> bytes) \<Rightarrow> 'p StreamState \<Rightarrow> nat \<Rightarrow> StreamError + 'p StreamState \<times> bytes" where
  "state_read sha256 state n = (case state of
      Streaming st \<Rightarrow> read_and_verify_completion sha256 st n
    | StreamComplete \<Rightarrow> Ok (StreamComplete, [])
    | StreamFailed \<Rightarrow> Err StreamFailedState)"

text \<open>A read replaces the state by \<open>Failed\<close> and puts the new one back only on success.\<close>

definition verified_read :: "(bytes \<Rightarrow> bytes) \<Rightarrow> 'p StreamState \<Rightarrow> nat \<Rightarrow> (StreamError + bytes) \<times> 'p StreamState" where
  "verified_read sha256 state n =
    (if n = 0 then (Ok [], state)
     else (case state_read sha256 state n of
         Inl e \<Rightarrow> (Err e, StreamFailed)
       | Inr (next_state, bs) \<Rightarrow> (Ok bs, next_state)))"

subsection \<open>What a consumer can rely on\<close>

fun verified_reads :: "(bytes \<Rightarrow> bytes) \<Rightarrow> 'p StreamState \<Rightarrow> nat list \<Rightarrow> bytes \<times> 'p StreamState" where
  "verified_reads sha256 state [] = ([], state)"
| "verified_reads sha256 state (n # ns) = (case verified_read sha256 state n of (r, state1) \<Rightarrow>
    case verified_reads sha256 state1 ns of (d, state2) \<Rightarrow> ((case r of Inr bs \<Rightarrow> bs | Inl _ \<Rightarrow> []) @ d, state2))"

lemma read_uninterrupted_bytes:
  "read_uninterrupted_chunk s n = (Ok bs, s') \<Longrightarrow> bs @ stream_bytes s' = stream_bytes s \<and> length bs \<le> n"
proof (induction s n rule: read_uninterrupted_chunk.induct)
  case (1 s n)
  obtain r s1 where r: "stream_read s n = (r, s1)" by fastforce
  show ?case
  proof (cases "r = Err ReadInterrupted")
    case True
    then have "read_uninterrupted_chunk s1 n = (Ok bs, s')"
      using "1.prems" r by (subst (asm) read_uninterrupted_chunk.simps) simp
    then show ?thesis using "1.IH" [of r s1 ReadInterrupted] r True stream_read_fault [of s n ReadInterrupted s1] by simp
  next
    case False
    then have "stream_read s n = (Ok bs, s')"
      using "1.prems" r by (subst (asm) read_uninterrupted_chunk.simps) (auto split: sum.splits read_fault.splits)
    then show ?thesis using stream_read_bytes stream_read_length by blast
  qed
qed

lemma read_uninterrupted_end:
  "read_uninterrupted_chunk s n = (Ok [], s') \<Longrightarrow> 0 < n \<Longrightarrow> stream_bytes s = []"
proof (induction s n rule: read_uninterrupted_chunk.induct)
  case (1 s n)
  obtain r s1 where r: "stream_read s n = (r, s1)" by fastforce
  show ?case
  proof (cases "r = Err ReadInterrupted")
    case True
    then have "read_uninterrupted_chunk s1 n = (Ok [], s')"
      using "1.prems"(1) r by (subst (asm) read_uninterrupted_chunk.simps) simp
    then show ?thesis
      using "1.IH" [of r s1 ReadInterrupted] r True "1.prems"(2) stream_read_fault [of s n ReadInterrupted s1] by simp
  next
    case False
    then have "stream_read s n = (Ok [], s')"
      using "1.prems"(1) r by (subst (asm) read_uninterrupted_chunk.simps) (auto split: sum.splits read_fault.splits)
    then show ?thesis using stream_read_end "1.prems"(2) by blast
  qed
qed

definition verified :: "(bytes \<Rightarrow> bytes) \<Rightarrow> 'p ContentIdentity \<Rightarrow> connection \<Rightarrow> (io_kind + unit) option \<Rightarrow> bytes \<Rightarrow> bool" where
  "verified sha256 expected source producer d = (length d = count_get (content_size expected)
    \<and> Sha256Digest (sha256 d) = content_hash expected \<and> d = stream_bytes source \<and> producer = Some (Ok ()))"

definition stream_inv ::
    "(bytes \<Rightarrow> bytes) \<Rightarrow> 'p ContentIdentity \<Rightarrow> connection \<Rightarrow> (io_kind + unit) option \<Rightarrow> bytes \<Rightarrow> 'p StreamState \<Rightarrow> bool" where
  "stream_inv sha256 expected source producer d state = (case state of
      Streaming st \<Rightarrow> rs_producer st = producer \<and> rs_expected st = expected \<and> rs_digest st = d
        \<and> rs_limit st + length d = count_get (content_size expected)
        \<and> d @ stream_bytes (rs_reader st) = stream_bytes source
    | StreamComplete \<Rightarrow> verified sha256 expected source producer d
    | StreamFailed \<Rightarrow> True)"

lemma take_read_bytes:
  assumes "take_read st n = (Ok bs, st')"
  shows "bs @ stream_bytes (rs_reader st') = stream_bytes (rs_reader st)" "rs_limit st' + length bs = rs_limit st"
    "rs_producer st' = rs_producer st" "rs_expected st' = rs_expected st" "rs_digest st' = rs_digest st"
  using assms
  by (auto simp: take_read_def dest!: read_uninterrupted_bytes split: if_splits prod.splits sum.splits)

lemma verify_completion:
  assumes "verify_identity_and_producer_completion sha256 st = Ok ()"
  shows "Sha256Digest (sha256 (rs_digest st)) = content_hash (rs_expected st)" "stream_bytes (rs_reader st) = []"
    "rs_producer st = Some (Ok ())"
  using assms
  by (auto simp: verify_identity_and_producer_completion_def wait_for_producer_completion_def dest: read_uninterrupted_end
      split: if_splits prod.splits sum.splits option.splits)

lemma read_and_verify_keeps:
  assumes inv: "stream_inv sha256 expected source producer d (Streaming st)"
    and read: "read_and_verify_completion sha256 st n = Ok (state', bs)"
  shows "stream_inv sha256 expected source producer (d @ bs) state' \<and> (bs = [] \<longrightarrow> state' = StreamComplete)"
proof -
  obtain st' where t: "take_read st n = (Ok bs, st')" and b: "bs = [] \<longrightarrow> rs_limit st' = 0"
    and s: "if rs_limit st' = 0
        then verify_identity_and_producer_completion sha256 (st'\<lparr> rs_digest := rs_digest st' @ bs \<rparr>) = Ok () \<and> state' = StreamComplete
        else state' = Streaming (st'\<lparr> rs_digest := rs_digest st' @ bs \<rparr>)"
    using read by (auto simp: read_and_verify_completion_def read_chunk_def run_simps split: prod.splits sum.splits if_splits)
  note bytes = take_read_bytes [OF t]
  show ?thesis
  proof (cases "rs_limit st' = 0")
    case True
    then have v: "verify_identity_and_producer_completion sha256 (st'\<lparr> rs_digest := rs_digest st' @ bs \<rparr>) = Ok ()" using s by simp
    have "length (d @ bs) = count_get (content_size expected)" using bytes(2) inv True by (simp add: stream_inv_def)
    moreover have "d @ bs = stream_bytes source" using verify_completion(2) [OF v] bytes(1) inv by (simp add: stream_inv_def)
    ultimately have "verified sha256 expected source producer (d @ bs)"
      using verify_completion(1,3) [OF v] bytes inv unfolding verified_def by (simp add: stream_inv_def)
    then show ?thesis using s True by (simp add: stream_inv_def)
  next
    case False
    then have "state' = Streaming (st'\<lparr> rs_digest := rs_digest st' @ bs \<rparr>)" using s by simp
    then show ?thesis using bytes inv False b by (auto simp: stream_inv_def)
  qed
qed

lemma verified_read_keeps:
  assumes "stream_inv sha256 expected source producer d state" "verified_read sha256 state n = (r, state')"
  shows "stream_inv sha256 expected source producer (d @ (case r of Inr bs \<Rightarrow> bs | Inl _ \<Rightarrow> [])) state'"
proof (cases state)
  case (Streaming st)
  then show ?thesis
    using assms read_and_verify_keeps [of sha256 expected source producer d st n]
    by (auto simp: verified_read_def state_read_def stream_inv_def split: if_splits sum.splits prod.splits)
qed (use assms in \<open>auto simp: verified_read_def state_read_def stream_inv_def split: if_splits\<close>)

lemma verified_reads_keep:
  "stream_inv sha256 expected source producer d state \<Longrightarrow> verified_reads sha256 state ns = (e, state')
    \<Longrightarrow> stream_inv sha256 expected source producer (d @ e) state'"
proof (induction ns arbitrary: d e state)
  case (Cons n ns)
  obtain r state1 where r: "verified_read sha256 state n = (r, state1)" by fastforce
  obtain e2 state2 where rest: "verified_reads sha256 state1 ns = (e2, state2)" by fastforce
  have "e = (case r of Inr bs \<Rightarrow> bs | Inl _ \<Rightarrow> []) @ e2" "state' = state2" using Cons.prems(2) r rest by simp_all
  then show ?case using Cons.IH [OF verified_read_keeps [OF Cons.prems(1) r]] rest by simp
qed simp

text \<open>C35: the end of a verified stream is a proof of its content.  A consumer reads with buffers of any sizes; when a read
  into a non-empty buffer returns no bytes, everything delivered before has the expected size and the expected digest, is all the producer wrote,
  and the producer has reported success.  In every other case the consumer sees an error, not an end.\<close>

theorem end_of_stream_is_verified:
  assumes "verified_reads sha256 (verified_stream_new expected source producer) sizes = (d, state)"
    and "verified_read sha256 state n = (Ok [], state')" and "0 < n"
  shows "verified sha256 expected source producer d"
proof -
  have "stream_inv sha256 expected source producer [] (verified_stream_new expected source producer)"
    by (simp add: stream_inv_def verified_stream_new_def)
  then have inv: "stream_inv sha256 expected source producer d state"
    using verified_reads_keep assms(1) by fastforce
  show ?thesis
  proof (cases state)
    case (Streaming st)
    then have "read_and_verify_completion sha256 st n = Ok (state', [])"
      using assms(2,3) by (auto simp: verified_read_def state_read_def split: sum.splits prod.splits)
    from read_and_verify_keeps [OF inv [unfolded Streaming] this] show ?thesis by (auto simp: stream_inv_def)
  qed (use inv assms(2,3) in \<open>auto simp: verified_read_def state_read_def stream_inv_def\<close>)
qed

theorem end_of_stream_is_verified_witness:
  "\<exists>state state'. verified_reads (\<lambda>d. d) (verified_stream_new (content_identity (Sha256Digest [1, 2, 3]) (ByteCount 3))
      [Chunk [1, 2], Fault ReadInterrupted, Chunk [3]] (Some (Ok ()))) [2, 5] = ([1, 2, 3], state)
    \<and> verified_read (\<lambda>d. d) state 5 = (Ok [], state')
    \<and> verified (\<lambda>d. d) (content_identity (Sha256Digest [1, 2, 3]) (ByteCount 3))
        [Chunk [1, 2], Fault ReadInterrupted, Chunk [3]] (Some (Ok ())) [1, 2, 3]"
proof -
  let ?new = "verified_stream_new (content_identity (Sha256Digest [1, 2, 3]) (ByteCount 3))
      [Chunk [1, 2], Fault ReadInterrupted, Chunk [3]] (Some (Ok ()))"
  have reads: "verified_reads (\<lambda>d. d) ?new [2, 5] = ([1, 2, 3], StreamComplete)"
    by (simp add: verified_stream_new_def content_identity_def verified_read_def state_read_def read_and_verify_completion_def
        read_chunk_def take_read_def read_uninterrupted_chunk.simps verify_identity_and_producer_completion_def
        wait_for_producer_completion_def bindR_def)
  have "verified_read (\<lambda>d. d) StreamComplete 5 = (Ok [], StreamComplete)" by (simp add: verified_read_def state_read_def)
  with reads end_of_stream_is_verified [OF reads this] show ?thesis by auto
qed

end
