(* ===== verification/Flight_Table.thy ===== *)
theory Flight_Table
  imports Store_Ids "HOL-Library.AList"
begin

section \<open>Coalescing of upstream requests (\<open>src/read_through/state.rs\<close>)\<close>

text \<open>
  Requests for the same object share one download: the first becomes the leader of a flight, later ones follow it.  A
  table maps keys to flights by weak reference and remembers recent failures.  A flight is a number; how many strong
  references to it exist decides whether a weak reference can be upgraded.  Hash maps are association lists with
  distinct keys.  Every critical section is one function, and the interleavings are a step relation.  Instants are
  numbers, and adding to one fails beyond \<open>instant_max\<close>.
\<close>

subsection \<open>Failures and keys\<close>

datatype EdgeFailure = Authoritative404 | EdgeTransient | EdgeInvalid | EdgeCapacity | EdgeStorage

datatype EdgeHit = EdgeLocal | EdgeFilled | EdgeCoalesced

datatype EdgeMiss = EdgeFailed EdgeFailure | EdgeCached EdgeFailure

definition cacheable :: "EdgeFailure \<Rightarrow> bool" where
  "cacheable failure = (case failure of
      Authoritative404 \<Rightarrow> True | EdgeTransient \<Rightarrow> True | EdgeInvalid \<Rightarrow> True
    | EdgeCapacity \<Rightarrow> False | EdgeStorage \<Rightarrow> False)"

definition miss_reason :: "EdgeMiss \<Rightarrow> EdgeFailure" where
  "miss_reason miss = (case miss of EdgeFailed reason \<Rightarrow> reason | EdgeCached reason \<Rightarrow> reason)"

datatype FlightKey = KeyStore StoreHash | KeyNar NarIdentity | KeyRepresentation NarIdentity EncodedIdentity

datatype Join = JoinLeader nat | JoinFollower nat | JoinCached EdgeFailure

subsection \<open>The table\<close>

definition MAX_TABLE_ENTRIES :: nat where
  "MAX_TABLE_ENTRIES = 4096"

definition MAX_WAITERS :: nat where
  "MAX_WAITERS = 64"

record Negative =
  negative_failure :: EdgeFailure
  negative_expires :: nat

record FlightState =
  flights :: "(FlightKey \<times> nat) list"
  negatives :: "(FlightKey \<times> Negative) list"
  flight_limit :: nat
  negative_limit :: nat

definition clamp :: "nat \<Rightarrow> nat \<Rightarrow> nat \<Rightarrow> nat" where
  "clamp low high n = min (max n low) high"

definition flight_state_new :: "nat \<Rightarrow> FlightState" where
  "flight_state_new max_fills = \<lparr> flights = [], negatives = [],
     flight_limit = clamp 64 MAX_TABLE_ENTRIES (saturating_mul_u64 max_fills 4),
     negative_limit = clamp 64 MAX_TABLE_ENTRIES (saturating_mul_u64 max_fills 32) \<rparr>"

definition unexpired :: "nat \<Rightarrow> (FlightKey \<times> Negative) list \<Rightarrow> (FlightKey \<times> Negative) list" where
  "unexpired now entries = filter (\<lambda>(_, entry). now < negative_expires entry) entries"

definition state_prune :: "(nat \<Rightarrow> bool) \<Rightarrow> FlightState \<Rightarrow> nat \<Rightarrow> FlightState" where
  "state_prune live st now =
    st\<lparr> flights := filter (\<lambda>(_, flight). live flight) (flights st), negatives := unexpired now (negatives st) \<rparr>"

definition state_join ::
    "(nat \<Rightarrow> bool) \<Rightarrow> FlightState \<Rightarrow> nat \<Rightarrow> FlightKey \<Rightarrow> nat \<Rightarrow> (EdgeFailure + Join) \<times> FlightState" where
  "state_join live st fresh key now =
    (case Option.bind (map_of (flights st) key) (\<lambda>flight. if live flight then Some flight else None) of
       Some flight \<Rightarrow> (Ok (JoinFollower flight), st)
     | None \<Rightarrow>
        (case Option.bind (map_of (negatives st) key) (\<lambda>entry. if now < negative_expires entry then Some entry else None) of
           Some negative \<Rightarrow> (Ok (JoinCached (negative_failure negative)), st)
         | None \<Rightarrow>
            let st = (if flight_limit st \<le> length (flights st) then state_prune live st now else st) in
            if flight_limit st \<le> length (flights st) then (Err EdgeCapacity, st)
            else (Ok (JoinLeader fresh), st\<lparr> flights := AList.update key fresh (flights st) \<rparr>)))"

text \<open>Among the entries that expire first, the source removes the one its hash map yields first.\<close>

fun oldest :: "(FlightKey \<times> Negative) list \<Rightarrow> FlightKey option" where
  "oldest [] = None"
| "oldest (e # es) = (if list_all (\<lambda>f. negative_expires (snd e) \<le> negative_expires (snd f)) es then Some (fst e) else oldest es)"

definition make_room :: "nat \<Rightarrow> (FlightKey \<times> Negative) list \<Rightarrow> (FlightKey \<times> Negative) list" where
  "make_room limit kept =
    (if limit \<le> length kept then (case oldest kept of Some k \<Rightarrow> AList.delete k kept | None \<Rightarrow> kept) else kept)"

definition state_remember ::
    "nat \<Rightarrow> FlightState \<Rightarrow> FlightKey \<Rightarrow> EdgeFailure \<Rightarrow> nat \<Rightarrow> nat \<Rightarrow> FlightState" where
  "state_remember instant_max st key failure now ttl =
    (case key of
       KeyNar _ \<Rightarrow> st
     | _ \<Rightarrow>
        if \<not> cacheable failure \<or> ttl = 0 then st
        else let room = make_room (negative_limit st) (unexpired now (negatives st)) in
          if now + ttl \<le> instant_max
          then st\<lparr> negatives := AList.update key \<lparr> negative_failure = failure, negative_expires = now + ttl \<rparr> room \<rparr>
          else st\<lparr> negatives := room \<rparr>)"

subsection \<open>Flights\<close>

datatype Progress = Running nat | Completed "EdgeMiss + EdgeHit"

datatype WaitStart = WaitDone "EdgeMiss + EdgeHit" | WaitBlocked

text \<open>\<open>Flight::wait\<close> up to the condition variable, and from being woken, by a completion or by the deadline.  \<open>late\<close> says that the
  deadline has passed, \<open>completed\<close> is what the caller does with a result it shares.  A poisoned lock is not modelled: no
  code panics while it holds one.\<close>

definition flight_wait_start ::
    "bool \<Rightarrow> (EdgeMiss + EdgeHit \<Rightarrow> EdgeMiss + EdgeHit) \<Rightarrow> Progress \<Rightarrow> WaitStart \<times> Progress" where
  "flight_wait_start late completed p =
    (if late then (WaitDone (Err (EdgeFailed EdgeTransient)), p)
     else (case p of
         Completed result \<Rightarrow> (WaitDone (completed result), p)
       | Running waiters \<Rightarrow>
           if MAX_WAITERS \<le> waiters then (WaitDone (Err (EdgeFailed EdgeCapacity)), p)
           else (WaitBlocked, Running (waiters + 1))))"

definition flight_wait_end ::
    "bool \<Rightarrow> (EdgeMiss + EdgeHit \<Rightarrow> EdgeMiss + EdgeHit) \<Rightarrow> Progress \<Rightarrow> (EdgeMiss + EdgeHit) \<times> Progress" where
  "flight_wait_end late completed p = (case p of
      Completed result \<Rightarrow> (if late then Err (EdgeFailed EdgeTransient) else completed result, p)
    | Running waiters \<Rightarrow> (Err (EdgeFailed EdgeTransient), Running (waiters - 1)))"

definition flight_finish :: "Progress \<Rightarrow> EdgeMiss + EdgeHit \<Rightarrow> Progress" where
  "flight_finish p result = Completed result"

definition finish_shared_fill_or_retry_representation ::
    "FlightKey \<Rightarrow> EdgeMiss + EdgeHit \<Rightarrow> EdgeMiss + EdgeHit \<Rightarrow> EdgeMiss + EdgeHit" where
  "finish_shared_fill_or_retry_representation key result retry = (case key of
      KeyNar _ \<Rightarrow> (case result of
          Inr hit \<Rightarrow> Ok hit
        | Inl (EdgeCached _) \<Rightarrow> retry
        | Inl (EdgeFailed reason) \<Rightarrow>
            if reason \<in> {Authoritative404, EdgeTransient, EdgeInvalid} then retry else Err (EdgeFailed reason))
    | _ \<Rightarrow> result)"

definition reported_for_follower :: "EdgeHit \<Rightarrow> EdgeHit" where
  "reported_for_follower hit = (case hit of EdgeLocal \<Rightarrow> EdgeLocal | _ \<Rightarrow> EdgeCoalesced)"

subsection \<open>Interleavings\<close>

text \<open>The table, the flights, and who holds them: a leader, which is \<open>leading\<close> until it completes the flight and holds it
  (\<open>led\<close>) a little longer, and followers, of which some wait.\<close>

record FlightSystem =
  fs_table :: FlightState
  progress :: "nat \<Rightarrow> Progress"
  flight_key :: "nat \<Rightarrow> FlightKey"
  leading :: "nat set"
  led :: "nat set"
  followers :: "nat \<Rightarrow> nat"
  waiting :: "nat \<Rightarrow> nat"
  fresh_flight :: nat

definition strong_count :: "FlightSystem \<Rightarrow> nat \<Rightarrow> nat" where
  "strong_count s f = followers s f + (if f \<in> led s then 1 else 0)"

definition live_flight :: "FlightSystem \<Rightarrow> nat \<Rightarrow> bool" where
  "live_flight s f = (0 < strong_count s f)"

definition flight_system_new :: "nat \<Rightarrow> FlightSystem" where
  "flight_system_new max_fills = \<lparr> fs_table = flight_state_new max_fills, progress = (\<lambda>_. Running 0),
     flight_key = (\<lambda>_. KeyStore (StoreHash [])), leading = {}, led = {}, followers = (\<lambda>_. 0), waiting = (\<lambda>_. 0), fresh_flight = 0 \<rparr>"

inductive flight_step :: "FlightSystem \<Rightarrow> FlightSystem \<Rightarrow> bool" where
  lead: "state_join (live_flight s) (fs_table s) (fresh_flight s) key now = (Ok (JoinLeader f), t) \<Longrightarrow>
    flight_step s (s\<lparr> fs_table := t, progress := (progress s)(f := Running 0), flight_key := (flight_key s)(f := key),
      leading := insert f (leading s), led := insert f (led s), fresh_flight := Suc (fresh_flight s) \<rparr>)"
| follow: "state_join (live_flight s) (fs_table s) (fresh_flight s) key now = (Ok (JoinFollower f), t) \<Longrightarrow>
    flight_step s (s\<lparr> fs_table := t, followers := (followers s)(f := Suc (followers s f)) \<rparr>)"
| turned_away: "state_join (live_flight s) (fs_table s) (fresh_flight s) key now = (r, t) \<Longrightarrow>
    r = Err e \<or> r = Ok (JoinCached e) \<Longrightarrow> flight_step s (s\<lparr> fs_table := t \<rparr>)"
| block: "waiting s f < followers s f \<Longrightarrow> flight_wait_start late completed (progress s f) = (WaitBlocked, p) \<Longrightarrow>
    flight_step s (s\<lparr> progress := (progress s)(f := p), waiting := (waiting s)(f := Suc (waiting s f)) \<rparr>)"
| wake: "0 < waiting s f \<Longrightarrow> flight_wait_end late completed (progress s f) = (r, p) \<Longrightarrow>
    flight_step s (s\<lparr> progress := (progress s)(f := p), waiting := (waiting s)(f := waiting s f - 1) \<rparr>)"
| leave: "waiting s f < followers s f \<Longrightarrow>
    flight_step s (s\<lparr> followers := (followers s)(f := followers s f - 1) \<rparr>)"
| remember: "f \<in> leading s \<Longrightarrow>
    flight_step s (s\<lparr> fs_table := state_remember instant_max (fs_table s) (flight_key s f) failure now ttl \<rparr>)"
| complete: "f \<in> leading s \<Longrightarrow>
    flight_step s (s\<lparr> progress := (progress s)(f := flight_finish (progress s f) result), leading := leading s - {f} \<rparr>)"
| release: "f \<in> led s \<Longrightarrow> f \<notin> leading s \<Longrightarrow> flight_step s (s\<lparr> led := led s - {f} \<rparr>)"
| prune: "flight_step s (s\<lparr> fs_table := state_prune (live_flight s) (fs_table s) now \<rparr>)"

inductive flight_reachable :: "FlightSystem \<Rightarrow> bool" where
  start: "flight_reachable (flight_system_new max_fills)"
| step: "flight_reachable s \<Longrightarrow> flight_step s s' \<Longrightarrow> flight_reachable s'"

subsection \<open>The table stays within its limits\<close>

definition table_ok :: "FlightState \<Rightarrow> bool" where
  "table_ok st \<longleftrightarrow> distinct (map fst (flights st)) \<and> distinct (map fst (negatives st)) \<and>
    length (flights st) \<le> flight_limit st \<and> length (negatives st) \<le> negative_limit st \<and>
    0 < negative_limit st \<and> flight_limit st \<le> MAX_TABLE_ENTRIES \<and> negative_limit st \<le> MAX_TABLE_ENTRIES \<and>
    (\<forall>n. KeyNar n \<notin> fst ` set (negatives st))"

lemma length_update_le: "length (AList.update k v al) \<le> Suc (length al)"
  by (induction al) auto

lemma length_delete_mem: "k \<in> fst ` set al \<Longrightarrow> length (AList.delete k al) < length al"
  unfolding AList.delete_eq by (auto intro: length_filter_less)

lemma oldest_mem: "oldest es = Some k \<Longrightarrow> k \<in> fst ` set es"
  by (induction es) (auto split: if_splits)

lemma oldest_None [simp]: "oldest es = None \<longleftrightarrow> es = []"
  by (induction es) auto

lemma set_unexpired: "set (unexpired now es) \<subseteq> set es"
  by (auto simp: unexpired_def)

lemma distinct_unexpired: "distinct (map fst es) \<Longrightarrow> distinct (map fst (unexpired now es))"
  by (simp add: unexpired_def distinct_map_filter)

lemma length_unexpired: "length (unexpired now es) \<le> length es"
  by (simp add: unexpired_def)

lemma table_ok_new: "table_ok (flight_state_new max_fills)"
  by (simp add: table_ok_def flight_state_new_def clamp_def MAX_TABLE_ENTRIES_def)

lemma table_ok_prune: "table_ok st \<Longrightarrow> table_ok (state_prune live st now)"
  using set_unexpired [of now "negatives st"] length_unexpired [of now "negatives st"]
  by (auto simp: table_ok_def state_prune_def distinct_map_filter distinct_unexpired
      intro: order_trans [OF length_filter_le])

lemma table_ok_insert_flight:
  "table_ok st \<Longrightarrow> length (flights st) < flight_limit st \<Longrightarrow>
   table_ok (st\<lparr> flights := AList.update key fresh (flights st) \<rparr>)"
  using length_update_le [of key fresh "flights st"] by (simp add: table_ok_def distinct_update)

lemma table_ok_join: "table_ok st \<Longrightarrow> table_ok (snd (state_join live st fresh key now))"
  by (simp add: state_join_def Let_def table_ok_prune table_ok_insert_flight split: option.split)

lemma length_make_room: "length kept \<le> limit \<Longrightarrow> 0 < limit \<Longrightarrow> length (make_room limit kept) < limit"
  using length_delete_mem [OF oldest_mem, of kept] by (fastforce simp: make_room_def split: option.splits)

lemma set_make_room: "set (make_room limit kept) \<subseteq> set kept"
  by (auto simp: make_room_def AList.delete_eq split: option.splits)

lemma distinct_make_room: "distinct (map fst kept) \<Longrightarrow> distinct (map fst (make_room limit kept))"
  by (simp add: make_room_def distinct_delete split: option.split)

lemma table_ok_remember:
  assumes "table_ok st"
  shows "table_ok (state_remember instant_max st key failure now ttl)"
proof (cases "(\<exists>n. key = KeyNar n) \<or> \<not> cacheable failure \<or> ttl = 0")
  case True
  then show ?thesis
    using assms by (auto simp: state_remember_def split: FlightKey.splits)
next
  case False
  let ?kept = "unexpired now (negatives st)"
  let ?room = "make_room (negative_limit st) ?kept"
  have len: "length ?room < negative_limit st"
    using assms length_unexpired [of now "negatives st"] by (intro length_make_room) (auto simp: table_ok_def)
  have distinct: "distinct (map fst ?room)"
    using assms by (intro distinct_make_room distinct_unexpired) (simp add: table_ok_def)
  have "fst ` set ?room \<subseteq> fst ` set (negatives st)"
    by (intro image_mono subset_trans [OF set_make_room set_unexpired])
  then have nar: "KeyNar n \<notin> fst ` set ?room" for n
    using assms unfolding table_ok_def by blast
  have eq: "state_remember instant_max st key failure now ttl = st\<lparr> negatives :=
      (if now + ttl \<le> instant_max
       then AList.update key \<lparr> negative_failure = failure, negative_expires = now + ttl \<rparr> ?room else ?room) \<rparr>"
    using False by (cases key) (simp_all add: state_remember_def)
  have keys: "KeyNar n \<notin> fst ` set (AList.update key v ?room)" for n v
    using False nar by (auto simp: dom_update)
  have upd: "length (AList.update key v ?room) \<le> negative_limit st" for v
    using len length_update_le [of key v ?room] by linarith
  show ?thesis
    using assms distinct nar len keys upd unfolding eq table_ok_def by (simp add: distinct_update)
qed

subsection \<open>What a join does to the table\<close>

lemma join_leader:
  assumes "state_join live st fresh key now = (Ok (JoinLeader f), t)"
  shows "f = fresh"
    and "\<And>g. live g \<Longrightarrow> map_of (flights st) k = Some g \<Longrightarrow> distinct (map fst (flights st)) \<Longrightarrow>
      k \<noteq> key \<and> map_of (flights t) k = Some g"
    and "map_of (flights t) key = Some fresh"
  using assms
  by (auto simp: state_join_def state_prune_def Let_def update_conv' map_of_filter_in bind_eq_None_conv
      split: option.splits if_splits)

lemma join_follower:
  assumes "state_join live st fresh key now = (Ok (JoinFollower f), t)"
  shows "t = st" "live f"
  using assms by (auto simp: state_join_def Let_def bind_eq_Some_conv split: option.splits if_splits)

lemma map_of_live:
  "distinct (map fst al) \<Longrightarrow> map_of al k = Some g \<Longrightarrow> live g \<Longrightarrow>
   map_of (filter (\<lambda>(_, f). live f) al) k = Some g"
  by (induction al) (auto split: if_splits simp: rev_image_eqI)

lemma join_turned_away:
  assumes "state_join live st fresh key now = (r, t)" "r = Err e \<or> r = Ok (JoinCached e)"
  shows "t = st \<or> t = state_prune live st now"
  using assms by (auto simp: state_join_def Let_def split: option.splits if_splits)

lemma prune_keeps_live:
  "distinct (map fst (flights st)) \<Longrightarrow> map_of (flights st) k = Some g \<Longrightarrow> live g \<Longrightarrow>
   map_of (flights (state_prune live st now)) k = Some g"
  by (simp add: state_prune_def map_of_live)

lemma remember_keeps_flights [simp]: "flights (state_remember instant_max st key failure now ttl) = flights st"
  by (simp add: state_remember_def Let_def split: FlightKey.split)

subsection \<open>The invariant of the interleavings\<close>

definition flight_inv :: "FlightSystem \<Rightarrow> bool" where
  "flight_inv s \<longleftrightarrow> table_ok (fs_table s) \<and> leading s \<subseteq> led s \<and>
    (\<forall>f. waiting s f \<le> followers s f) \<and>
    (\<forall>f. fresh_flight s \<le> f \<longrightarrow> followers s f = 0 \<and> f \<notin> led s) \<and>
    (\<forall>f. f \<in> leading s \<longrightarrow> map_of (flights (fs_table s)) (flight_key s f) = Some f) \<and>
    (\<forall>f. f \<in> leading s \<longrightarrow> (\<exists>w. progress s f = Running w)) \<and>
    (\<forall>f w. progress s f = Running w \<longrightarrow> w = waiting s f \<and> w \<le> MAX_WAITERS)"

lemma inv_table: "flight_inv s \<Longrightarrow> table_ok (fs_table s)" "flight_inv s \<Longrightarrow> distinct (map fst (flights (fs_table s)))"
  by (simp_all add: flight_inv_def table_ok_def)

lemma inv_leading: "flight_inv s \<Longrightarrow> f \<in> leading s \<Longrightarrow> map_of (flights (fs_table s)) (flight_key s f) = Some f"
  by (simp add: flight_inv_def)

lemma inv_waiting: "flight_inv s \<Longrightarrow> waiting s f \<le> followers s f"
  by (simp add: flight_inv_def)

lemma inv_fresh: "flight_inv s \<Longrightarrow> fresh_flight s \<le> f \<Longrightarrow> followers s f = 0 \<and> f \<notin> led s"
  by (simp add: flight_inv_def)

lemma inv_running: "flight_inv s \<Longrightarrow> progress s f = Running w \<Longrightarrow> w = waiting s f \<and> w \<le> MAX_WAITERS"
  by (simp add: flight_inv_def)

lemma leading_live: "flight_inv s \<Longrightarrow> f \<in> leading s \<Longrightarrow> live_flight s f"
  by (auto simp: flight_inv_def live_flight_def strong_count_def)

lemma live_allocated: "flight_inv s \<Longrightarrow> live_flight s f \<Longrightarrow> f < fresh_flight s"
  by (rule ccontr, drule inv_fresh [of s f]) (simp_all add: live_flight_def strong_count_def)

lemma flight_inv_new: "flight_inv (flight_system_new max_fills)"
  by (simp add: flight_inv_def flight_system_new_def table_ok_new)

lemma flight_inv_table:
  assumes "flight_inv s" "table_ok t"
    and "\<And>f. f \<in> leading s \<Longrightarrow> map_of (flights t) (flight_key s f) = Some f"
  shows "flight_inv (s\<lparr> fs_table := t \<rparr>)"
  using assms by (simp add: flight_inv_def)

lemma flight_inv_prune: "flight_inv s \<Longrightarrow> flight_inv (s\<lparr> fs_table := state_prune (live_flight s) (fs_table s) now \<rparr>)"
  by (rule flight_inv_table) (simp_all add: table_ok_prune inv_table prune_keeps_live inv_leading leading_live)

lemma flight_inv_lead:
  assumes inv: "flight_inv s"
    and join: "state_join (live_flight s) (fs_table s) (fresh_flight s) key now = (Ok (JoinLeader f), t)"
  shows "flight_inv (s\<lparr> fs_table := t, progress := (progress s)(f := Running 0), flight_key := (flight_key s)(f := key),
      leading := insert f (leading s), led := insert f (led s), fresh_flight := Suc (fresh_flight s) \<rparr>)"
proof -
  note f = join_leader(1) [OF join]
  have table: "table_ok t"
    using table_ok_join [OF inv_table(1) [OF inv], of "live_flight s" "fresh_flight s" key now] join by simp
  have kept: "map_of (flights t) (flight_key s g) = Some g" if "g \<in> leading s" for g
    using join_leader(2) [OF join leading_live [OF inv that] inv_leading [OF inv that] inv_table(2) [OF inv]] by simp
  have idle: "waiting s (fresh_flight s) = 0"
    using inv_waiting [OF inv, of "fresh_flight s"] inv_fresh [OF inv, of "fresh_flight s"] by simp
  show ?thesis
    using inv table kept idle join_leader(3) [OF join] unfolding flight_inv_def f
    by (simp add: subset_insertI2)
qed

lemma flight_inv_wait:
  assumes "flight_inv s" "n \<le> followers s f" "\<And>w. p = Running w \<Longrightarrow> w = n \<and> w \<le> MAX_WAITERS"
    and "\<And>w. progress s f = Running w \<Longrightarrow> \<exists>w'. p = Running w'"
  shows "flight_inv (s\<lparr> progress := (progress s)(f := p), waiting := (waiting s)(f := n) \<rparr>)"
  using assms by (simp add: flight_inv_def) metis

lemma flight_inv_block:
  assumes inv: "flight_inv s" and "waiting s f < followers s f"
    and start: "flight_wait_start late completed (progress s f) = (WaitBlocked, p)"
  shows "flight_inv (s\<lparr> progress := (progress s)(f := p), waiting := (waiting s)(f := Suc (waiting s f)) \<rparr>)"
proof -
  from start obtain w where w: "progress s f = Running w" "p = Running (Suc w)" "w < MAX_WAITERS"
    by (auto simp: flight_wait_start_def split: if_splits Progress.splits)
  show ?thesis
    using assms(2) w inv_running [OF inv w(1)] by (intro flight_inv_wait [OF inv]) auto
qed

lemma flight_inv_wake:
  assumes inv: "flight_inv s" and "0 < waiting s f"
    and wake: "flight_wait_end late completed (progress s f) = (r, p)"
  shows "flight_inv (s\<lparr> progress := (progress s)(f := p), waiting := (waiting s)(f := waiting s f - 1) \<rparr>)"
proof (rule flight_inv_wait [OF inv])
  show "waiting s f - 1 \<le> followers s f"
    using inv_waiting [OF inv, of f] by linarith
  show "w = waiting s f - 1 \<and> w \<le> MAX_WAITERS" if "p = Running w" for w
    using wake that inv_running [OF inv, of f] by (force simp: flight_wait_end_def split: Progress.splits)
  show "\<exists>w'. p = Running w'" if "progress s f = Running w" for w
    using wake that by (auto simp: flight_wait_end_def)
qed

lemma flight_inv_followers:
  assumes "flight_inv s" "waiting s f \<le> n" "fresh_flight s \<le> f \<Longrightarrow> n = 0"
  shows "flight_inv (s\<lparr> followers := (followers s)(f := n) \<rparr>)"
  using assms by (simp add: flight_inv_def)

lemma flight_inv_step: "flight_step s s' \<Longrightarrow> flight_inv s \<Longrightarrow> flight_inv s'"
proof (induction rule: flight_step.induct)
  case (lead s key now f t)
  then show ?case by (intro flight_inv_lead)
next
  case (follow s key now f t)
  then show ?case
    using join_follower [OF follow(1)] live_allocated [of s f] inv_waiting [of s f]
      flight_inv_followers [of s f "Suc (followers s f)"] by simp
next
  case (turned_away s key now r t e)
  then show ?case
    using join_turned_away [OF turned_away(1,2)] flight_inv_prune [of s now] by auto
next
  case (block s f late completed p)
  then show ?case by (intro flight_inv_block)
next
  case (wake s f late completed r p)
  then show ?case by (intro flight_inv_wake)
next
  case (leave s f)
  then show ?case
    using inv_fresh [of s f] by (intro flight_inv_followers) auto
next
  case (remember f s instant_max failure now ttl)
  then show ?case by (intro flight_inv_table table_ok_remember) (simp_all add: inv_table inv_leading)
next
  case (complete f s result)
  then show ?case by (auto simp: flight_inv_def flight_finish_def)
next
  case (release f s)
  then show ?case by (auto simp: flight_inv_def)
next
  case (prune s now)
  then show ?case by (rule flight_inv_prune)
qed

lemma flight_inv_reachable: "flight_reachable s \<Longrightarrow> flight_inv s"
  by (induction rule: flight_reachable.induct) (auto simp: flight_inv_new flight_inv_step)

text \<open>Claim C36.  However requests interleave, an object is downloaded by one leader at a time: two flights that are being led
  for the same key are the same flight.  The table of flights and the table of remembered failures stay within their limits,
  which are at most 4096 entries; no failure is remembered for a logical archive, so that one bad encoding never blocks
  another; and no more than 64 requests wait for a flight that is still running.\<close>

theorem single_flight:
  assumes "flight_reachable s"
  shows "(\<forall>f g. f \<in> leading s \<and> g \<in> leading s \<and> flight_key s f = flight_key s g \<longrightarrow> f = g) \<and>
    length (flights (fs_table s)) \<le> flight_limit (fs_table s) \<and> flight_limit (fs_table s) \<le> 4096 \<and>
    length (negatives (fs_table s)) \<le> negative_limit (fs_table s) \<and> negative_limit (fs_table s) \<le> 4096 \<and>
    (\<forall>n. KeyNar n \<notin> fst ` set (negatives (fs_table s))) \<and>
    (\<forall>f w. progress s f = Running w \<longrightarrow> w = waiting s f \<and> w \<le> 64)"
proof -
  have inv: "flight_inv s"
    using assms by (rule flight_inv_reachable)
  have "f = g" if "f \<in> leading s" "g \<in> leading s" "flight_key s f = flight_key s g" for f g
    using inv_leading [OF inv that(1), unfolded that(3)] inv_leading [OF inv that(2)]
    by (metis option.inject)
  then have one: "\<forall>f g. f \<in> leading s \<and> g \<in> leading s \<and> flight_key s f = flight_key s g \<longrightarrow> f = g"
    by blast
  have waiters: "\<forall>f w. progress s f = Running w \<longrightarrow> w = waiting s f \<and> w \<le> 64"
    by (intro allI impI inv_running [OF inv, unfolded MAX_WAITERS_def])
  have table: "length (flights (fs_table s)) \<le> flight_limit (fs_table s)" "flight_limit (fs_table s) \<le> 4096"
    "length (negatives (fs_table s)) \<le> negative_limit (fs_table s)" "negative_limit (fs_table s) \<le> 4096"
    "\<forall>n. KeyNar n \<notin> fst ` set (negatives (fs_table s))"
    using inv_table(1) [OF inv] by (simp_all add: table_ok_def MAX_TABLE_ENTRIES_def)
  show ?thesis
    by (intro conjI one waiters table)
qed

text \<open>The witness: after the first request for an object has joined, its flight is led, and the bounds hold.\<close>

definition sample_flight_system :: FlightSystem where
  "sample_flight_system = (let s = flight_system_new 1; key = KeyStore (StoreHash (replicate 20 0)) in
    s\<lparr> fs_table := (fs_table s)\<lparr> flights := [(key, 0)] \<rparr>, progress := (progress s)(0 := Running 0),
      flight_key := (flight_key s)(0 := key), leading := {0}, led := {0}, fresh_flight := 1 \<rparr>)"

lemma sample_flight_reachable: "flight_reachable sample_flight_system"
proof -
  let ?s = "flight_system_new 1" and ?key = "KeyStore (StoreHash (replicate 20 0))"
  have "state_join (live_flight ?s) (fs_table ?s) (fresh_flight ?s) ?key 0 =
      (Ok (JoinLeader 0), (fs_table ?s)\<lparr> flights := [(?key, 0)] \<rparr>)"
    by (simp add: state_join_def flight_system_new_def flight_state_new_def clamp_def MAX_TABLE_ENTRIES_def saturating_mul_u64_def Let_def)
  from flight_reachable.step [OF flight_reachable.start flight_step.lead [OF this]]
  show ?thesis
    by (simp add: sample_flight_system_def flight_system_new_def Let_def)
qed

theorem single_flight_witness:
  "0 \<in> leading sample_flight_system \<and> length (flights (fs_table sample_flight_system)) \<le> flight_limit (fs_table sample_flight_system)"
  using conjunct1 [OF conjunct2 [OF single_flight [OF sample_flight_reachable]]] by (simp add: sample_flight_system_def Let_def)

end
