(* ===== verification/Chunk_Manifest.thy ===== *)
theory Chunk_Manifest
  imports Object Nar_Decode
begin

section \<open>Manifests of chunked archives (\<open>src/storage/chunked.rs\<close>)\<close>

text \<open>
  A chunked archive is a manifest, a file that lists the end offset and the digest of every chunk, and the chunk files.
  The manifest reader works on a file through \<open>Read\<close> and \<open>Seek\<close>: a file is what its two seeks return, the second one
  with the results of the reads that follow it.  \<open>Sha256\<close> is the list of bytes it was updated with, and the digest function is a
  parameter.  The lemmas show that a manifest is accepted exactly if it is the encoding of a division of the archive into
  chunks whose lengths the profile allows.
\<close>

subsection \<open>Data\<close>

definition MANIFEST_MAGIC :: bytes where
  "MANIFEST_MAGIC = ascii ''NARJCHNK''"

definition MANIFEST_VERSION :: byte where
  "MANIFEST_VERSION = 1"

definition MANIFEST_HEADER_BYTES :: nat where
  "MANIFEST_HEADER_BYTES = 60"

definition MANIFEST_RECORD_BYTES :: nat where
  "MANIFEST_RECORD_BYTES = 40"

definition MANIFEST_CHECKSUM_BYTES :: nat where
  "MANIFEST_CHECKSUM_BYTES = 32"

lemmas manifest_sizes = MANIFEST_HEADER_BYTES_def MANIFEST_RECORD_BYTES_def MANIFEST_CHECKSUM_BYTES_def

datatype ChunkContent = ChunkContent

type_synonym ChunkHash = "ChunkContent Sha256Digest"

datatype ChunkProfile = MinCdcHash4V2

datatype ManifestError =
    ChecksumMismatch
  | FinalSizeMismatch nat nat \<comment> \<open>expected, actual\<close>
  | InvalidChunkLength
  | InvalidHeader
  | InvalidMagic
  | ManifestIo IoError
  | LengthOverflow
  | NonMonotonicEnds
  | TrailingBytes
  | Truncated
  | UnsupportedProfile byte
  | UnsupportedVersion byte

fun profile_id :: "ChunkProfile \<Rightarrow> byte" where
  "profile_id MinCdcHash4V2 = 2"

fun profile_min_size :: "ChunkProfile \<Rightarrow> nat" where
  "profile_min_size MinCdcHash4V2 = 256 * 1024"

fun profile_max_size :: "ChunkProfile \<Rightarrow> nat" where
  "profile_max_size MinCdcHash4V2 = 1024 * 1024"

definition profile_from_id :: "byte \<Rightarrow> ManifestError + ChunkProfile" where
  "profile_from_id i = (if i = 2 then Ok MinCdcHash4V2 else Err (UnsupportedProfile i))"

record ChunkDescriptor =
  descriptor_end :: nat
  descriptor_hash :: ChunkHash

record ChunkManifest =
  chunked_identity :: NarIdentity
  chunked_profile :: ChunkProfile
  chunk_count :: nat

subsection \<open>Reading\<close>

record ManifestFile =
  seek_end :: "IoError + nat"
  seek_start :: "IoError + reader"

record ManifestReader =
  mr_reader :: reader
  mr_manifest :: ChunkManifest
  records_remaining :: nat
  previous_end :: nat
  previous_length :: "nat option"
  content_hasher :: bytes

type_synonym 'a mread = "(ManifestReader, ManifestError, 'a) step"

definition manifest_io :: "IoError + 'a \<Rightarrow> ManifestError + 'a" where
  "manifest_io r = (case r of Inl e \<Rightarrow> Err (ManifestIo e) | Inr x \<Rightarrow> Ok x)"

text \<open>\<open>usize::try_from\<close> is the identity on the supported 64-bit targets, and \<open>checked_mul\<close> and \<open>checked_add\<close> are at that width.\<close>

definition checked_mul_u64 :: "nat \<Rightarrow> nat \<Rightarrow> nat option" where
  "checked_mul_u64 a b = (if a * b \<le> u64_max then Some (a * b) else None)"

definition parse_header :: "bytes \<Rightarrow> ManifestError + ChunkManifest \<times> nat" where
  "parse_header bs =
    (if length bs < MANIFEST_HEADER_BYTES then Err Truncated
     else if take 8 bs \<noteq> MANIFEST_MAGIC then Err InvalidMagic
     else if bs ! 8 \<noteq> MANIFEST_VERSION then Err (UnsupportedVersion (bs ! 8))
     else if take 2 (drop 10 bs) \<noteq> [0, 0] then Err InvalidHeader
     else bindR (profile_from_id (bs ! 9)) (\<lambda>profile.
       let hash = Sha256Digest (take 32 (drop 12 bs));
           n = u64_from_le_bytes (take 8 (drop 44 bs));
           count = u64_from_le_bytes (take 8 (drop 52 bs)) in
       bindR (ok_or LengthOverflow (checked_mul_u64 count MANIFEST_RECORD_BYTES)) (\<lambda>records.
       bindR (ok_or LengthOverflow (checked_add_u64 MANIFEST_HEADER_BYTES records)) (\<lambda>content_bytes.
       Ok (\<lparr>chunked_identity = content_identity hash (ByteCount n), chunked_profile = profile, chunk_count = count\<rparr>,
           content_bytes)))))"

definition parse_record_bytes :: "bytes \<Rightarrow> ManifestError + ChunkDescriptor" where
  "parse_record_bytes bs =
    (if length bs \<noteq> MANIFEST_RECORD_BYTES then Err Truncated
     else Ok \<lparr>descriptor_end = u64_from_le_bytes (take 8 bs), descriptor_hash = Sha256Digest (drop 8 bs)\<rparr>)"

definition manifest_reader_new :: "ManifestFile \<Rightarrow> nat \<Rightarrow> ManifestError + ManifestReader" where
  "manifest_reader_new f max_bytes =
    bindR (manifest_io (seek_end f)) (\<lambda>file_length.
    if file_length > max_bytes then Err LengthOverflow
    else bindR (manifest_io (seek_start f)) (\<lambda>r.
    bindR (manifest_io (read_exact MANIFEST_HEADER_BYTES r)) (\<lambda>(header, r).
    bindR (parse_header header) (\<lambda>(manifest, content_bytes).
    bindR (ok_or LengthOverflow (checked_add_u64 content_bytes MANIFEST_CHECKSUM_BYTES)) (\<lambda>expected_length.
    if file_length \<noteq> expected_length
    then Err (if file_length < expected_length then Truncated else TrailingBytes)
    else Ok \<lparr>mr_reader = r, mr_manifest = manifest, records_remaining = chunk_count manifest, previous_end = 0,
             previous_length = None, content_hasher = header\<rparr>)))))"

definition validate_descriptor :: "ChunkDescriptor \<Rightarrow> unit mread" where
  "validate_descriptor d s =
    (if descriptor_end d < previous_end s then Err NonMonotonicEnds
     else let n = descriptor_end d - previous_end s in
       if n = 0 \<or> n > profile_max_size (chunked_profile (mr_manifest s))
          \<or> descriptor_end d > count_get (content_size (chunked_identity (mr_manifest s)))
       then Err InvalidChunkLength
       else if (case previous_length s of None \<Rightarrow> False | Some p \<Rightarrow> p < profile_min_size (chunked_profile (mr_manifest s)))
       then Err InvalidChunkLength
       else Ok ((), s\<lparr>previous_end := descriptor_end d, previous_length := Some n\<rparr>))"

definition next_record :: "ChunkDescriptor option mread" where
  "next_record s =
    (if records_remaining s = 0 then Ok (None, s)
     else bindR (manifest_io (read_exact MANIFEST_RECORD_BYTES (mr_reader s))) (\<lambda>(bs, r).
       bindR (parse_record_bytes bs) (\<lambda>d.
       bindR (validate_descriptor d (s\<lparr>mr_reader := r, content_hasher := content_hasher s @ bs\<rparr>)) (\<lambda>(_, s).
       Ok (Some d, s\<lparr>records_remaining := records_remaining s - 1\<rparr>)))))"

definition manifest_finish :: "(bytes \<Rightarrow> bytes) \<Rightarrow> ManifestReader \<Rightarrow> ManifestError + unit" where
  "manifest_finish sha256 s =
    (if records_remaining s \<noteq> 0 then Err InvalidHeader
     else let n = count_get (content_size (chunked_identity (mr_manifest s))) in
       if previous_end s \<noteq> n then Err (FinalSizeMismatch n (previous_end s))
       else bindR (manifest_io (read_exact MANIFEST_CHECKSUM_BYTES (mr_reader s))) (\<lambda>(expected_checksum, _).
         if sha256 (content_hasher s) = expected_checksum then Ok () else Err ChecksumMismatch))"

text \<open>The iterator \<open>(0..n).try_for_each(next_record)\<close>, keeping the records it passes.\<close>

fun read_records :: "nat \<Rightarrow> ChunkDescriptor list mread" where
  "read_records 0 s = Ok ([], s)"
| "read_records (Suc n) s =
    bindR (next_record s) (\<lambda>(d, s). bindR (read_records n s) (\<lambda>(ds, s).
      Ok ((case d of None \<Rightarrow> [] | Some d \<Rightarrow> [d]) @ ds, s)))"

definition finish_remaining :: "(bytes \<Rightarrow> bytes) \<Rightarrow> ManifestReader \<Rightarrow> ManifestError + unit" where
  "finish_remaining sha256 s = bindR (read_records (records_remaining s) s) (\<lambda>(_, s). manifest_finish sha256 s)"

subsection \<open>Writing\<close>

definition write_manifest_header :: "ChunkManifest \<Rightarrow> bytes" where
  "write_manifest_header m = MANIFEST_MAGIC @ [MANIFEST_VERSION, profile_id (chunked_profile m), 0, 0]
    @ digest_bytes (content_hash (chunked_identity m)) @ u64_to_le_bytes (count_get (content_size (chunked_identity m)))
    @ u64_to_le_bytes (chunk_count m)"

subsection \<open>The format\<close>

text \<open>The encoding of a manifest, and the descriptors of a division of an archive into pieces of given lengths and digests.\<close>

definition descriptor_bytes :: "ChunkDescriptor \<Rightarrow> bytes" where
  "descriptor_bytes d = u64_to_le_bytes (descriptor_end d) @ digest_bytes (descriptor_hash d)"

definition manifest_content :: "ChunkManifest \<Rightarrow> ChunkDescriptor list \<Rightarrow> bytes" where
  "manifest_content m ds = write_manifest_header m @ concat (map descriptor_bytes ds)"

definition manifest_bytes :: "(bytes \<Rightarrow> bytes) \<Rightarrow> ChunkManifest \<Rightarrow> ChunkDescriptor list \<Rightarrow> bytes" where
  "manifest_bytes sha256 m ds = manifest_content m ds @ sha256 (manifest_content m ds)"

fun piece_descriptors :: "nat \<Rightarrow> (nat \<times> ChunkHash) list \<Rightarrow> ChunkDescriptor list" where
  "piece_descriptors start [] = []"
| "piece_descriptors start ((n, h) # ps) =
    \<lparr>descriptor_end = start + n, descriptor_hash = h\<rparr> # piece_descriptors (start + n) ps"

text \<open>The lengths that may follow a chunk of a given length: no chunk is empty or larger than the maximum, and only the last one
  may be smaller than the minimum.\<close>

fun lengths_after :: "ChunkProfile \<Rightarrow> nat option \<Rightarrow> nat list \<Rightarrow> bool" where
  "lengths_after p prev [] = True"
| "lengths_after p prev (n # ns) = (0 < n \<and> n \<le> profile_max_size p
    \<and> (case prev of None \<Rightarrow> True | Some q \<Rightarrow> profile_min_size p \<le> q) \<and> lengths_after p (Some n) ns)"

definition lengths_allowed :: "ChunkProfile \<Rightarrow> nat list \<Rightarrow> bool" where
  "lengths_allowed p ns = (list_all (\<lambda>n. 0 < n \<and> n \<le> profile_max_size p) ns \<and> list_all (\<lambda>n. profile_min_size p \<le> n) (butlast ns))"

definition divides :: "ChunkManifest \<Rightarrow> (nat \<times> ChunkHash) list \<Rightarrow> bool" where
  "divides m ps = (lengths_allowed (chunked_profile m) (map fst ps)
    \<and> sum_list (map fst ps) = count_get (content_size (chunked_identity m))
    \<and> length ps = chunk_count m \<and> list_all (\<lambda>p. digest_wf (snd p)) ps)"

lemma lengths_after_Some:
  "lengths_after p (Some q) ns \<longleftrightarrow> lengths_allowed p ns \<and> (ns = [] \<or> profile_min_size p \<le> q)"
  by (induction ns arbitrary: q) (auto simp: lengths_allowed_def)

lemma lengths_after_None: "lengths_after p None ns \<longleftrightarrow> lengths_allowed p ns"
  by (cases ns) (auto simp: lengths_after_Some lengths_allowed_def)

lemma length_piece_descriptors [simp]: "length (piece_descriptors start ps) = length ps"
  by (induction start ps rule: piece_descriptors.induct) auto

lemma length_descriptor_bytes: "digest_wf (descriptor_hash d) \<Longrightarrow> length (descriptor_bytes d) = 40"
  by (simp add: descriptor_bytes_def digest_wf_def)

lemma length_piece_bytes:
  "list_all (\<lambda>p. digest_wf (snd p)) ps \<Longrightarrow> length (concat (map descriptor_bytes (piece_descriptors start ps))) = 40 * length ps"
  by (induction start ps rule: piece_descriptors.induct) (auto simp: length_descriptor_bytes)

lemma length_manifest_header: "digest_wf (content_hash (chunked_identity m)) \<Longrightarrow> length (write_manifest_header m) = 60"
  by (simp add: write_manifest_header_def MANIFEST_MAGIC_def digest_wf_def)

subsection \<open>The header\<close>

lemma profile_from_id_Inr [run_simps]: "profile_from_id i = Inr p \<longleftrightarrow> i = profile_id p"
  by (cases p) (auto simp: profile_from_id_def)

lemma checked_mul_u64_Some [run_simps]: "checked_mul_u64 a b = Some c \<longleftrightarrow> c = a * b \<and> a * b \<le> u64_max"
  by (auto simp: checked_mul_u64_def)

lemma manifest_io_Inr [run_simps]: "manifest_io r = Inr x \<longleftrightarrow> r = Inr x"
  by (cases r) (auto simp: manifest_io_def)

text \<open>A header of sixty bytes is its six fields.\<close>

lemma split_drop: "drop i xs = take j (drop i xs) @ drop (i + j) xs"
  using append_take_drop_id [of j "drop i xs"] by (simp add: add.commute)

lemma header_fields:
  assumes "length bs = 60"
  shows "bs = take 8 bs @ [bs ! 8, bs ! 9] @ take 2 (drop 10 bs) @ take 32 (drop 12 bs) @ take 8 (drop 44 bs) @ take 8 (drop 52 bs)"
proof -
  have "drop 8 bs = take 2 (drop 8 bs) @ take 2 (drop 10 bs) @ take 32 (drop 12 bs) @ take 8 (drop 44 bs) @ take 8 (drop 52 bs)"
    using split_drop [of 8 bs 2] split_drop [of 10 bs 2] split_drop [of 12 bs 32] split_drop [of 44 bs 8] assms by simp
  moreover have "take 2 (drop 8 bs) = [bs ! 8, bs ! 9]"
    using assms by (simp add: numeral_2_eq_2 take_Suc_conv_app_nth)
  ultimately show ?thesis using append_take_drop_id [of 8 bs] by simp
qed

lemma parse_header_Inr:
  assumes "length bs = 60"
  shows "parse_header bs = Inr (m, c) \<longleftrightarrow>
    bs = write_manifest_header m \<and> content_wf (chunked_identity m) \<and> c = 60 + 40 * chunk_count m \<and> c \<le> u64_max"
    (is "?parse \<longleftrightarrow> ?spec")
proof
  assume ?parse
  then have f: "take 8 bs = MANIFEST_MAGIC" "bs ! 8 = MANIFEST_VERSION" "take 2 (drop 10 bs) = [0, 0]"
      "bs ! 9 = profile_id (chunked_profile m)"
      "chunked_identity m = content_identity (Sha256Digest (take 32 (drop 12 bs))) (ByteCount (u64_from_le_bytes (take 8 (drop 44 bs))))"
      "chunk_count m = u64_from_le_bytes (take 8 (drop 52 bs))"
      "c = 60 + 40 * chunk_count m" "c \<le> u64_max"
    by (auto simp: parse_header_def run_simps Let_def manifest_sizes split: if_splits)
  then show ?spec
    using header_fields [OF assms] assms
    by (simp add: write_manifest_header_def content_identity_def u64_to_from_le_bytes content_wf_def digest_wf_def u64_from_le_bytes_le_max)
next
  assume r: ?spec
  obtain h n where i: "chunked_identity m = content_identity h (ByteCount n)" "length (digest_bytes h) = 32" "n \<le> u64_max"
    using r that [of "content_hash (chunked_identity m)" "count_get (content_size (chunked_identity m))"]
    by (simp add: content_wf_def digest_wf_def content_identity_def)
  have c: "chunk_count m \<le> u64_max" using r by simp
  have b: "bs = MANIFEST_MAGIC @ [MANIFEST_VERSION, profile_id (chunked_profile m), 0, 0] @ digest_bytes h
      @ u64_to_le_bytes n @ u64_to_le_bytes (chunk_count m)"
    using r i by (simp add: write_manifest_header_def content_identity_def)
  have l: "length MANIFEST_MAGIC = 8" by (simp add: MANIFEST_MAGIC_def)
  have f: "take 8 bs = MANIFEST_MAGIC" "bs ! 8 = MANIFEST_VERSION" "bs ! 9 = profile_id (chunked_profile m)"
      "take 2 (drop 10 bs) = [0, 0]" "take 32 (drop 12 bs) = digest_bytes h"
      "u64_from_le_bytes (take 8 (drop 44 bs)) = n" "u64_from_le_bytes (take 8 (drop 52 bs)) = chunk_count m"
    unfolding b using l i c by (simp_all add: nth_append u64_from_to_le_bytes)
  have "profile_from_id (profile_id (chunked_profile m)) = Inr (chunked_profile m)" by (simp add: run_simps)
  moreover have "40 * chunk_count m \<le> u64_max" "c = 60 + 40 * chunk_count m" "c \<le> u64_max" using r by simp_all
  moreover have "u64_from_le_bytes (drop 52 bs) = chunk_count m" using f(7) assms by simp
  ultimately show ?parse
    using i assms by (cases m) (simp add: parse_header_def Let_def manifest_sizes f checked_mul_u64_def checked_add_u64_def mult.commute)
qed

subsection \<open>The records\<close>

lemma parse_record_bytes_Inr [run_simps]:
  "parse_record_bytes bs = Inr d \<longleftrightarrow> bs = descriptor_bytes d \<and> digest_wf (descriptor_hash d) \<and> descriptor_end d \<le> u64_max"
proof
  assume "parse_record_bytes bs = Inr d"
  then have l: "length bs = 40" and d: "d = \<lparr>descriptor_end = u64_from_le_bytes (take 8 bs), descriptor_hash = Sha256Digest (drop 8 bs)\<rparr>"
    by (auto simp: parse_record_bytes_def manifest_sizes split: if_splits)
  show "bs = descriptor_bytes d \<and> digest_wf (descriptor_hash d) \<and> descriptor_end d \<le> u64_max"
    using l by (simp add: d descriptor_bytes_def digest_wf_def u64_to_from_le_bytes u64_from_le_bytes_le_max)
qed (auto simp: parse_record_bytes_def manifest_sizes descriptor_bytes_def digest_wf_def u64_from_to_le_bytes)

definition descriptor_ok :: "ManifestReader \<Rightarrow> nat \<Rightarrow> ChunkHash \<Rightarrow> bool" where
  "descriptor_ok s n h = (0 < n \<and> n \<le> profile_max_size (chunked_profile (mr_manifest s))
    \<and> previous_end s + n \<le> count_get (content_size (chunked_identity (mr_manifest s))) \<and> previous_end s + n \<le> u64_max
    \<and> (case previous_length s of None \<Rightarrow> True | Some q \<Rightarrow> profile_min_size (chunked_profile (mr_manifest s)) \<le> q)
    \<and> digest_wf h)"

definition past_record :: "ManifestReader \<Rightarrow> nat \<Rightarrow> ChunkHash \<Rightarrow> reader \<Rightarrow> ManifestReader" where
  "past_record s n h r = s\<lparr>mr_reader := r, records_remaining := records_remaining s - 1, previous_end := previous_end s + n,
    previous_length := Some n,
    content_hasher := content_hasher s @ descriptor_bytes \<lparr>descriptor_end = previous_end s + n, descriptor_hash = h\<rparr>\<rparr>"

lemma past_record_sel [simp]:
  "mr_reader (past_record s n h r) = r" "mr_manifest (past_record s n h r) = mr_manifest s"
  "records_remaining (past_record s n h r) = records_remaining s - 1"
  "previous_end (past_record s n h r) = previous_end s + n" "previous_length (past_record s n h r) = Some n"
  "content_hasher (past_record s n h r) =
    content_hasher s @ descriptor_bytes \<lparr>descriptor_end = previous_end s + n, descriptor_hash = h\<rparr>"
  by (simp_all add: past_record_def)

lemma descriptor_ok_reader [simp]: "descriptor_ok (s\<lparr>mr_reader := r, content_hasher := c\<rparr>) n h = descriptor_ok s n h"
  by (cases "previous_length s") (simp_all add: descriptor_ok_def)

lemma validate_descriptor_Inr:
  "digest_wf (descriptor_hash d) \<Longrightarrow> descriptor_end d \<le> u64_max \<Longrightarrow> validate_descriptor d s = Inr (u, s') \<longleftrightarrow>
    (\<exists>n. descriptor_end d = previous_end s + n \<and> descriptor_ok s n (descriptor_hash d)
      \<and> s' = s\<lparr>previous_end := previous_end s + n, previous_length := Some n\<rparr>)"
  by (cases "descriptor_end d < previous_end s")
    (auto simp: validate_descriptor_def descriptor_ok_def Let_def le_Suc_ex not_less split: if_splits option.splits
      dest!: le_Suc_ex)

lemma next_record_Inr:
  assumes "records_remaining s \<noteq> 0"
  shows "next_record s = Inr (x, s') \<longleftrightarrow> (\<exists>n h r. x = Some \<lparr>descriptor_end = previous_end s + n, descriptor_hash = h\<rparr>
    \<and> descriptor_ok s n h \<and> s' = past_record s n h r
    \<and> read_exact 40 (mr_reader s) = Inr (descriptor_bytes \<lparr>descriptor_end = previous_end s + n, descriptor_hash = h\<rparr>, r))"
    (is "_ \<longleftrightarrow> ?spec")
proof
  assume "next_record s = Inr (x, s')"
  then obtain bs r d t where rd: "read_exact 40 (mr_reader s) = Inr (bs, r)" "parse_record_bytes bs = Inr d"
      "validate_descriptor d (s\<lparr>mr_reader := r, content_hasher := content_hasher s @ bs\<rparr>) = Inr ((), t)"
      "x = Some d" "s' = t\<lparr>records_remaining := records_remaining t - 1\<rparr>"
    using assms by (auto simp: next_record_def run_simps manifest_sizes)
  have d: "bs = descriptor_bytes d" "digest_wf (descriptor_hash d)" "descriptor_end d \<le> u64_max"
    using rd(2) by (simp_all add: run_simps)
  from rd(3) [unfolded validate_descriptor_Inr [OF d(2,3)]] obtain n where n: "descriptor_end d = previous_end s + n"
      "descriptor_ok s n (descriptor_hash d)"
      "t = s\<lparr>mr_reader := r, content_hasher := content_hasher s @ bs, previous_end := previous_end s + n, previous_length := Some n\<rparr>"
    by auto
  obtain h where h: "d = \<lparr>descriptor_end = previous_end s + n, descriptor_hash = h\<rparr>"
    using n(1) by (cases d) simp
  show ?spec
    using rd n(2,3) d(1) by (intro exI [of _ n] exI [of _ h] exI [of _ r]) (simp add: past_record_def h)
next
  assume ?spec
  then obtain n h r where n: "x = Some \<lparr>descriptor_end = previous_end s + n, descriptor_hash = h\<rparr>" "descriptor_ok s n h"
      "s' = past_record s n h r"
      "read_exact 40 (mr_reader s) = Inr (descriptor_bytes \<lparr>descriptor_end = previous_end s + n, descriptor_hash = h\<rparr>, r)"
    by blast
  let ?d = "\<lparr>descriptor_end = previous_end s + n, descriptor_hash = h\<rparr>"
  have w: "digest_wf h" "previous_end s + n \<le> u64_max" using n(2) by (simp_all add: descriptor_ok_def)
  have p: "parse_record_bytes (descriptor_bytes ?d) = Inr ?d" using w by (simp add: run_simps)
  let ?s = "s\<lparr>mr_reader := r, content_hasher := content_hasher s @ descriptor_bytes ?d\<rparr>"
  have "validate_descriptor ?d ?s = Inr ((), ?s\<lparr>previous_end := previous_end s + n, previous_length := Some n\<rparr>)"
    using n(2) w validate_descriptor_Inr [of ?d ?s "()"] by auto
  with n p assms show "next_record s = Inr (x, s')"
    by (simp add: next_record_def manifest_sizes manifest_io_def past_record_def)
qed

text \<open>The loop over the records and the format agree.\<close>

abbreviation records_text :: "nat \<Rightarrow> (nat \<times> ChunkHash) list \<Rightarrow> bytes" where
  "records_text start ps \<equiv> concat (map descriptor_bytes (piece_descriptors start ps))"

abbreviation archive_size :: "ManifestReader \<Rightarrow> nat" where
  "archive_size s \<equiv> count_get (content_size (chunked_identity (mr_manifest s)))"

definition past_records :: "ManifestReader \<Rightarrow> (nat \<times> ChunkHash) list \<Rightarrow> ManifestReader \<Rightarrow> bool" where
  "past_records s ps t = (records_remaining s = length ps + records_remaining t
    \<and> previous_end t = previous_end s + sum_list (map fst ps)
    \<and> reader_bytes (mr_reader s) = records_text (previous_end s) ps @ reader_bytes (mr_reader t)
    \<and> content_hasher t = content_hasher s @ records_text (previous_end s) ps \<and> mr_manifest t = mr_manifest s)"

lemma read_records_sound:
  assumes "read_records n s = Inr (ds, t)" and "n \<le> records_remaining s"
  shows "\<exists>ps. ds = piece_descriptors (previous_end s) ps \<and> length ps = n \<and> past_records s ps t
    \<and> lengths_after (chunked_profile (mr_manifest s)) (previous_length s) (map fst ps) \<and> list_all (\<lambda>p. digest_wf (snd p)) ps"
  using assms
proof (induction n arbitrary: s ds)
  case 0
  then show ?case by (intro exI [of _ "[]"]) (simp add: past_records_def)
next
  case (Suc n)
  then obtain x s1 es where x: "next_record s = Inr (x, s1)" "read_records n s1 = Inr (es, t)"
      "ds = (case x of None \<Rightarrow> [] | Some d \<Rightarrow> [d]) @ es"
    by (auto simp: run_simps)
  have ne: "records_remaining s \<noteq> 0" using Suc.prems(2) by simp
  from x(1) [unfolded next_record_Inr [OF ne]] obtain m h r
    where m: "x = Some \<lparr>descriptor_end = previous_end s + m, descriptor_hash = h\<rparr>" "descriptor_ok s m h" "s1 = past_record s m h r"
      "read_exact 40 (mr_reader s) = Inr (descriptor_bytes \<lparr>descriptor_end = previous_end s + m, descriptor_hash = h\<rparr>, r)"
    by blast
  have "n \<le> records_remaining s1" using Suc.prems(2) m(3) by simp
  from Suc.IH [OF x(2) this] obtain ps where ps: "es = piece_descriptors (previous_end s1) ps" "length ps = n" "past_records s1 ps t"
      "lengths_after (chunked_profile (mr_manifest s1)) (previous_length s1) (map fst ps)" "list_all (\<lambda>p. digest_wf (snd p)) ps"
    by blast
  show ?case
    using ps m(2) x(3) ne read_exact_Inr [OF m(4)]
    by (intro exI [of _ "(m, h) # ps"]) (auto simp: m(1,3) past_records_def descriptor_ok_def split: option.splits)
qed

lemma read_records_complete:
  assumes "records_remaining s = length ps + k" and "previous_end s + sum_list (map fst ps) \<le> archive_size s"
    and "archive_size s \<le> u64_max"
    and "lengths_after (chunked_profile (mr_manifest s)) (previous_length s) (map fst ps)" and "list_all (\<lambda>p. digest_wf (snd p)) ps"
    and "reader_bytes (mr_reader s) = records_text (previous_end s) ps @ rest"
  shows "\<exists>t. read_records (length ps) s = Inr (piece_descriptors (previous_end s) ps, t) \<and> past_records s ps t"
  using assms
proof (induction ps arbitrary: s)
  case Nil
  then show ?case by (simp add: past_records_def)
next
  case (Cons p ps)
  obtain m h where p: "p = (m, h)" by (cases p)
  let ?d = "\<lparr>descriptor_end = previous_end s + m, descriptor_hash = h\<rparr>"
  have ok: "descriptor_ok s m h" using Cons.prems(2-5) by (auto simp: p descriptor_ok_def)
  then have l: "length (descriptor_bytes ?d) = 40" by (simp add: length_descriptor_bytes descriptor_ok_def)
  obtain r where r: "read_exact 40 (mr_reader s) = Inr (descriptor_bytes ?d, r)"
      "reader_bytes r = records_text (previous_end s + m) ps @ rest"
    using read_exact_enough [of 40 "mr_reader s"] Cons.prems(6) l by (auto simp: p)
  have n: "next_record s = Inr (Some ?d, past_record s m h r)"
    using ok r(1) Cons.prems(1) by (subst next_record_Inr) auto
  have "\<exists>t. read_records (length ps) (past_record s m h r) = Inr (piece_descriptors (previous_end (past_record s m h r)) ps, t)
      \<and> past_records (past_record s m h r) ps t"
    by (rule Cons.IH) (use Cons.prems r(2) in \<open>auto simp: p\<close>)
  then obtain t where "read_records (length ps) (past_record s m h r) = Inr (piece_descriptors (previous_end s + m) ps, t)"
      "past_records (past_record s m h r) ps t"
    by auto
  then show ?case
    using n Cons.prems(1,6) r(2) by (auto simp: p past_records_def)
qed

subsection \<open>Whole manifests\<close>

text \<open>The records of a manifest that reads to its end: the loop of \<open>mark_live_manifest\<close>, and \<open>validate_manifest\<close> without the records.\<close>

definition manifest_records :: "(bytes \<Rightarrow> bytes) \<Rightarrow> ManifestFile \<Rightarrow> nat \<Rightarrow> ManifestError + ChunkManifest \<times> ChunkDescriptor list" where
  "manifest_records sha256 f max_bytes =
    bindR (manifest_reader_new f max_bytes) (\<lambda>s.
    bindR (read_records (records_remaining s) s) (\<lambda>(ds, t).
    bindR (manifest_finish sha256 t) (\<lambda>_. Ok (mr_manifest s, ds))))"

definition manifest_validate :: "(bytes \<Rightarrow> bytes) \<Rightarrow> ManifestFile \<Rightarrow> nat \<Rightarrow> ManifestError + ChunkManifest" where
  "manifest_validate sha256 f max_bytes =
    bindR (manifest_reader_new f max_bytes) (\<lambda>s. bindR (finish_remaining sha256 s) (\<lambda>_. Ok (mr_manifest s)))"

definition file_of :: "reader \<Rightarrow> ManifestFile" where
  "file_of r = \<lparr>seek_end = Ok (length (reader_bytes r)), seek_start = Ok r\<rparr>"

lemma manifest_validate_records:
  "manifest_validate sha256 f max_bytes = bindR (manifest_records sha256 f max_bytes) (\<lambda>(m, _). Ok m)"
  by (auto simp: manifest_validate_def manifest_records_def finish_remaining_def bindR_def split: sum.splits prod.splits)

definition first_reader :: "ChunkManifest \<Rightarrow> reader \<Rightarrow> ManifestReader" where
  "first_reader m q = \<lparr>mr_reader = q, mr_manifest = m, records_remaining = chunk_count m, previous_end = 0,
    previous_length = None, content_hasher = write_manifest_header m\<rparr>"

lemma manifest_reader_new_Inr:
  assumes "max_bytes \<le> u64_max"
  shows "manifest_reader_new (file_of r) max_bytes = Inr s \<longleftrightarrow>
    (\<exists>m q. read_exact 60 r = Inr (write_manifest_header m, q) \<and> content_wf (chunked_identity m)
      \<and> length (reader_bytes r) = 92 + 40 * chunk_count m \<and> length (reader_bytes r) \<le> max_bytes \<and> s = first_reader m q)"
    (is "_ \<longleftrightarrow> ?spec")
proof
  assume "manifest_reader_new (file_of r) max_bytes = Inr s"
  then obtain header q m c where h: "length (reader_bytes r) \<le> max_bytes" "read_exact 60 r = Inr (header, q)"
      "parse_header header = Inr (m, c)" "length (reader_bytes r) = c + 32"
      "s = \<lparr>mr_reader = q, mr_manifest = m, records_remaining = chunk_count m, previous_end = 0,
             previous_length = None, content_hasher = header\<rparr>"
    by (auto simp: manifest_reader_new_def file_of_def run_simps manifest_sizes split: if_splits)
  have "length header = 60" using read_exact_Inr [OF h(2)] by simp
  from h(3) [unfolded parse_header_Inr [OF this]] h show ?spec
    by (intro exI [of _ m] exI [of _ q]) (auto simp: first_reader_def)
next
  assume ?spec
  then obtain m q where m: "read_exact 60 r = Inr (write_manifest_header m, q)" "content_wf (chunked_identity m)"
      "length (reader_bytes r) = 92 + 40 * chunk_count m" "length (reader_bytes r) \<le> max_bytes" "s = first_reader m q"
    by blast
  have "length (write_manifest_header m) = 60" using read_exact_Inr [OF m(1)] by simp
  then have "parse_header (write_manifest_header m) = Inr (m, 60 + 40 * chunk_count m)"
    using m assms by (subst parse_header_Inr) auto
  with m assms show "manifest_reader_new (file_of r) max_bytes = Inr s"
    by (simp add: manifest_reader_new_def file_of_def manifest_sizes manifest_io_def checked_add_u64_def first_reader_def)
qed

lemma manifest_finish_Inr:
  "manifest_finish sha256 t = Inr u \<longleftrightarrow> records_remaining t = 0 \<and> previous_end t = archive_size t
    \<and> (\<exists>q. read_exact 32 (mr_reader t) = Inr (sha256 (content_hasher t), q))"
  by (auto simp: manifest_finish_def run_simps Let_def manifest_sizes split: if_splits)

lemma manifest_records_sound:
  assumes "max_bytes \<le> u64_max" and "manifest_records sha256 (file_of r) max_bytes = Inr (m, ds)"
  shows "\<exists>ps. ds = piece_descriptors 0 ps \<and> divides m ps \<and> content_wf (chunked_identity m)
    \<and> reader_bytes r = manifest_bytes sha256 m ds \<and> length (reader_bytes r) \<le> max_bytes"
proof -
  from assms(2) obtain s t where s: "manifest_reader_new (file_of r) max_bytes = Inr s"
      "read_records (records_remaining s) s = Inr (ds, t)" "manifest_finish sha256 t = Inr ()" "m = mr_manifest s"
    by (auto simp: manifest_records_def run_simps)
  from s(1) [unfolded manifest_reader_new_Inr [OF assms(1)]] obtain m' q
    where m': "read_exact 60 r = Inr (write_manifest_header m', q)" "content_wf (chunked_identity m')"
      "length (reader_bytes r) = 92 + 40 * chunk_count m'" "length (reader_bytes r) \<le> max_bytes" "s = first_reader m' q"
    by blast
  have "m = m'" unfolding s(4) m'(5) by (simp add: first_reader_def)
  note q = m' [folded this]
  from read_records_sound [OF s(2)] obtain ps where ps: "ds = piece_descriptors 0 ps" "length ps = chunk_count m" "past_records s ps t"
      "lengths_after (chunked_profile m) None (map fst ps)" "list_all (\<lambda>p. digest_wf (snd p)) ps"
    by (auto simp: q(5) first_reader_def)
  obtain q' where f: "previous_end t = archive_size t" "read_exact 32 (mr_reader t) = Inr (sha256 (content_hasher t), q')"
    using s(3) by (auto simp: manifest_finish_Inr)
  have b: "reader_bytes r = manifest_bytes sha256 m ds @ reader_bytes q'"
    using read_exact_Inr [OF q(1)] read_exact_Inr [OF f(2)] ps(1,3)
    by (simp add: past_records_def q(5) first_reader_def manifest_bytes_def manifest_content_def)
  have "length (manifest_bytes sha256 m ds) = 92 + 40 * chunk_count m"
    using read_exact_Inr [OF q(1)] read_exact_Inr [OF f(2)] ps
    by (simp add: past_records_def q(5) first_reader_def manifest_bytes_def manifest_content_def length_piece_bytes)
  with b q(3) have "reader_bytes q' = []" by simp
  moreover have "divides m ps"
    using ps f(1) by (auto simp: divides_def lengths_after_None past_records_def q(5) first_reader_def)
  ultimately show ?thesis using b ps(1) q(2,4) by auto
qed

lemma manifest_records_complete:
  assumes "\<And>x. length (sha256 x) = 32" and "max_bytes \<le> u64_max" and "divides m ps" and "content_wf (chunked_identity m)"
    and "reader_bytes r = manifest_bytes sha256 m (piece_descriptors 0 ps)" and "length (reader_bytes r) \<le> max_bytes"
  shows "manifest_records sha256 (file_of r) max_bytes = Inr (m, piece_descriptors 0 ps)"
proof -
  have h: "length (write_manifest_header m) = 60" using assms(4) by (simp add: length_manifest_header content_wf_def)
  have ps: "list_all (\<lambda>p. digest_wf (snd p)) ps" "length ps = chunk_count m" using assms(3) by (simp_all add: divides_def)
  have n: "length (reader_bytes r) = 92 + 40 * chunk_count m"
    using assms(1) ps h by (simp add: assms(5) manifest_bytes_def manifest_content_def length_piece_bytes)
  obtain q where q: "read_exact 60 r = Inr (write_manifest_header m, q)"
      "reader_bytes q = records_text 0 ps @ sha256 (manifest_content m (piece_descriptors 0 ps))"
    using read_exact_enough [of 60 r] n h by (auto simp: assms(5) manifest_bytes_def manifest_content_def)
  have new: "manifest_reader_new (file_of r) max_bytes = Inr (first_reader m q)"
    using q(1) assms(2,4,6) n by (subst manifest_reader_new_Inr) auto
  have "\<exists>t. read_records (length ps) (first_reader m q) = Inr (piece_descriptors (previous_end (first_reader m q)) ps, t)
      \<and> past_records (first_reader m q) ps t"
    by (rule read_records_complete [where k = 0 and rest = "sha256 (manifest_content m (piece_descriptors 0 ps))"])
      (use assms(3,4) q(2) ps in \<open>simp_all add: first_reader_def divides_def lengths_after_None content_wf_def\<close>)
  then obtain t where t: "read_records (chunk_count m) (first_reader m q) = Inr (piece_descriptors 0 ps, t)"
      "past_records (first_reader m q) ps t"
    using ps(2) by (auto simp: first_reader_def)
  have st: "records_remaining t = 0" "previous_end t = archive_size t" "content_hasher t = manifest_content m (piece_descriptors 0 ps)"
      "reader_bytes (mr_reader t) = sha256 (manifest_content m (piece_descriptors 0 ps))"
    using t(2) ps q(2) assms(3) by (auto simp: past_records_def first_reader_def manifest_content_def divides_def)
  have "\<exists>q'. read_exact 32 (mr_reader t) = Inr (sha256 (content_hasher t), q')"
    using read_exact_enough [of 32 "mr_reader t"] st assms(1) by auto
  then have "manifest_finish sha256 t = Inr ()" using st by (subst manifest_finish_Inr) blast
  with new t(1) show ?thesis by (simp add: manifest_records_def first_reader_def)
qed

text \<open>C11: a chunk manifest is accepted exactly if it is the canonical encoding of a division of the archive: the end
  offsets follow from chunk lengths that the profile allows and that add up to the size of the archive, as many as the header says, and
  the checksum is the digest of everything before it.  So one file has one reading, whatever the sizes of the reads, and a
  truncated, extended or altered manifest is an error.  \<open>sha256\<close> yields 32 bytes.\<close>

theorem manifest_accepts_exactly:
  assumes "\<And>x. length (sha256 x) = MANIFEST_CHECKSUM_BYTES" and "max_bytes \<le> u64_max"
  shows "manifest_records sha256 (file_of r) max_bytes = Ok (m, ds) \<longleftrightarrow>
    (\<exists>ps. ds = piece_descriptors 0 ps \<and> divides m ps \<and> content_wf (chunked_identity m)
      \<and> reader_bytes r = manifest_bytes sha256 m ds \<and> length (reader_bytes r) \<le> max_bytes)"
proof -
  have "\<And>x. length (sha256 x) = 32" using assms(1) by (simp add: MANIFEST_CHECKSUM_BYTES_def)
  then show ?thesis
    using manifest_records_sound [OF assms(2), of sha256 r] manifest_records_complete [of sha256, OF _ assms(2)] by blast
qed

text \<open>The witness: an archive of 300000 bytes in two chunks, the second one smaller than the minimum.\<close>

definition two_pieces :: "(nat \<times> ChunkHash) list" where
  "two_pieces = [(262144, Sha256Digest (replicate 32 1)), (37856, Sha256Digest (replicate 32 2))]"

definition two_piece_manifest :: ChunkManifest where
  "two_piece_manifest = \<lparr>chunked_identity = content_identity (Sha256Digest (replicate 32 7)) (ByteCount 300000),
    chunked_profile = MinCdcHash4V2, chunk_count = 2\<rparr>"

theorem manifest_accepts_exactly_witness:
  "manifest_records (\<lambda>_. replicate 32 0) (file_of [Data (manifest_bytes (\<lambda>_. replicate 32 0) two_piece_manifest (piece_descriptors 0 two_pieces))]) 1000
    = Ok (two_piece_manifest, piece_descriptors 0 two_pieces)"
proof -
  let ?bs = "manifest_bytes (\<lambda>_. replicate 32 0) two_piece_manifest (piece_descriptors 0 two_pieces)"
  have d: "divides two_piece_manifest two_pieces"
    by (simp add: divides_def two_piece_manifest_def two_pieces_def lengths_allowed_def content_identity_def digest_wf_def)
  have c: "content_wf (chunked_identity two_piece_manifest)"
    by (simp add: two_piece_manifest_def content_identity_def content_wf_def digest_wf_def u64_max_def)
  have "length (concat (map descriptor_bytes (piece_descriptors 0 two_pieces))) = 80"
    using d by (subst length_piece_bytes) (simp_all add: divides_def two_pieces_def)
  then have l: "length ?bs = 172"
    using c by (simp add: manifest_bytes_def manifest_content_def length_manifest_header content_wf_def)
  then have "reader_bytes [Data ?bs] = ?bs" by auto
  with l d c show ?thesis
    using manifest_accepts_exactly [of "\<lambda>_. replicate 32 0" 1000 "[Data ?bs]" two_piece_manifest "piece_descriptors 0 two_pieces"]
    by (auto simp: MANIFEST_CHECKSUM_BYTES_def u64_max_def)
qed

end
