(* ===== verification/Chunk_Store.thy ===== *)
theory Chunk_Store
  imports Chunk_Manifest Token_File Effects "HOL-Library.AList"
begin

section \<open>The chunk store (\<open>src/storage/chunk_store.rs\<close>)\<close>

text \<open>
  The files of a chunked cache and the operations that create, repair and open chunks.  \<open>ChunkDisk\<close> holds the chunk shards,
  the markers of pending repairs and the manifest directory, and what a crash keeps of them: \<open>durable_entry\<close> is the file
  that a chunk name has on disk, \<open>durable_content\<close> the files whose content is there, \<open>lingering\<close> the manifests whose
  removal is not yet durable.  Files are told apart by their stamp.  Calls that change none of this (opening a directory, checking
  its permissions, reading a file) only draw an outcome.  The repair locks serialize the operations on a chunk, so an operation is
  one run; the generations that let readers skip the lock are left out.  An error of \<open>write_all\<close> leaves none or all of the
  bytes in the temporary file, whose content nothing reads afterwards.
\<close>

subsection \<open>The disk\<close>

datatype Node = File bytes nat | NotRegular

type_synonym Entries = "(string \<times> Node) list"

datatype ChunkStoreError =
    MissingNar
  | InvalidRange nat nat nat
  | ChunkIo IoError
  | ManifestFault ManifestError
  | NarHashMismatch NarHash NarHash
  | NarSizeMismatch nat nat

record ChunkDisk =
  shards :: "(string \<times> Entries option) list" \<comment> \<open>None: not a directory\<close>
  repair_markers :: "string list"
  manifest_dir :: Entries
  next_stamp :: nat
  next_temp :: nat
  durable_entry :: "string \<Rightarrow> string \<Rightarrow> nat option"
  durable_content :: "nat set"
  durable_markers :: "string set"
  lingering :: "bytes list"
  pending_markers :: "nat \<Rightarrow> nat"

type_synonym 'a cs = "(ChunkDisk, IoError, ChunkStoreError, 'a) eff"

abbreviation effect :: "(ChunkDisk \<Rightarrow> ChunkDisk) \<Rightarrow> unit cs" where
  "effect f \<equiv> act ChunkIo f"

abbreviation attempt :: "unit cs" where
  "attempt \<equiv> act ChunkIo (\<lambda>d. d)"

text \<open>\<open>Err(error) if error.kind() == NotFound\<close>.\<close>

definition if_missing :: "'a \<Rightarrow> 'a cs \<Rightarrow> 'a cs" where
  "if_missing x m = recover m (\<lambda>e. if e = ChunkIo NotFound then Some x else None)"

definition node_at :: "ChunkDisk \<Rightarrow> string \<Rightarrow> string \<Rightarrow> Node option" where
  "node_at d sh name = (case map_of (shards d) sh of Some (Some es) \<Rightarrow> map_of es name | _ \<Rightarrow> None)"

definition on_shard :: "string \<Rightarrow> (Entries \<Rightarrow> Entries) \<Rightarrow> ChunkDisk \<Rightarrow> ChunkDisk" where
  "on_shard sh f d = (case map_of (shards d) sh of
      Some (Some es) \<Rightarrow> d\<lparr>shards := AList.update sh (Some (f es)) (shards d)\<rparr>
    | _ \<Rightarrow> d)"

abbreviation set_node :: "string \<Rightarrow> string \<Rightarrow> Node \<Rightarrow> ChunkDisk \<Rightarrow> ChunkDisk" where
  "set_node sh name node \<equiv> on_shard sh (AList.update name node)"

abbreviation drop_node :: "string \<Rightarrow> string \<Rightarrow> ChunkDisk \<Rightarrow> ChunkDisk" where
  "drop_node sh name \<equiv> on_shard sh (AList.delete name)"

definition stamp_at :: "ChunkDisk \<Rightarrow> string \<Rightarrow> string \<Rightarrow> nat option" where
  "stamp_at d sh name = (case node_at d sh name of Some (File _ st) \<Rightarrow> Some st | _ \<Rightarrow> None)"

text \<open>Synchronizing a shard directory, the chunk directory, a file.\<close>

definition sync_shard :: "string \<Rightarrow> unit cs" where
  "sync_shard sh = effect (\<lambda>d. d\<lparr>durable_entry := (durable_entry d)(sh := stamp_at d sh)\<rparr>)"

definition sync_chunks :: "unit cs" where
  "sync_chunks = effect (\<lambda>d. d\<lparr>durable_markers := set (repair_markers d)\<rparr>)"

definition sync_file :: "string \<Rightarrow> string \<Rightarrow> unit cs" where
  "sync_file sh name = effect (\<lambda>d. case stamp_at d sh name of Some st \<Rightarrow> d\<lparr>durable_content := insert st (durable_content d)\<rparr> | None \<Rightarrow> d)"

subsection \<open>Names\<close>

record chunk_env =
  ce_encodings :: encodings
  ce_hex :: hexlower
  ce_sha256 :: "bytes \<Rightarrow> bytes"
  ce_process :: nat

definition CHUNK_TEMP_PREFIX :: string where
  "CHUNK_TEMP_PREFIX = ''chunk''"

definition MAX_CHUNK_MANIFEST_BYTES :: nat where
  "MAX_CHUNK_MANIFEST_BYTES = 128 * 1024 * 1024"

definition CHUNK_REPAIR_LOCK_COUNT :: nat where
  "CHUNK_REPAIR_LOCK_COUNT = 64"

definition hex_name :: "chunk_env \<Rightarrow> bytes \<Rightarrow> string" where
  "hex_name env bs = str_of (hex_encode (ce_hex env) bs)"

definition shard_name :: "chunk_env \<Rightarrow> ChunkHash \<Rightarrow> string" where
  "shard_name env hash = take 2 (hex_name env (digest_bytes hash))"

definition chunk_name :: "chunk_env \<Rightarrow> ChunkHash \<Rightarrow> string" where
  "chunk_name env hash = hex_name env (digest_bytes hash)"

definition manifest_name :: "chunk_env \<Rightarrow> NarHash \<Rightarrow> string" where
  "manifest_name env hash = digest_display (ce_encodings env) hash @ ''.manifest''"

definition chunk_repair_marker_name :: "chunk_env \<Rightarrow> ChunkHash \<Rightarrow> string" where
  "chunk_repair_marker_name env hash = ''.repair-'' @ hex_name env (digest_bytes hash)"

definition chunk_repair_stripe :: "ChunkHash \<Rightarrow> nat" where
  "chunk_repair_stripe hash = unat (digest_bytes hash ! 0) mod CHUNK_REPAIR_LOCK_COUNT"

definition temporary_name :: "chunk_env \<Rightarrow> string \<Rightarrow> string cs" where
  "temporary_name env prefix = look (\<lambda>d. thenW (record_that (\<lambda>d. d\<lparr>next_temp := (next_temp d + 1) mod (u64_max + 1)\<rparr>))
    (retW (''.'' @ prefix @ ''-'' @ u64_to_string (ce_process env) @ ''-'' @ u64_to_string (next_temp d))))"

subsection \<open>Creating and repairing chunks\<close>

datatype PublishOutcome = PublishCreated | PublishIdentical

datatype ImmutableLinkOutcome = LinkCreated | LinkIdentical | LinkCollision

definition open_shard :: "chunk_env \<Rightarrow> ChunkHash \<Rightarrow> unit cs" where
  "open_shard env hash = thenW attempt (look (\<lambda>d. case map_of (shards d) (shard_name env hash) of
      None \<Rightarrow> failW (ChunkIo NotFound)
    | Some None \<Rightarrow> failW (ChunkIo InvalidData)
    | Some (Some _) \<Rightarrow> retW ()))"

definition open_or_create_shard :: "chunk_env \<Rightarrow> ChunkHash \<Rightarrow> unit cs" where
  "open_or_create_shard env hash = look (\<lambda>d. case map_of (shards d) (shard_name env hash) of
      None \<Rightarrow> thenW (effect (\<lambda>d. d\<lparr>shards := AList.update (shard_name env hash) (Some []) (shards d)\<rparr>)) attempt
    | Some None \<Rightarrow> failW (ChunkIo InvalidData)
    | Some (Some _) \<Rightarrow> attempt)"

text \<open>\<open>open_at\<close> with \<open>CreateNew\<close> is exclusive; the file has a stamp of its own.\<close>

definition write_temporary_file :: "string \<Rightarrow> string \<Rightarrow> bytes \<Rightarrow> unit cs" where
  "write_temporary_file sh name bs = look (\<lambda>d. case map_of (shards d) sh of
      Some (Some es) \<Rightarrow> (case map_of es name of
          Some _ \<Rightarrow> failW (ChunkIo (OtherIo ''already exists''))
        | None \<Rightarrow>
           thenW (effect (\<lambda>d. (set_node sh name (File [] (next_stamp d)) d)\<lparr>next_stamp := next_stamp d + 1\<rparr>))
             (effect (\<lambda>d. case node_at d sh name of Some (File _ st) \<Rightarrow> set_node sh name (File bs st) d | _ \<Rightarrow> d)))
    | _ \<Rightarrow> failW (ChunkIo NotFound))"

definition remove_temporary_file :: "string \<Rightarrow> string \<Rightarrow> unit cs" where
  "remove_temporary_file sh name = if_missing () (look (\<lambda>d. case node_at d sh name of
      None \<Rightarrow> failW (ChunkIo NotFound)
    | Some _ \<Rightarrow> effect (drop_node sh name)))"

definition files_equal :: "Node option \<Rightarrow> Node option \<Rightarrow> bool cs" where
  "files_equal left right = thenW attempt (case left of
      Some (File c _) \<Rightarrow> (case right of
          Some (File c' _) \<Rightarrow> retW (c = c')
        | Some NotRegular \<Rightarrow> failW (ChunkIo InvalidData)
        | None \<Rightarrow> failW (ChunkIo NotFound))
    | Some NotRegular \<Rightarrow> failW (ChunkIo InvalidData)
    | None \<Rightarrow> failW (ChunkIo NotFound))"

definition link_or_compare_immutable :: "string \<Rightarrow> string \<Rightarrow> string \<Rightarrow> ImmutableLinkOutcome cs" where
  "link_or_compare_immutable sh source destination = look (\<lambda>d. case node_at d sh destination of
      None \<Rightarrow> (case node_at d sh source of
          None \<Rightarrow> failW (ChunkIo NotFound)
        | Some node \<Rightarrow> thenW (effect (set_node sh destination node)) (retW LinkCreated))
    | Some node \<Rightarrow> bindW (files_equal (node_at d sh source) (Some node)) (\<lambda>equal.
        retW (if equal then LinkIdentical else LinkCollision)))"

text \<open>The end of a repair: the marker goes, is no longer counted, and its removal is made durable.\<close>

definition release_marker :: "chunk_env \<Rightarrow> ChunkHash \<Rightarrow> unit cs" where
  "release_marker env hash =
    (let stripe = chunk_repair_stripe hash in
     thenW (effect (\<lambda>d. d\<lparr>repair_markers := removeAll (chunk_repair_marker_name env hash) (repair_markers d)\<rparr>))
       (thenW (record_that (\<lambda>d. d\<lparr>pending_markers := (pending_markers d)
           (stripe := (if pending_markers d stripe = 0 then usize_max else pending_markers d stripe - 1))\<rparr>))
         sync_chunks))"

definition finish_pending_chunk_repair :: "chunk_env \<Rightarrow> ChunkHash \<Rightarrow> unit cs" where
  "finish_pending_chunk_repair env hash =
    bindW (if_missing False (thenW attempt (look (\<lambda>d.
        if chunk_repair_marker_name env hash \<in> set (repair_markers d) then retW True else failW (ChunkIo NotFound))))) (\<lambda>pending.
    if \<not> pending then retW () else thenW (sync_shard (shard_name env hash)) (release_marker env hash))"

text \<open>\<open>open_regular_at\<close> on a chunk: its content and stamp, \<open>None\<close> if there is none.\<close>

definition open_regular_chunk :: "chunk_env \<Rightarrow> ChunkHash \<Rightarrow> (bytes \<times> nat) option cs" where
  "open_regular_chunk env hash = if_missing None (thenW attempt (look (\<lambda>d.
    case node_at d (shard_name env hash) (chunk_name env hash) of
      None \<Rightarrow> failW (ChunkIo NotFound)
    | Some NotRegular \<Rightarrow> failW (ChunkIo InvalidData)
    | Some (File c st) \<Rightarrow> retW (Some (c, st)))))"

definition open_chunk_while_repair_locked :: "chunk_env \<Rightarrow> ChunkHash \<Rightarrow> (bytes \<times> nat) option cs" where
  "open_chunk_while_repair_locked env hash =
    bindW (if_missing False (thenW (open_shard env hash) (retW True))) (\<lambda>found.
    if \<not> found then retW None
    else thenW (finish_pending_chunk_repair env hash) (open_regular_chunk env hash))"

definition chunk_file_matches_identity :: "chunk_env \<Rightarrow> bytes \<Rightarrow> ChunkHash \<Rightarrow> nat \<Rightarrow> bool cs" where
  "chunk_file_matches_identity env content hash n = thenW attempt
    (if length content \<noteq> n then retW False else thenW attempt (retW (Sha256Digest (ce_sha256 env content) = hash)))"

text \<open>The repair itself: content, marker and chunk directory are durable before the rename, and the shard after it.\<close>

definition create_chunk_repair_marker :: "chunk_env \<Rightarrow> ChunkHash \<Rightarrow> unit cs" where
  "create_chunk_repair_marker env hash = look (\<lambda>d.
    if chunk_repair_marker_name env hash \<in> set (repair_markers d) then failW (ChunkIo (OtherIo ''already exists''))
    else effect (\<lambda>d. d\<lparr>repair_markers := chunk_repair_marker_name env hash # repair_markers d\<rparr>))"

definition rename_to_chunk :: "chunk_env \<Rightarrow> string \<Rightarrow> ChunkHash \<Rightarrow> unit cs" where
  "rename_to_chunk env temporary hash = look (\<lambda>d. case node_at d (shard_name env hash) temporary of
      None \<Rightarrow> failW (ChunkIo NotFound)
    | Some node \<Rightarrow> effect (\<lambda>d. drop_node (shard_name env hash) temporary
        (set_node (shard_name env hash) (chunk_name env hash) node d)))"

definition repair_chunk :: "chunk_env \<Rightarrow> string \<Rightarrow> ChunkHash \<Rightarrow> PublishOutcome cs" where
  "repair_chunk env temporary hash =
    (let sh = shard_name env hash; stripe = chunk_repair_stripe hash in
     thenW attempt (thenW (sync_file sh temporary)
     (thenW (create_chunk_repair_marker env hash)
     (thenW (record_that (\<lambda>d. d\<lparr>pending_markers := (pending_markers d)(stripe := (pending_markers d stripe + 1) mod (usize_max + 1))\<rparr>))
     (thenW attempt
     (thenW sync_chunks
     (thenW (rename_to_chunk env temporary hash)
     (thenW (sync_shard sh)
     (thenW (release_marker env hash)
       (retW PublishCreated))))))))))"

definition link_missing_chunk :: "chunk_env \<Rightarrow> string \<Rightarrow> ChunkHash \<Rightarrow> PublishOutcome cs" where
  "link_missing_chunk env temporary hash =
    bindW (link_or_compare_immutable (shard_name env hash) temporary (chunk_name env hash)) (\<lambda>linked.
      case linked of
        LinkCreated \<Rightarrow> retW PublishCreated
      | LinkIdentical \<Rightarrow> retW PublishIdentical
      | LinkCollision \<Rightarrow> failW (ChunkIo InvalidData))"

definition replace_corrupt_chunk :: "chunk_env \<Rightarrow> string \<Rightarrow> ChunkHash \<Rightarrow> nat \<Rightarrow> PublishOutcome cs" where
  "replace_corrupt_chunk env temporary hash n =
    bindW (open_chunk_while_repair_locked env hash) (\<lambda>opened.
    case opened of
      Some (content, st) \<Rightarrow> bindW (chunk_file_matches_identity env content hash n) (\<lambda>matches.
        if matches
        then bindW (look (\<lambda>d. files_equal (Some (File content st)) (node_at d (shard_name env hash) temporary))) (\<lambda>identical.
          if identical then retW PublishIdentical else failW (ChunkIo InvalidData))
        else repair_chunk env temporary hash)
    | None \<Rightarrow> link_missing_chunk env temporary hash)"

definition store_chunk :: "chunk_env \<Rightarrow> ChunkHash \<Rightarrow> bytes \<Rightarrow> PublishOutcome cs" where
  "store_chunk env hash bs =
    (let sh = shard_name env hash in
     thenW (open_or_create_shard env hash)
     (thenW (finish_pending_chunk_repair env hash)
     (bindW (temporary_name env CHUNK_TEMP_PREFIX) (\<lambda>temporary.
       with_cleanup
         (thenW (write_temporary_file sh temporary bs)
           (bindW (link_or_compare_immutable sh temporary (chunk_name env hash)) (\<lambda>linked.
             case linked of
               LinkCreated \<Rightarrow> retW PublishCreated
             | LinkIdentical \<Rightarrow> retW PublishIdentical
             | LinkCollision \<Rightarrow> replace_corrupt_chunk env temporary hash (length bs))))
         (remove_temporary_file sh temporary)))))"

end
