(* ===== verification/Chunk_Durability.thy ===== *)
theory Chunk_Durability
  imports Chunk_Store
begin

section \<open>What a crash leaves of a chunked cache\<close>

text \<open>
  A manifest that is in the directory, or was removed since the directory was last synchronized, may be on the disk after
  a crash.  The invariant of the chunk store: every chunk of such a manifest is settled (its directory entry and its content are durable),
  or its repair is pending and the marker that says so is durable.  Every operation on chunks keeps it whatever effects fail.
\<close>

subsection \<open>The invariant\<close>

definition names_ok :: "chunk_env \<Rightarrow> bool" where
  "names_ok env = (hexlower_codec (hex_encode (ce_hex env)) (hex_decode (ce_hex env))
    \<and> nix32_codec (nix32_encode (ce_encodings env)) (nix32_decode (ce_encodings env)))"

abbreviation chunk_at :: "chunk_env \<Rightarrow> ChunkDisk \<Rightarrow> ChunkHash \<Rightarrow> Node option" where
  "chunk_at env d hash \<equiv> node_at d (shard_name env hash) (chunk_name env hash)"

definition content_durable :: "chunk_env \<Rightarrow> ChunkDisk \<Rightarrow> ChunkHash \<Rightarrow> bool" where
  "content_durable env d hash = (\<exists>c st. chunk_at env d hash = Some (File c st) \<and> st \<in> durable_content d)"

definition settled :: "chunk_env \<Rightarrow> ChunkDisk \<Rightarrow> ChunkHash \<Rightarrow> bool" where
  "settled env d hash = (content_durable env d hash
    \<and> durable_entry d (shard_name env hash) (chunk_name env hash) = stamp_at d (shard_name env hash) (chunk_name env hash))"

definition in_repair :: "chunk_env \<Rightarrow> ChunkDisk \<Rightarrow> ChunkHash \<Rightarrow> bool" where
  "in_repair env d hash = (content_durable env d hash \<and> chunk_repair_marker_name env hash \<in> set (repair_markers d) \<inter> durable_markers d)"

definition accounted :: "chunk_env \<Rightarrow> ChunkDisk \<Rightarrow> ChunkHash \<Rightarrow> bool" where
  "accounted env d hash = (settled env d hash \<or> in_repair env d hash)"

definition is_manifest_name :: "chunk_env \<Rightarrow> string \<Rightarrow> bool" where
  "is_manifest_name env name = (case strip_suffix ''.manifest'' name of
      None \<Rightarrow> False
    | Some hash \<Rightarrow> (case (digest_parse (ce_encodings env) hash :: InvalidObjectId + NarHash) of Inl _ \<Rightarrow> False | Inr _ \<Rightarrow> True))"

definition possible_manifests :: "chunk_env \<Rightarrow> ChunkDisk \<Rightarrow> bytes set" where
  "possible_manifests env d = {c. \<exists>name st. map_of (manifest_dir d) name = Some (File c st) \<and> is_manifest_name env name} \<union> set (lingering d)"

definition manifest_hashes :: "chunk_env \<Rightarrow> bytes \<Rightarrow> ChunkHash set" where
  "manifest_hashes env c = (case manifest_records (ce_sha256 env) (file_of [Data c]) MAX_CHUNK_MANIFEST_BYTES of
      Inl _ \<Rightarrow> {}
    | Inr (_, ds) \<Rightarrow> descriptor_hash ` set ds)"

definition referenced :: "chunk_env \<Rightarrow> ChunkDisk \<Rightarrow> ChunkHash set" where
  "referenced env d = \<Union> (manifest_hashes env ` possible_manifests env d)"

definition stamps_ok :: "ChunkDisk \<Rightarrow> bool" where
  "stamps_ok d = ((\<forall>sh name c st. node_at d sh name = Some (File c st) \<longrightarrow> st < next_stamp d)
    \<and> durable_content d \<subseteq> {..<next_stamp d})"

definition crash_safe :: "chunk_env \<Rightarrow> ChunkDisk \<Rightarrow> bool" where
  "crash_safe env d = ((\<forall>hash \<in> referenced env d. accounted env d hash) \<and> stamps_ok d)"

subsection \<open>Names\<close>

lemma hex_name_inj:
  assumes "names_ok env"
  shows "hex_name env a = hex_name env b \<longleftrightarrow> a = b"
proof
  have H: "hexlower_codec (hex_encode (ce_hex env)) (hex_decode (ce_hex env))" using assms unfolding names_ok_def by (rule conjunct1)
  assume "hex_name env a = hex_name env b"
  then have "ascii (str_of (hex_encode (ce_hex env) a)) = ascii (str_of (hex_encode (ce_hex env) b))"
    unfolding hex_name_def by (rule arg_cong)
  then have e: "hex_encode (ce_hex env) a = hex_encode (ce_hex env) b" unfolding ascii_str_of .
  have "Some a = Some b"
    using hexlower_codec.hex_decode_encode [OF H, of a] hexlower_codec.hex_decode_encode [OF H, of b] unfolding e by (rule trans [OF sym])
  then show "a = b" by (rule option.inject [THEN iffD1])
qed (rule arg_cong)

lemma chunk_name_inj [simp]: "names_ok env \<Longrightarrow> chunk_name env a = chunk_name env b \<longleftrightarrow> a = b"
  by (cases a; cases b) (simp add: chunk_name_def hex_name_inj)

lemma marker_name_inj [simp]: "names_ok env \<Longrightarrow> chunk_repair_marker_name env a = chunk_repair_marker_name env b \<longleftrightarrow> a = b"
  by (cases a; cases b) (simp add: chunk_repair_marker_name_def hex_name_inj)

text \<open>A temporary name begins with a dot, which no hexadecimal name does.\<close>

definition temporary :: "string \<Rightarrow> bool" where
  "temporary name = (\<exists>rest. name = CHR ''.'' # rest)"

lemma chunk_name_not_temporary:
  assumes "names_ok env" and "temporary name"
  shows "chunk_name env hash \<noteq> name"
proof
  have H: "hexlower_codec (hex_encode (ce_hex env)) (hex_decode (ce_hex env))" using assms(1) unfolding names_ok_def by (rule conjunct1)
  assume "chunk_name env hash = name"
  then obtain rest where "str_of (hex_encode (ce_hex env) (digest_bytes hash)) = CHR ''.'' # rest"
    using assms(2) by (auto simp: chunk_name_def hex_name_def temporary_def)
  then have "ascii (str_of (hex_encode (ce_hex env) (digest_bytes hash))) = ascii (CHR ''.'' # rest)" by (rule arg_cong)
  then have "hex_encode (ce_hex env) (digest_bytes hash) = of_char (CHR ''.'') # ascii rest"
    unfolding ascii_str_of by (simp only: ascii_def list.map)
  then have "(of_char (CHR ''.'') :: byte) \<in> set (ascii HEX_SYMBOLS)"
    using hexlower_codec.hex_symbols [OF H, of "digest_bytes hash"] by (simp only: set_simps insert_subset)
  then show False by (simp add: HEX_SYMBOLS_def ascii_def)
qed

subsection \<open>Reading a changed disk\<close>

definition has_shard :: "ChunkDisk \<Rightarrow> string \<Rightarrow> bool" where
  "has_shard d sh = (\<exists>es. map_of (shards d) sh = Some (Some es))"

lemma on_shard_fields [simp]:
  "repair_markers (on_shard sh f d) = repair_markers d" "manifest_dir (on_shard sh f d) = manifest_dir d"
  "next_stamp (on_shard sh f d) = next_stamp d" "durable_entry (on_shard sh f d) = durable_entry d"
  "durable_content (on_shard sh f d) = durable_content d" "durable_markers (on_shard sh f d) = durable_markers d"
  "lingering (on_shard sh f d) = lingering d" "pending_markers (on_shard sh f d) = pending_markers d"
  by (simp_all add: on_shard_def split: option.split)

lemma node_at_set_node:
  "node_at (set_node sh name node d) sh' name' =
    (if sh' = sh \<and> name' = name \<and> has_shard d sh then Some node else node_at d sh' name')"
  by (auto simp: node_at_def on_shard_def has_shard_def update_conv' split: option.splits)

lemma node_at_drop_node:
  "node_at (drop_node sh name d) sh' name' = (if sh' = sh \<and> name' = name then None else node_at d sh' name')"
  by (auto simp: node_at_def on_shard_def update_conv' delete_conv' split: option.splits)

lemma has_shard_on_shard [simp]: "has_shard (on_shard sh f d) sh' = has_shard d sh'"
  by (auto simp: has_shard_def on_shard_def update_conv' split: option.splits)

lemma node_at_has_shard: "node_at d sh name = Some node \<Longrightarrow> has_shard d sh"
  by (auto simp: node_at_def has_shard_def split: option.splits)

text \<open>Updates of the other fields leave the files alone.\<close>

lemma node_at_fields [simp]:
  "node_at (d\<lparr>repair_markers := a\<rparr>) = node_at d" "node_at (d\<lparr>manifest_dir := b\<rparr>) = node_at d"
  "node_at (d\<lparr>next_stamp := n\<rparr>) = node_at d" "node_at (d\<lparr>next_temp := n\<rparr>) = node_at d"
  "node_at (d\<lparr>durable_entry := e\<rparr>) = node_at d" "node_at (d\<lparr>durable_content := c\<rparr>) = node_at d"
  "node_at (d\<lparr>durable_markers := m\<rparr>) = node_at d" "node_at (d\<lparr>lingering := l\<rparr>) = node_at d"
  "node_at (d\<lparr>pending_markers := p\<rparr>) = node_at d"
  by (simp_all add: node_at_def fun_eq_iff)

lemma stamp_at_fields [simp]:
  "stamp_at (d\<lparr>repair_markers := a\<rparr>) = stamp_at d" "stamp_at (d\<lparr>manifest_dir := b\<rparr>) = stamp_at d"
  "stamp_at (d\<lparr>next_stamp := n\<rparr>) = stamp_at d" "stamp_at (d\<lparr>next_temp := n\<rparr>) = stamp_at d"
  "stamp_at (d\<lparr>durable_entry := e\<rparr>) = stamp_at d" "stamp_at (d\<lparr>durable_content := c\<rparr>) = stamp_at d"
  "stamp_at (d\<lparr>durable_markers := m\<rparr>) = stamp_at d" "stamp_at (d\<lparr>lingering := l\<rparr>) = stamp_at d"
  "stamp_at (d\<lparr>pending_markers := p\<rparr>) = stamp_at d"
  by (simp_all add: stamp_at_def fun_eq_iff)

lemma referenced_cong: "manifest_dir d' = manifest_dir d \<Longrightarrow> lingering d' = lingering d \<Longrightarrow> referenced env d' = referenced env d"
  by (simp add: referenced_def possible_manifests_def)

lemma referenced_mono:
  "manifest_dir d' = manifest_dir d \<Longrightarrow> set (lingering d') \<subseteq> set (lingering d) \<Longrightarrow> referenced env d' \<subseteq> referenced env d"
  by (auto simp: referenced_def possible_manifests_def)

text \<open>An effect keeps the invariant if what may be referenced does not grow and what was accounted for stays so.\<close>

lemma crash_safe_step:
  assumes "crash_safe env d" and "referenced env d' \<subseteq> referenced env d"
    and "\<And>hash. hash \<in> referenced env d \<Longrightarrow> accounted env d hash \<Longrightarrow> accounted env d' hash" and "stamps_ok d \<Longrightarrow> stamps_ok d'"
  shows "crash_safe env d'"
  using assms by (auto simp: crash_safe_def)

text \<open>A chunk stays accounted for if its file is the same and no durability is lost.\<close>

lemma accounted_same:
  assumes "accounted env d hash" and "chunk_at env d' hash = chunk_at env d hash"
    and "durable_entry d' (shard_name env hash) (chunk_name env hash) = durable_entry d (shard_name env hash) (chunk_name env hash)
      \<or> durable_entry d' (shard_name env hash) (chunk_name env hash) = stamp_at d' (shard_name env hash) (chunk_name env hash)"
    and "durable_content d \<subseteq> durable_content d'"
    and "set (repair_markers d) \<inter> durable_markers d \<subseteq> set (repair_markers d') \<inter> durable_markers d'"
  shows "accounted env d' hash"
proof -
  have "stamp_at d' (shard_name env hash) (chunk_name env hash) = stamp_at d (shard_name env hash) (chunk_name env hash)"
    using assms(2) by (simp add: stamp_at_def)
  moreover have "content_durable env d hash \<Longrightarrow> content_durable env d' hash"
    using assms(2,4) by (auto simp: content_durable_def)
  ultimately show ?thesis
    using assms(1,3,5) by (auto simp: accounted_def settled_def in_repair_def)
qed

lemma accounted_content: "accounted env d hash \<Longrightarrow> content_durable env d hash"
  by (auto simp: accounted_def settled_def in_repair_def)

lemma accounted_present: "accounted env d hash \<Longrightarrow> chunk_at env d hash \<noteq> None"
  by (auto dest!: accounted_content simp: content_durable_def)

subsection \<open>Single effects\<close>

lemma crash_safe_fields [simp]:
  "crash_safe env (d\<lparr>next_temp := n\<rparr>) = crash_safe env d" "crash_safe env (d\<lparr>pending_markers := p\<rparr>) = crash_safe env d"
  by (simp_all add: crash_safe_def referenced_def possible_manifests_def accounted_def settled_def in_repair_def
      content_durable_def stamps_ok_def)

lemma stamp_at_Some: "stamp_at d sh name = Some st \<longleftrightarrow> (\<exists>c. node_at d sh name = Some (File c st))"
  by (auto simp: stamp_at_def split: option.splits Node.splits)

lemma crash_safe_more:
  assumes "crash_safe env d" and "node_at d' = node_at d" "manifest_dir d' = manifest_dir d" "set (lingering d') \<subseteq> set (lingering d)"
    and "next_stamp d' = next_stamp d" "durable_content d \<subseteq> durable_content d'"
    and "stamps_ok d \<Longrightarrow> durable_content d' \<subseteq> {..<next_stamp d}"
    and "\<And>sh name. durable_entry d' sh name = durable_entry d sh name \<or> durable_entry d' sh name = stamp_at d sh name"
    and "set (repair_markers d) \<inter> durable_markers d \<subseteq> set (repair_markers d') \<inter> durable_markers d'"
  shows "crash_safe env d'"
proof (rule crash_safe_step [OF assms(1)])
  show "referenced env d' \<subseteq> referenced env d" using assms(3,4) by (rule referenced_mono)
  show "accounted env d' hash" if "accounted env d hash" for hash
    using that by (rule accounted_same)
      (use assms(2,6,9) assms(8) [of "shard_name env hash" "chunk_name env hash"] in \<open>auto simp: stamp_at_def\<close>)
qed (use assms(2,5,7) in \<open>auto simp: stamps_ok_def\<close>)

lemma sync_shard_safe:
  "crash_safe env d \<Longrightarrow> crash_safe env (d\<lparr>durable_entry := (durable_entry d)(sh := stamp_at d sh)\<rparr>)"
  by (erule crash_safe_more) (auto simp: stamps_ok_def)

lemma sync_chunks_safe: "crash_safe env d \<Longrightarrow> crash_safe env (d\<lparr>durable_markers := set (repair_markers d)\<rparr>)"
  by (erule crash_safe_more) (auto simp: stamps_ok_def)

lemma sync_file_safe:
  assumes "crash_safe env d" and "node_at d sh name = Some (File c st)"
  shows "crash_safe env (d\<lparr>durable_content := insert st (durable_content d)\<rparr>)"
  by (rule crash_safe_more [OF assms(1)]) (use assms(2) in \<open>auto simp: stamps_ok_def\<close>)

lemma add_marker_safe: "crash_safe env d \<Longrightarrow> crash_safe env (d\<lparr>repair_markers := marker # repair_markers d\<rparr>)"
  by (erule crash_safe_more) (auto simp: stamps_ok_def)

lemma drop_marker_safe:
  assumes "names_ok env" and "crash_safe env d" and "durable_entry d (shard_name env hash) = stamp_at d (shard_name env hash)"
  shows "crash_safe env (d\<lparr>repair_markers := removeAll (chunk_repair_marker_name env hash) (repair_markers d)\<rparr>)"
proof (rule crash_safe_step [OF assms(2)])
  fix h assume "accounted env d h"
  then show "accounted env (d\<lparr>repair_markers := removeAll (chunk_repair_marker_name env hash) (repair_markers d)\<rparr>) h"
    using assms(1,3) accounted_content [of env d h]
    by (cases "h = hash") (auto simp: accounted_def settled_def in_repair_def content_durable_def)
qed (auto simp: referenced_def possible_manifests_def stamps_ok_def)

text \<open>Files under temporary names are not chunks.\<close>

lemma temporary_node_safe:
  assumes "names_ok env" and "crash_safe env d" and "temporary name" and "\<And>c st. node = File c st \<Longrightarrow> st < n" and "next_stamp d \<le> n"
  shows "crash_safe env ((set_node sh name node d)\<lparr>next_stamp := n\<rparr>)"
proof (rule crash_safe_step [OF assms(2)])
  fix h assume "accounted env d h"
  then show "accounted env ((set_node sh name node d)\<lparr>next_stamp := n\<rparr>) h"
    by (rule accounted_same) (use chunk_name_not_temporary [OF assms(1,3)] in \<open>auto simp: node_at_set_node\<close>)
next
  assume "stamps_ok d"
  then show "stamps_ok ((set_node sh name node d)\<lparr>next_stamp := n\<rparr>)"
    using assms(4,5) by (auto simp: stamps_ok_def node_at_set_node split: if_splits) (meson less_le_trans)+
qed (auto simp: referenced_def possible_manifests_def)

lemma drop_temporary_safe:
  assumes "names_ok env" and "crash_safe env d" and "temporary name"
  shows "crash_safe env (drop_node sh name d)"
proof (rule crash_safe_step [OF assms(2)])
  fix h assume "accounted env d h"
  then show "accounted env (drop_node sh name d) h"
    by (rule accounted_same) (use chunk_name_not_temporary [OF assms(1,3)] in \<open>auto simp: node_at_drop_node\<close>)
qed (auto simp: referenced_def possible_manifests_def stamps_ok_def node_at_drop_node split: if_splits)

lemma link_chunk_safe:
  assumes "names_ok env" and "crash_safe env d" and "chunk_at env d hash = None" and "node_at d sh name = Some node"
  shows "crash_safe env (set_node (shard_name env hash) (chunk_name env hash) node d)"
proof (rule crash_safe_step [OF assms(2)])
  fix h assume h: "accounted env d h"
  then have "h \<noteq> hash" using assms(3) accounted_present [OF h] by auto
  with h show "accounted env (set_node (shard_name env hash) (chunk_name env hash) node d) h"
    by (elim accounted_same) (use assms(1) in \<open>auto simp: node_at_set_node\<close>)
qed (use assms(4) in \<open>auto simp: referenced_def possible_manifests_def stamps_ok_def node_at_set_node split: if_splits\<close>)

lemma rename_chunk_safe:
  assumes "names_ok env" and "crash_safe env d" and "temporary name"
    and "node_at d (shard_name env hash) name = Some (File c st)" and "st \<in> durable_content d"
    and "chunk_repair_marker_name env hash \<in> set (repair_markers d) \<inter> durable_markers d"
  shows "crash_safe env (drop_node (shard_name env hash) name (set_node (shard_name env hash) (chunk_name env hash) (File c st) d))"
    (is "crash_safe env ?d")
proof (rule crash_safe_step [OF assms(2)])
  fix h assume h: "accounted env d h"
  have n: "chunk_name env x \<noteq> name" for x using assms by (intro chunk_name_not_temporary)
  have s: "has_shard d (shard_name env hash)" using assms(4) by (rule node_at_has_shard)
  show "accounted env ?d h"
  proof (cases "h = hash")
    case True
    then show ?thesis using n s assms(5,6)
      by (auto simp: accounted_def in_repair_def content_durable_def node_at_drop_node node_at_set_node)
  next
    case False
    then show ?thesis using h assms(1) n
      by (elim accounted_same) (auto simp: node_at_drop_node node_at_set_node)
  qed
qed (use assms(4) in \<open>auto simp: referenced_def possible_manifests_def stamps_ok_def node_at_set_node node_at_drop_node split: if_splits\<close>)

subsection \<open>Operations on chunks\<close>

text \<open>The chunks in \<open>K\<close> have the given contents; the temporary file of an operation is in place.\<close>

definition kept :: "chunk_env \<Rightarrow> (ChunkHash \<times> bytes) set \<Rightarrow> (string \<Rightarrow> string \<Rightarrow> Node option) \<Rightarrow> bool" where
  "kept env K f = (\<forall>hash bs. (hash, bs) \<in> K \<longrightarrow> (\<exists>st. f (shard_name env hash) (chunk_name env hash) = Some (File bs st)))"

definition staged :: "string \<Rightarrow> string \<Rightarrow> bytes \<Rightarrow> (string \<Rightarrow> string \<Rightarrow> Node option) \<Rightarrow> bool" where
  "staged sh name bs f = (\<exists>st. f sh name = Some (File bs st))"

abbreviation files :: "((string \<Rightarrow> string \<Rightarrow> Node option) \<Rightarrow> bool) \<Rightarrow> ChunkDisk \<Rightarrow> bool" where
  "files R \<equiv> \<lambda>d. R (node_at d)"

lemma attempt_rule: "hoare C P attempt (\<lambda>_. P)"
  by (rule hoare_act) auto

lemma hoare_if_missing:
  assumes "hoare C P m R" and "\<And>r s. C s \<Longrightarrow> R r s \<Longrightarrow> Q r s" and "\<And>s. C s \<Longrightarrow> R (Err (ChunkIo NotFound)) s \<Longrightarrow> Q (Ok x) s"
  shows "hoare C P (if_missing x m) Q"
  unfolding if_missing_def
  by (rule hoare_recover [OF assms(1)]) (use assms(2,3) in \<open>simp_all split: if_splits\<close>)

lemma sync_shard_rule:
  "hoare (crash_safe env) (files R) (sync_shard sh) (\<lambda>r d. files R d \<and> (r = Ok () \<longrightarrow> durable_entry d sh = stamp_at d sh))"
  unfolding sync_shard_def by (rule hoare_act) (auto simp: sync_shard_safe)

lemma sync_chunks_rule:
  "(\<And>d m. P d \<Longrightarrow> P (d\<lparr>durable_markers := m\<rparr>)) \<Longrightarrow>
   hoare (crash_safe env) P sync_chunks (\<lambda>r d. P d \<and> (r = Ok () \<longrightarrow> durable_markers d = set (repair_markers d)))"
  unfolding sync_chunks_def by (rule hoare_act) (auto simp: sync_chunks_safe)

lemma drop_marker_rule:
  assumes "names_ok env"
  shows "hoare (crash_safe env) (\<lambda>d. files R d \<and> durable_entry d (shard_name env hash) = stamp_at d (shard_name env hash))
    (effect (\<lambda>d. d\<lparr>repair_markers := removeAll (chunk_repair_marker_name env hash) (repair_markers d)\<rparr>)) (\<lambda>_. files R)"
  by (rule hoare_act) (auto simp: drop_marker_safe [OF assms])

lemma record_pending_rule: "hoare (crash_safe env) (files R) (record_that (\<lambda>d. d\<lparr>pending_markers := g d\<rparr>)) (\<lambda>_. files R)"
  by (rule hoare_record_that) simp

lemma settle_repair_rule:
  assumes "names_ok env"
  shows "hoare (crash_safe env) (files R) (thenW (sync_shard (shard_name env hash)) (release_marker env hash)) (\<lambda>_. files R)"
proof -
  have "hoare (crash_safe env) (files R) sync_chunks (\<lambda>_. files R)"
    by (rule hoare_conseq [OF sync_chunks_rule [where P = "files R"]]) simp_all
  note counted = hoare_keep [OF record_pending_rule this]
  have "hoare (crash_safe env) (\<lambda>d. files R d \<and> durable_entry d (shard_name env hash) = stamp_at d (shard_name env hash))
      (release_marker env hash) (\<lambda>_. files R)"
    unfolding release_marker_def Let_def
    by (rule hoare_then [OF drop_marker_rule [OF assms]], assumption, rule counted)
  then show ?thesis
    by (intro hoare_then [OF sync_shard_rule [where R = R]]) simp_all
qed

lemma marker_present_rule:
  "hoare C P (if_missing False (thenW attempt (look (\<lambda>d.
    if marker \<in> set (repair_markers d) then retW True else failW (ChunkIo NotFound))))) (\<lambda>_. P)"
  by (rule hoare_if_missing [where R = "\<lambda>_. P"], rule hoare_keep [OF attempt_rule], rule hoare_look, rule hoare_if)
    (rule hoare_ret hoare_fail; simp | simp)+

lemma finish_pending_rule:
  assumes "names_ok env"
  shows "hoare (crash_safe env) (files R) (finish_pending_chunk_repair env hash) (\<lambda>_. files R)"
  unfolding finish_pending_chunk_repair_def
  by (rule hoare_keep_bind [OF marker_present_rule]) (intro hoare_if hoare_ret settle_repair_rule [OF assms])

lemma open_regular_chunk_rule:
  "hoare C (files R) (open_regular_chunk env hash)
    (\<lambda>r d. files R d \<and> (\<forall>c st. r = Ok (Some (c, st)) \<longrightarrow> chunk_at env d hash = Some (File c st)))"
  unfolding open_regular_chunk_def
proof (rule hoare_if_missing, rule hoare_keep [OF attempt_rule], rule hoare_look, rule hoare_option)
  fix t node assume "chunk_at env t hash = Some node"
  then show "hoare C (\<lambda>d. files R d \<and> d = t)
      (case node of File c st \<Rightarrow> retW (Some (c, st)) | NotRegular \<Rightarrow> failW (ChunkIo InvalidData))
      (\<lambda>r d. files R d \<and> (\<forall>c st. r = Ok (Some (c, st)) \<longrightarrow> chunk_at env d hash = Some (File c st)))"
    by (cases node) (auto intro!: hoare_ret hoare_fail)
qed (auto intro!: hoare_fail)

lemma open_shard_rule: "hoare C P (open_shard env hash) (\<lambda>_. P)"
  unfolding open_shard_def
proof (rule hoare_keep [OF attempt_rule], rule hoare_look, rule hoare_option)
  fix t x
  show "hoare C (\<lambda>d. P d \<and> d = t) (case x of None \<Rightarrow> failW (ChunkIo InvalidData) | Some _ \<Rightarrow> retW ()) (\<lambda>_. P)"
    by (rule hoare_option) (rule hoare_fail hoare_ret, simp)+
qed (rule hoare_fail | simp)+

lemma found_shard_rule: "hoare C P (if_missing False (thenW (open_shard env hash) (retW True))) (\<lambda>_. P)"
  by (rule hoare_if_missing [where R = "\<lambda>_. P"], rule hoare_keep [OF open_shard_rule]) (rule hoare_ret | simp)+

lemma open_locked_rule:
  assumes "names_ok env"
  shows "hoare (crash_safe env) (files R) (open_chunk_while_repair_locked env hash)
    (\<lambda>r d. files R d \<and> (\<forall>c st. r = Ok (Some (c, st)) \<longrightarrow> chunk_at env d hash = Some (File c st)))"
  unfolding open_chunk_while_repair_locked_def
proof (rule hoare_keep_bind [OF found_shard_rule], rule hoare_if)
  show "hoare (crash_safe env) (files R) (thenW (finish_pending_chunk_repair env hash) (open_regular_chunk env hash))
      (\<lambda>r d. files R d \<and> (\<forall>c st. r = Ok (Some (c, st)) \<longrightarrow> chunk_at env d hash = Some (File c st)))"
    by (rule hoare_keep [OF finish_pending_rule [OF assms] open_regular_chunk_rule]) simp
qed (rule hoare_ret | simp)+

lemma files_equal_rule:
  "hoare C P (files_equal (Some (File c st)) other)
    (\<lambda>r d. P d \<and> (r = Ok True \<longrightarrow> (\<exists>st'. other = Some (File c st'))))"
  unfolding files_equal_def option.case Node.case
proof (rule hoare_keep [OF attempt_rule], rule hoare_option)
  fix node assume "other = Some node"
  then show "hoare C P (case node of File c' _ \<Rightarrow> retW (c = c') | NotRegular \<Rightarrow> failW (ChunkIo InvalidData))
      (\<lambda>r d. P d \<and> (r = Ok True \<longrightarrow> (\<exists>st'. other = Some (File c st'))))"
    by (cases node) (auto intro!: hoare_ret hoare_fail)
qed (auto intro!: hoare_fail)

text \<open>The temporary file holds the bytes of the chunk, and the chunks in \<open>K\<close> are there.\<close>

definition in_place :: "chunk_env \<Rightarrow> (ChunkHash \<times> bytes) set \<Rightarrow> ChunkHash \<Rightarrow> string \<Rightarrow> bytes \<Rightarrow> (string \<Rightarrow> string \<Rightarrow> Node option) \<Rightarrow> bool" where
  "in_place env K hash name bs f = (kept env K f \<and> staged (shard_name env hash) name bs f)"

lemma kept_set_node:
  assumes "names_ok env" and "\<And>bs'. (hash, bs') \<in> K \<Longrightarrow> bs' = bs" and "has_shard d (shard_name env hash)" and "kept env K (node_at d)"
  shows "kept env (insert (hash, bs) K) (node_at (set_node (shard_name env hash) (chunk_name env hash) (File bs st) d))"
  using assms unfolding kept_def by (auto simp: node_at_set_node)

lemma kept_drop_temporary:
  assumes "names_ok env" and "temporary name" and "kept env K (node_at d)"
  shows "kept env K (node_at (drop_node sh name d))"
  using assms chunk_name_not_temporary [OF assms(1,2)] unfolding kept_def by (auto simp: node_at_drop_node)

lemma kept_set_temporary:
  assumes "names_ok env" and "temporary name" and "kept env K (node_at d)"
  shows "kept env K (node_at (set_node sh name node d))"
  using assms chunk_name_not_temporary [OF assms(1,2)] unfolding kept_def by (auto simp: node_at_set_node)

lemma kept_subset: "kept env K' f \<Longrightarrow> K \<subseteq> K' \<Longrightarrow> kept env K f"
  unfolding kept_def by blast

lemma link_rule:
  assumes "names_ok env" and "temporary name" and "\<And>bs'. (hash, bs') \<in> K \<Longrightarrow> bs' = bs"
  shows "hoare (crash_safe env) (files (in_place env K hash name bs))
    (link_or_compare_immutable (shard_name env hash) name (chunk_name env hash))
    (\<lambda>r d. files (in_place env K hash name bs) d
      \<and> (\<forall>x. r = Ok x \<and> x \<noteq> LinkCollision \<longrightarrow> kept env (insert (hash, bs) K) (node_at d)))"
    (is "hoare _ _ _ ?Q")
  unfolding link_or_compare_immutable_def
proof (rule hoare_look, rule hoare_option)
  fix t assume none: "node_at t (shard_name env hash) (chunk_name env hash) = None"
  show "hoare (crash_safe env) (\<lambda>d. files (in_place env K hash name bs) d \<and> d = t)
      (case node_at t (shard_name env hash) name of None \<Rightarrow> failW (ChunkIo NotFound)
       | Some node \<Rightarrow> thenW (effect (set_node (shard_name env hash) (chunk_name env hash) node)) (retW LinkCreated)) ?Q"
  proof (rule hoare_option)
    fix node assume node: "node_at t (shard_name env hash) name = Some node"
    let ?t = "set_node (shard_name env hash) (chunk_name env hash) node t"
    let ?R = "\<lambda>r d. files (in_place env K hash name bs) d \<and> (r = Ok () \<longrightarrow> kept env (insert (hash, bs) K) (node_at d))"
    have linked: "files (in_place env K hash name bs) ?t \<and> kept env (insert (hash, bs) K) (node_at ?t)"
      if t: "files (in_place env K hash name bs) t"
    proof -
      obtain st where st: "node = File bs st" using t node by (auto simp: in_place_def staged_def)
      have "has_shard t (shard_name env hash)" using node by (rule node_at_has_shard)
      with t have k: "kept env (insert (hash, bs) K) (node_at ?t)"
        unfolding st by (intro kept_set_node assms) (simp_all add: in_place_def)
      moreover have "staged (shard_name env hash) name bs (node_at ?t)"
        using node chunk_name_not_temporary [OF assms(1,2), of hash] by (simp add: staged_def node_at_set_node st)
      ultimately show ?thesis unfolding in_place_def by (blast intro: kept_subset)
    qed
    have "hoare (crash_safe env) (\<lambda>d. files (in_place env K hash name bs) d \<and> d = t)
        (effect (set_node (shard_name env hash) (chunk_name env hash) node)) ?R"
      by (rule hoare_act) (use linked none node link_chunk_safe [OF assms(1)] in auto)
    then show "hoare (crash_safe env) (\<lambda>d. files (in_place env K hash name bs) d \<and> d = t)
        (thenW (effect (set_node (shard_name env hash) (chunk_name env hash) node)) (retW LinkCreated)) ?Q"
      by (rule hoare_then) (auto intro: hoare_ret)
  qed (auto intro: hoare_fail)
next
  fix t node assume node: "node_at t (shard_name env hash) (chunk_name env hash) = Some node"
  show "hoare (crash_safe env) (\<lambda>d. files (in_place env K hash name bs) d \<and> d = t)
      (bindW (files_equal (node_at t (shard_name env hash) name) (Some node)) (\<lambda>equal.
        retW (if equal then LinkIdentical else LinkCollision))) ?Q"
  proof (cases "\<exists>st. node_at t (shard_name env hash) name = Some (File bs st)")
    case True
    then obtain st where st: "node_at t (shard_name env hash) name = Some (File bs st)" by blast
    show ?thesis
      unfolding st
      by (rule hoare_bind [OF files_equal_rule])
        (use node in \<open>auto intro!: hoare_ret simp: in_place_def kept_def split: if_splits\<close>)
  qed (auto simp: hoare_def in_place_def staged_def)
qed

text \<open>The states on the way to a repaired chunk: the new content is durable, then the marker is there, then it is durable too.\<close>

definition synced_copy :: "chunk_env \<Rightarrow> (ChunkHash \<times> bytes) set \<Rightarrow> ChunkHash \<Rightarrow> string \<Rightarrow> bytes \<Rightarrow> ChunkDisk \<Rightarrow> bool" where
  "synced_copy env K hash name bs d = (kept env K (node_at d)
    \<and> (\<exists>st. node_at d (shard_name env hash) name = Some (File bs st) \<and> st \<in> durable_content d))"

definition announced :: "chunk_env \<Rightarrow> (ChunkHash \<times> bytes) set \<Rightarrow> ChunkHash \<Rightarrow> string \<Rightarrow> bytes \<Rightarrow> ChunkDisk \<Rightarrow> bool" where
  "announced env K hash name bs d = (synced_copy env K hash name bs d \<and> chunk_repair_marker_name env hash \<in> set (repair_markers d))"

lemma sync_copy_rule:
  "hoare (crash_safe env) (files (in_place env K hash name bs)) (sync_file (shard_name env hash) name)
    (\<lambda>r d. files (kept env K) d \<and> (r = Ok () \<longrightarrow> synced_copy env K hash name bs d))"
  unfolding sync_file_def
  by (rule hoare_act)
    (auto simp: in_place_def staged_def synced_copy_def stamp_at_def intro: sync_file_safe)

lemma announce_rule:
  "hoare (crash_safe env) (synced_copy env K hash name bs) (create_chunk_repair_marker env hash)
    (\<lambda>r d. files (kept env K) d \<and> (r = Ok () \<longrightarrow> announced env K hash name bs d))"
  unfolding create_chunk_repair_marker_def
  by (rule hoare_look, rule hoare_if, rule hoare_fail, simp add: synced_copy_def, rule hoare_act)
    (auto simp: synced_copy_def announced_def add_marker_safe)

lemma rename_rule:
  assumes "names_ok env" and "temporary name" and "\<And>bs'. (hash, bs') \<in> K \<Longrightarrow> bs' = bs"
  shows "hoare (crash_safe env) (\<lambda>d. announced env K hash name bs d \<and> durable_markers d = set (repair_markers d))
    (rename_to_chunk env name hash)
    (\<lambda>r d. files (kept env K) d \<and> (r = Ok () \<longrightarrow> files (kept env (insert (hash, bs) K)) d))"
    (is "hoare _ ?P _ ?Q")
  unfolding rename_to_chunk_def
proof (rule hoare_look, rule hoare_option)
  fix t node assume node: "node_at t (shard_name env hash) name = Some node"
  let ?f = "\<lambda>d. drop_node (shard_name env hash) name (set_node (shard_name env hash) (chunk_name env hash) node d)"
  have after: "crash_safe env (?f t) \<and> files (kept env (insert (hash, bs) K)) (?f t)"
    if t: "crash_safe env t" "?P t"
  proof -
    obtain st where st: "node = File bs st" "st \<in> durable_content t"
      using t(2) node by (auto simp: announced_def synced_copy_def)
    have m: "chunk_repair_marker_name env hash \<in> set (repair_markers t) \<inter> durable_markers t"
      using t(2) by (auto simp: announced_def)
    have "has_shard t (shard_name env hash)" using node by (rule node_at_has_shard)
    then have "kept env (insert (hash, bs) K) (node_at (set_node (shard_name env hash) (chunk_name env hash) node t))"
      unfolding st using t(2) by (intro kept_set_node assms) (simp_all add: announced_def synced_copy_def)
    then have "files (kept env (insert (hash, bs) K)) (?f t)" by (rule kept_drop_temporary [OF assms(1,2)])
    moreover have "crash_safe env (?f t)"
      unfolding st(1) using node st(2) m by (intro rename_chunk_safe [OF assms(1) t(1) assms(2)]) (simp_all add: st(1))
    ultimately show ?thesis by blast
  qed
  show "hoare (crash_safe env) (\<lambda>d. ?P d \<and> d = t) (effect ?f) ?Q"
    by (rule hoare_act) (use after in \<open>auto simp: announced_def synced_copy_def intro: kept_subset\<close>)
qed (rule hoare_fail, simp add: announced_def synced_copy_def)

text \<open>Replacing a corrupt chunk, and storing a chunk: the bytes are there afterwards, and the invariant holds throughout.\<close>

definition stored :: "chunk_env \<Rightarrow> (ChunkHash \<times> bytes) set \<Rightarrow> ChunkHash \<Rightarrow> bytes \<Rightarrow> ChunkStoreError + PublishOutcome \<Rightarrow> ChunkDisk \<Rightarrow> bool" where
  "stored env K hash bs r d = (kept env K (node_at d) \<and> (\<forall>x. r = Ok x \<longrightarrow> kept env (insert (hash, bs) K) (node_at d)))"

lemma matches_rule: "hoare C P (chunk_file_matches_identity env content hash n) (\<lambda>_. P)"
  unfolding chunk_file_matches_identity_def
  by (intro hoare_keep [OF attempt_rule] hoare_if hoare_ret)

lemma compare_copy_rule:
  "hoare C (files (\<lambda>f. in_place env K hash name bs f \<and> f (shard_name env hash) (chunk_name env hash) = Some (File content st)))
    (bindW (look (\<lambda>d. files_equal (Some (File content st)) (node_at d (shard_name env hash) name))) (\<lambda>identical.
      if identical then retW PublishIdentical else failW (ChunkIo InvalidData))) (stored env K hash bs)"
    (is "hoare C ?P (bindW ?look ?f) ?Q")
proof -
  have "hoare C ?P ?look (\<lambda>r d. ?P d \<and> (r = Ok True \<longrightarrow> (\<exists>st'. node_at d (shard_name env hash) name = Some (File content st'))))"
  proof (rule hoare_look)
    fix t
    show "hoare C (\<lambda>d. ?P d \<and> d = t) (files_equal (Some (File content st)) (node_at t (shard_name env hash) name))
        (\<lambda>r d. ?P d \<and> (r = Ok True \<longrightarrow> (\<exists>st'. node_at d (shard_name env hash) name = Some (File content st'))))"
      by (rule hoare_conseq [OF files_equal_rule [where P = "\<lambda>d. ?P d \<and> d = t"]]) auto
  qed
  then show ?thesis
    by (rule hoare_bind)
      (auto simp: stored_def in_place_def staged_def kept_def intro!: hoare_if hoare_ret hoare_fail)
qed

lemma repair_rule:
  assumes "names_ok env" and "temporary name" and "\<And>bs'. (hash, bs') \<in> K \<Longrightarrow> bs' = bs"
  shows "hoare (crash_safe env) (files (in_place env K hash name bs)) (repair_chunk env name hash) (stored env K hash bs)"
    (is "hoare _ _ _ ?Q")
  unfolding repair_chunk_def Let_def
proof (rule hoare_keep [OF attempt_rule], rule hoare_then [OF sync_copy_rule])
  let ?A = "announced env K hash name bs" and ?K = "files (kept env (insert (hash, bs) K))"
  have e: "?Q (Err x) d" if "files (kept env K) d" for x d using that by (simp add: stored_def)
  have a: "?Q (Err x) d" if "?A d" for x d using that by (simp add: announced_def synced_copy_def e)
  have k: "?Q r d" if "?K d" for r d using that by (auto simp: stored_def intro: kept_subset)
  have settle: "hoare (crash_safe env) ?K
      (thenW (sync_shard (shard_name env hash)) (thenW (release_marker env hash) (retW PublishCreated))) ?Q"
    using hoare_keep [OF settle_repair_rule [OF assms(1)] hoare_ret, of "kept env (insert (hash, bs) K)" ?Q PublishCreated hash] k
    by (simp add: thenW_assoc)
  have renamed: "hoare (crash_safe env) (\<lambda>d. ?A d \<and> durable_markers d = set (repair_markers d))
      (thenW (rename_to_chunk env name hash)
        (thenW (sync_shard (shard_name env hash)) (thenW (release_marker env hash) (retW PublishCreated)))) ?Q"
    by (rule hoare_then [OF rename_rule], use assms e in auto) (rule hoare_conseq [OF settle], auto)
  have synced: "hoare (crash_safe env) ?A sync_chunks (\<lambda>r d. ?A d \<and> (r = Ok () \<longrightarrow> durable_markers d = set (repair_markers d)))"
    by (rule sync_chunks_rule) (simp add: announced_def synced_copy_def)
  have "hoare (crash_safe env) ?A (thenW sync_chunks (thenW (rename_to_chunk env name hash)
      (thenW (sync_shard (shard_name env hash)) (thenW (release_marker env hash) (retW PublishCreated))))) ?Q"
    by (rule hoare_then [OF synced], simp add: a, rule hoare_conseq [OF renamed]) simp_all
  note tried = hoare_keep [OF attempt_rule this a]
  have counted: "hoare (crash_safe env) ?A (record_that (\<lambda>d. d\<lparr>pending_markers := g d\<rparr>)) (\<lambda>_. ?A)" for g
    by (rule hoare_record_that) (simp add: announced_def synced_copy_def)
  have marked: "hoare (crash_safe env) (synced_copy env K hash name bs) (thenW (create_chunk_repair_marker env hash)
      (thenW (record_that (\<lambda>d. d\<lparr>pending_markers := g d\<rparr>))
      (thenW attempt (thenW sync_chunks (thenW (rename_to_chunk env name hash)
        (thenW (sync_shard (shard_name env hash)) (thenW (release_marker env hash) (retW PublishCreated)))))))) ?Q" for g
    by (rule hoare_then [OF announce_rule], simp add: e, rule hoare_conseq [OF hoare_keep [OF counted tried a]]) simp_all
  show "hoare (crash_safe env) (\<lambda>d. files (kept env K) d \<and> ((Ok () :: ChunkStoreError + unit) = Ok () \<longrightarrow> synced_copy env K hash name bs d))
      (thenW (create_chunk_repair_marker env hash)
      (thenW (record_that (\<lambda>d. d\<lparr>pending_markers := (pending_markers d)
          (chunk_repair_stripe hash := (pending_markers d (chunk_repair_stripe hash) + 1) mod (usize_max + 1))\<rparr>))
      (thenW attempt (thenW sync_chunks (thenW (rename_to_chunk env name hash)
        (thenW (sync_shard (shard_name env hash)) (thenW (release_marker env hash) (retW PublishCreated)))))))) ?Q"
    by (rule hoare_conseq [OF marked]) simp_all
qed (auto simp: in_place_def stored_def)

lemma link_missing_rule:
  assumes "names_ok env" and "temporary name" and "\<And>bs'. (hash, bs') \<in> K \<Longrightarrow> bs' = bs"
  shows "hoare (crash_safe env) (files (in_place env K hash name bs)) (link_missing_chunk env name hash) (stored env K hash bs)"
  unfolding link_missing_chunk_def
proof (rule hoare_bind [OF link_rule])
  fix linked
  show "hoare (crash_safe env) (\<lambda>d. files (in_place env K hash name bs) d
      \<and> (\<forall>x. (Ok linked :: ChunkStoreError + _) = Ok x \<and> x \<noteq> LinkCollision \<longrightarrow> kept env (insert (hash, bs) K) (node_at d)))
      (case linked of LinkCreated \<Rightarrow> retW PublishCreated | LinkIdentical \<Rightarrow> retW PublishIdentical
       | LinkCollision \<Rightarrow> failW (ChunkIo InvalidData)) (stored env K hash bs)"
    by (cases linked) (auto simp: stored_def in_place_def intro!: hoare_ret hoare_fail)
qed (use assms in \<open>auto simp: stored_def in_place_def\<close>)

lemma replace_rule:
  assumes "names_ok env" and "temporary name" and "\<And>bs'. (hash, bs') \<in> K \<Longrightarrow> bs' = bs"
  shows "hoare (crash_safe env) (files (in_place env K hash name bs)) (replace_corrupt_chunk env name hash n) (stored env K hash bs)"
  unfolding replace_corrupt_chunk_def
proof (rule hoare_bind [OF open_locked_rule [OF assms(1)]])
  fix opened :: "(bytes \<times> nat) option"
  let ?opened = "\<lambda>d. files (in_place env K hash name bs) d
    \<and> (\<forall>c st. (Ok opened :: ChunkStoreError + _) = Ok (Some (c, st)) \<longrightarrow> chunk_at env d hash = Some (File c st))"
  have repair: "hoare (crash_safe env) ?opened (repair_chunk env name hash) (stored env K hash bs)"
    by (rule hoare_conseq [OF repair_rule]) (use assms in auto)
  have "hoare (crash_safe env) ?opened (link_missing_chunk env name hash) (stored env K hash bs)"
    by (rule hoare_conseq [OF link_missing_rule]) (use assms in auto)
  moreover have "hoare (crash_safe env) ?opened (bindW (chunk_file_matches_identity env content hash n) (\<lambda>matches.
      if matches
      then bindW (look (\<lambda>d. files_equal (Some (File content st)) (node_at d (shard_name env hash) name))) (\<lambda>identical.
        if identical then retW PublishIdentical else failW (ChunkIo InvalidData))
      else repair_chunk env name hash)) (stored env K hash bs)" if "opened = Some (content, st)" for content st
    by (rule hoare_keep_bind [OF matches_rule], rule hoare_if [OF hoare_conseq [OF compare_copy_rule [of _ env K hash name bs]] repair])
      (use that in \<open>auto simp: in_place_def stored_def\<close>)
  ultimately show "hoare (crash_safe env) ?opened
      (case opened of None \<Rightarrow> link_missing_chunk env name hash
       | Some (content, st) \<Rightarrow> bindW (chunk_file_matches_identity env content hash n) (\<lambda>matches.
          if matches
          then bindW (look (\<lambda>d. files_equal (Some (File content st)) (node_at d (shard_name env hash) name))) (\<lambda>identical.
            if identical then retW PublishIdentical else failW (ChunkIo InvalidData))
          else repair_chunk env name hash)) (stored env K hash bs)"
    by (cases opened) auto
qed (simp add: in_place_def stored_def)

subsection \<open>Storing a chunk\<close>

lemma open_or_create_shard_rule: "hoare (crash_safe env) (files R) (open_or_create_shard env hash) (\<lambda>_. files R)"
  unfolding open_or_create_shard_def
proof (rule hoare_look, rule hoare_option)
  fix t :: ChunkDisk assume none: "map_of (shards t) (shard_name env hash) = None"
  let ?f = "\<lambda>d. d\<lparr>shards := AList.update (shard_name env hash) (Some []) (shards d)\<rparr>"
  have n: "node_at (?f t) = node_at t"
    using none by (auto simp: node_at_def fun_eq_iff update_conv' split: option.splits)
  have "crash_safe env t \<Longrightarrow> crash_safe env (?f t)"
    by (erule crash_safe_more) (use n in \<open>auto simp: stamps_ok_def\<close>)
  then have "hoare (crash_safe env) (\<lambda>d. files R d \<and> d = t) (effect ?f) (\<lambda>_. files R)"
    by (intro hoare_act) (use n in auto)
  then show "hoare (crash_safe env) (\<lambda>d. files R d \<and> d = t) (thenW (effect ?f) attempt) (\<lambda>_. files R)"
    by (rule hoare_then) (auto intro: attempt_rule)
next
  fix t x
  have "hoare (crash_safe env) (\<lambda>d. files R d \<and> d = t) attempt (\<lambda>_. files R)"
    by (rule hoare_conseq [OF attempt_rule [where P = "files R"]]) simp_all
  then show "hoare (crash_safe env) (\<lambda>d. files R d \<and> d = t) (case x of None \<Rightarrow> failW (ChunkIo InvalidData) | Some _ \<Rightarrow> attempt) (\<lambda>_. files R)"
    by (cases x) (auto intro: hoare_fail)
qed

lemma temporary_name_rule:
  "hoare (crash_safe env') (files R) (temporary_name env prefix) (\<lambda>r d. files R d \<and> (\<forall>name. r = Ok name \<longrightarrow> temporary name))"
  unfolding temporary_name_def
proof (rule hoare_look)
  fix t
  have "hoare (crash_safe env') (\<lambda>d. files R d \<and> d = t) (record_that (\<lambda>d. d\<lparr>next_temp := (next_temp d + 1) mod (u64_max + 1)\<rparr>)) (\<lambda>_. files R)"
    by (rule hoare_record_that) simp
  then show "hoare (crash_safe env') (\<lambda>d. files R d \<and> d = t) (thenW (record_that (\<lambda>d. d\<lparr>next_temp := (next_temp d + 1) mod (u64_max + 1)\<rparr>))
      (retW (''.'' @ prefix @ ''-'' @ u64_to_string (ce_process env) @ ''-'' @ u64_to_string (next_temp t))))
      (\<lambda>r d. files R d \<and> (\<forall>name. r = Ok name \<longrightarrow> temporary name))"
    by (rule hoare_then) (auto simp: temporary_def intro: hoare_ret)
qed

text \<open>Writing the temporary file: it is created empty, then filled.\<close>

lemma create_temporary_rule:
  assumes "names_ok env" and "temporary name" and "has_shard t (shard_name env hash)"
  shows "hoare (crash_safe env) (\<lambda>d. files (kept env K) d \<and> d = t)
    (effect (\<lambda>d. (set_node (shard_name env hash) name (File [] (next_stamp d)) d)\<lparr>next_stamp := next_stamp d + 1\<rparr>))
    (\<lambda>r d. files (kept env K) d \<and> (r = Ok () \<longrightarrow> files (in_place env K hash name []) d))"
    (is "hoare _ _ (effect ?create) ?Q")
proof (rule hoare_act)
  fix d assume d: "crash_safe env d" "files (kept env K) d \<and> d = t"
  show "crash_safe env (?create d)"
    by (rule temporary_node_safe [OF assms(1) d(1) assms(2)]) auto
  show "?Q (Ok ()) (?create d)"
    using d(2) assms(3) kept_set_temporary [OF assms(1,2)] by (auto simp: in_place_def staged_def node_at_set_node)
  show "?Q (Err e) d \<and> ?Q (Err e) (?create d)" for e
    using d(2) kept_set_temporary [OF assms(1,2)] by auto
qed

lemma fill_temporary_rule:
  assumes "names_ok env" and "temporary name"
  shows "hoare (crash_safe env) (files (in_place env K hash name []))
    (effect (\<lambda>d. case node_at d (shard_name env hash) name of
        Some (File _ st) \<Rightarrow> set_node (shard_name env hash) name (File bs st) d | _ \<Rightarrow> d))
    (\<lambda>r d. files (kept env K) d \<and> (r = Ok () \<longrightarrow> files (in_place env K hash name bs) d))"
    (is "hoare _ _ (effect ?write) ?Q")
proof (rule hoare_act)
  let ?sh = "shard_name env hash"
  fix d assume d: "crash_safe env d" "files (in_place env K hash name []) d"
  obtain st where st: "node_at d ?sh name = Some (File [] st)" using d(2) by (auto simp: in_place_def staged_def)
  have w: "?write d = set_node ?sh name (File bs st) d" using st by simp
  have "crash_safe env ((set_node ?sh name (File bs st) d)\<lparr>next_stamp := next_stamp d\<rparr>)"
    by (rule temporary_node_safe [OF assms(1) d(1) assms(2)]) (use d(1) st in \<open>auto simp: crash_safe_def stamps_ok_def\<close>)
  moreover have "(set_node ?sh name (File bs st) d)\<lparr>next_stamp := next_stamp d\<rparr> = set_node ?sh name (File bs st) d"
    using on_shard_fields(3) [of ?sh "AList.update name (File bs st)" d] by simp
  ultimately show "crash_safe env (?write d)" unfolding w by simp
  have k: "files (kept env K) (?write d)"
    unfolding w using d(2) kept_set_temporary [OF assms] by (simp add: in_place_def)
  moreover have "files (staged ?sh name bs) (?write d)"
    unfolding w using node_at_has_shard [OF st] by (simp add: staged_def node_at_set_node)
  ultimately show "?Q (Ok ()) (?write d)" by (simp add: in_place_def)
  show "?Q (Err e) d \<and> ?Q (Err e) (?write d)" for e using k d(2) by (simp add: in_place_def)
qed

lemma write_temporary_rule:
  assumes "names_ok env" and "temporary name"
  shows "hoare (crash_safe env) (files (kept env K)) (write_temporary_file (shard_name env hash) name bs)
    (\<lambda>r d. files (kept env K) d \<and> (r = Ok () \<longrightarrow> files (in_place env K hash name bs) d))"
  unfolding write_temporary_file_def
proof (rule hoare_look, rule hoare_option)
  fix t :: ChunkDisk and x assume x: "map_of (shards t) (shard_name env hash) = Some x"
  show "hoare (crash_safe env) (\<lambda>d. files (kept env K) d \<and> d = t)
      (case x of None \<Rightarrow> failW (ChunkIo NotFound) | Some es \<Rightarrow>
        (case map_of es name of
           None \<Rightarrow> thenW (effect (\<lambda>d. (set_node (shard_name env hash) name (File [] (next_stamp d)) d)\<lparr>next_stamp := next_stamp d + 1\<rparr>))
             (effect (\<lambda>d. case node_at d (shard_name env hash) name of
                Some (File _ st) \<Rightarrow> set_node (shard_name env hash) name (File bs st) d | _ \<Rightarrow> d))
         | Some _ \<Rightarrow> failW (ChunkIo (OtherIo ''already exists''))))
      (\<lambda>r d. files (kept env K) d \<and> (r = Ok () \<longrightarrow> files (in_place env K hash name bs) d))"
  proof (rule hoare_option)
    fix es assume "x = Some es"
    with x have s: "has_shard t (shard_name env hash)" by (simp add: has_shard_def)
    show "hoare (crash_safe env) (\<lambda>d. files (kept env K) d \<and> d = t)
        (case map_of es name of
           None \<Rightarrow> thenW (effect (\<lambda>d. (set_node (shard_name env hash) name (File [] (next_stamp d)) d)\<lparr>next_stamp := next_stamp d + 1\<rparr>))
             (effect (\<lambda>d. case node_at d (shard_name env hash) name of
                Some (File _ st) \<Rightarrow> set_node (shard_name env hash) name (File bs st) d | _ \<Rightarrow> d))
         | Some _ \<Rightarrow> failW (ChunkIo (OtherIo ''already exists'')))
        (\<lambda>r d. files (kept env K) d \<and> (r = Ok () \<longrightarrow> files (in_place env K hash name bs) d))"
      by (rule hoare_option, rule hoare_then [OF create_temporary_rule [OF assms s]], simp,
          rule hoare_conseq [OF fill_temporary_rule [OF assms]]) (auto intro: hoare_fail)
  qed (auto intro: hoare_fail)
qed (auto intro: hoare_fail)

lemma remove_temporary_rule:
  assumes "names_ok env" and "temporary name"
  shows "hoare (crash_safe env) (files (kept env K)) (remove_temporary_file sh name) (\<lambda>_. files (kept env K))"
  unfolding remove_temporary_file_def
proof (rule hoare_if_missing [where R = "\<lambda>_. files (kept env K)"], rule hoare_look, rule hoare_option)
  show "hoare (crash_safe env) (\<lambda>d. files (kept env K) d \<and> d = t) (effect (drop_node sh name)) (\<lambda>_. files (kept env K))" for t
    by (rule hoare_act) (auto intro: kept_drop_temporary [OF assms] drop_temporary_safe [OF assms(1) _ assms(2)])
qed (auto intro: hoare_fail)

lemma stored_drop: "names_ok env \<Longrightarrow> stored env K hash bs r d \<longleftrightarrow>
  kept env (if isl r then K else insert (hash, bs) K) (node_at d)"
  by (cases r) (auto simp: stored_def intro: kept_subset)

lemma store_chunk_rule:
  assumes "names_ok env" and "\<And>bs'. (hash, bs') \<in> K \<Longrightarrow> bs' = bs"
  shows "hoare (crash_safe env) (files (kept env K)) (store_chunk env hash bs) (stored env K hash bs)"
  unfolding store_chunk_def Let_def
proof (rule hoare_keep [OF open_or_create_shard_rule], rule hoare_keep [OF finish_pending_rule [OF assms(1)]],
    rule hoare_bind [OF temporary_name_rule])
  fix name
  let ?P = "\<lambda>d. files (kept env K) d \<and> (\<forall>n. (Ok name :: ChunkStoreError + _) = Ok n \<longrightarrow> temporary n)"
  let ?work = "thenW (write_temporary_file (shard_name env hash) name bs)
    (bindW (link_or_compare_immutable (shard_name env hash) name (chunk_name env hash)) (\<lambda>linked.
      case linked of LinkCreated \<Rightarrow> retW PublishCreated | LinkIdentical \<Rightarrow> retW PublishIdentical
        | LinkCollision \<Rightarrow> replace_corrupt_chunk env name hash (length bs)))"
  show "hoare (crash_safe env) ?P (with_cleanup ?work (remove_temporary_file (shard_name env hash) name)) (stored env K hash bs)"
  proof (cases "temporary name")
    case True
    have replace: "hoare (crash_safe env) (files (in_place env K hash name bs)) (replace_corrupt_chunk env name hash (length bs)) (stored env K hash bs)"
      by (rule replace_rule [OF assms(1) True]) (rule assms(2))
    have "hoare (crash_safe env) (\<lambda>d. files (in_place env K hash name bs) d
        \<and> (\<forall>x. (Ok linked :: ChunkStoreError + _) = Ok x \<and> x \<noteq> LinkCollision \<longrightarrow> kept env (insert (hash, bs) K) (node_at d)))
        (case linked of LinkCreated \<Rightarrow> retW PublishCreated | LinkIdentical \<Rightarrow> retW PublishIdentical
          | LinkCollision \<Rightarrow> replace_corrupt_chunk env name hash (length bs)) (stored env K hash bs)" for linked
      by (cases linked) (auto simp: stored_def in_place_def intro!: hoare_ret hoare_conseq [OF replace])
    note linked = hoare_bind [OF link_rule [OF assms(1) True assms(2)] _ this]
    have work: "hoare (crash_safe env) (files (kept env K)) ?work (stored env K hash bs)"
      by (rule hoare_then [OF write_temporary_rule [OF assms(1) True]], simp add: stored_def,
          rule hoare_conseq [OF linked]) (auto simp: stored_def in_place_def)
    have clean: "hoare (crash_safe env) (stored env K hash bs r) (remove_temporary_file (shard_name env hash) name)
        (\<lambda>_. stored env K hash bs r)" for r
      unfolding stored_drop [OF assms(1)] by (rule remove_temporary_rule [OF assms(1) True])
    show ?thesis
      by (rule hoare_conseq [OF hoare_cleanup [OF work clean]]) (auto simp: stored_def)
  qed (simp add: hoare_def)
qed (simp_all add: stored_def)

text \<open>C26: storing a chunk is safe against crashes and faults.  If every chunk of every manifest that may be on the
  disk is settled, or under a repair whose marker is durable, then this is so after every single effect of storing
  a chunk, whichever effects fail: also when a corrupt chunk of a published archive is replaced.  If it succeeds, the chunk has the bytes,
  and the contents of all other chunks are what they were in any case.\<close>

theorem store_chunk_crash_safe:
  assumes "names_ok env" and "crash_safe env (disk w)" and "passed w = []" and "store_chunk env hash bs w = (r, w')"
  shows "(\<forall>d \<in> set (disk w' # passed w'). crash_safe env d)
    \<and> (\<forall>outcome. r = Ok outcome \<longrightarrow> (\<exists>st. chunk_at env (disk w') hash = Some (File bs st)))
    \<and> (\<forall>other c st. other \<noteq> hash \<and> chunk_at env (disk w) other = Some (File c st)
        \<longrightarrow> (\<exists>st'. chunk_at env (disk w') other = Some (File c st')))"
proof -
  let ?K = "{(other, c). other \<noteq> hash \<and> (\<exists>st. chunk_at env (disk w) other = Some (File c st))}"
  have "always (crash_safe env) w" using assms(2,3) by (simp add: always_def)
  moreover have "kept env ?K (node_at (disk w))" by (auto simp: kept_def)
  moreover have "hoare (crash_safe env) (files (kept env ?K)) (store_chunk env hash bs) (stored env ?K hash bs)"
    by (rule store_chunk_rule [OF assms(1)]) simp
  ultimately have "always (crash_safe env) w' \<and> stored env ?K hash bs r (disk w')"
    using hoareD [of _ _ "store_chunk env hash bs" _ w r w'] assms(4) by blast
  then show ?thesis
    by (auto simp: always_def list_all_iff stored_def kept_def)
qed

text \<open>The witness: a published archive of one byte, whose only chunk has lost its contents.  The repair replaces the file, and
  then the shard cannot be synchronized.\<close>

definition sample_env :: chunk_env where
  "sample_env = \<lparr>ce_encodings = standard_encodings, ce_hex = standard_hex, ce_sha256 = (\<lambda>_. replicate 32 0), ce_process = 7\<rparr>"

definition damaged_chunk :: ChunkHash where
  "damaged_chunk = Sha256Digest (replicate 32 0)"

definition sample_archive :: ChunkManifest where
  "sample_archive = \<lparr>chunked_identity = content_identity (Sha256Digest (replicate 32 0)) (ByteCount 1),
    chunked_profile = MinCdcHash4V2, chunk_count = 1\<rparr>"

definition sample_manifest :: bytes where
  "sample_manifest = manifest_bytes (\<lambda>_. replicate 32 0) sample_archive (piece_descriptors 0 [(1, damaged_chunk)])"

definition damaged_world :: "(ChunkDisk, IoError) world" where
  "damaged_world = \<lparr>disk = \<lparr>shards = [(shard_name sample_env damaged_chunk, Some [(chunk_name sample_env damaged_chunk, File [] 0)])],
      repair_markers = [], manifest_dir = [(manifest_name sample_env (content_hash (chunked_identity sample_archive)), File sample_manifest 0)],
      next_stamp = 1, next_temp = 1,
      durable_entry = (\<lambda>_ _. Some 0), durable_content = {0}, durable_markers = {}, lingering = [],
      pending_markers = (\<lambda>_. 0)\<rparr>,
    fates = replicate 15 Succeeds @ [FailsBefore (OtherIo ''EIO'')], passed = []\<rparr>"

lemma sample_names_ok: "names_ok sample_env"
  using hex16.hexlower_codec_axioms nix32_standard by (simp add: names_ok_def sample_env_def standard_hex_def)

lemma sample_manifest_hashes: "manifest_hashes sample_env sample_manifest = {damaged_chunk}"
proof -
  have d: "divides sample_archive [(1, damaged_chunk)]"
    by (simp add: divides_def sample_archive_def damaged_chunk_def lengths_allowed_def content_identity_def digest_wf_def)
  have c: "content_wf (chunked_identity sample_archive)"
    by (simp add: sample_archive_def content_identity_def content_wf_def digest_wf_def u64_max_def)
  have "length (concat (map descriptor_bytes (piece_descriptors 0 [(1, damaged_chunk)]))) = 40"
    by (subst length_piece_bytes) (simp_all add: damaged_chunk_def digest_wf_def)
  then have l: "length sample_manifest = 132"
    using c by (simp add: sample_manifest_def manifest_bytes_def manifest_content_def length_manifest_header content_wf_def)
  then have "reader_bytes [Data sample_manifest] = sample_manifest" by auto
  with l d c have "manifest_records (\<lambda>_. replicate 32 0) (file_of [Data sample_manifest]) MAX_CHUNK_MANIFEST_BYTES
      = Inr (sample_archive, piece_descriptors 0 [(1, damaged_chunk)])"
    by (intro manifest_records_complete) (simp_all add: MAX_CHUNK_MANIFEST_BYTES_def u64_max_def sample_manifest_def)
  then show ?thesis
    by (simp add: manifest_hashes_def sample_env_def)
qed

lemma sample_referenced: "referenced sample_env (disk damaged_world) = {damaged_chunk}"
proof -
  have "nix32_of (ce_encodings sample_env)" using sample_names_ok by (simp add: names_ok_def)
  then have "is_manifest_name sample_env (manifest_name sample_env (content_hash (chunked_identity sample_archive)))"
    by (simp add: is_manifest_name_def manifest_name_def sample_archive_def content_identity_def digest_wf_def)
  then have "possible_manifests sample_env (disk damaged_world) = {sample_manifest}"
    by (auto simp: possible_manifests_def damaged_world_def)
  then show ?thesis
    by (simp add: referenced_def sample_manifest_hashes)
qed

lemma damaged_world_safe: "crash_safe sample_env (disk damaged_world)"
proof -
  have "accounted sample_env (disk damaged_world) damaged_chunk"
    by (simp add: accounted_def settled_def content_durable_def damaged_world_def node_at_def stamp_at_def)
  moreover have "stamps_ok (disk damaged_world)"
    by (auto simp: stamps_ok_def damaged_world_def node_at_def split: if_splits)
  ultimately show ?thesis
    by (simp add: crash_safe_def sample_referenced)
qed

theorem store_chunk_crash_safe_witness:
  "damaged_chunk \<in> referenced sample_env (disk damaged_world)
    \<and> list_all (crash_safe sample_env) (passed (snd (store_chunk sample_env damaged_chunk [1] damaged_world)))"
proof -
  have "passed damaged_world = []" by (simp add: damaged_world_def)
  then show ?thesis
    using store_chunk_crash_safe [OF sample_names_ok damaged_world_safe _ prod.collapse [symmetric], of damaged_chunk "[1]"]
    by (simp add: sample_referenced list_all_iff)
qed

end
