(* ===== verification/Spec2Isabelle.thy ===== *)
theory Spec2Isabelle
  imports Nar_Roundtrip NarInfo_Security Collection_Safety Gc_Run Publication_Record Auth Http_Framing Verified_Stream
    Flight_Table Chunk_Durability
begin

text \<open>
  Narjar is a binary cache for Nix.  Clients upload and fetch store paths over HTTP.  A store path is an archive in the
  NAR format (\<open>src/src/nar.rs\<close>, \<open>nar_encode.rs\<close>) and a signed description of it, the narinfo (\<open>narinfo.rs\<close>).
  Payloads are kept as flat files (\<open>storage/\<close>) or as content-defined chunks with a manifest (\<open>storage/chunked.rs\<close>,
  \<open>storage/chunk_store.rs\<close>).  A collector (\<open>storage/gc.rs\<close>) deletes what the retention policy no longer keeps, while a
  coordinator (\<open>storage/collection.rs\<close>) keeps it apart from readers and writers, and leases (\<open>storage/advertisement.rs\<close>)
  keep it from deleting what was promised.  Requests are framed (\<open>http_server/request.rs\<close>) and authorized (\<open>auth.rs\<close>);
  what is not in the cache is fetched once for all who ask (\<open>read_through/state.rs\<close>) and verified as it streams
  (\<open>verified_stream.rs\<close>).  Paths below are relative to \<open>src/src\<close>.

  \<^bold>\<open>How code is modelled.\<close>  Structs are records and enums datatypes, with the names of the source.  A \<open>Result\<close> is a sum, \<open>Inl\<close>
  the error.  Code that returns early and loses its state on errors is in the \<open>step\<close> monad, code whose state outlives an error
  in the \<open>run\<close> monad (\<open>Narjar_Prelude\<close>).  64-bit integers are natural numbers with checked, saturating or wrapping arithmetic
  written out; bytes are words of eight bits.  Reads come from a list of what successive calls yield, so a theorem about all such lists
  covers every way a stream is cut, interrupted or broken off.  Effects on a disk draw their outcomes from a list: success,
  failure without the effect, failure after it (\<open>Effects\<close>, with a calculus of triples for what holds in every state passed).
  A critical section is one function; interleavings are inductive step relations.  \<open>unreachable!\<close>, \<open>expect\<close> and overflow
  are explicit error values or side conditions that are proved.

  \<^bold>\<open>Shared theories.\<close>
  \<^item> \<open>Narjar_Prelude\<close>: bytes, results, the two monads, little-endian numbers, \<open>u64\<close> arithmetic, the collection \<open>run_simps\<close>.
  \<^item> \<open>Effects\<close>: runs with faults, \<open>hoare\<close> and its rules.
  \<^item> \<open>Rust_Str\<close>: what the sources use of strings; \<open>Base_Codecs\<close>: the contracts of the base-32 and base-64
    encodings as locales, interpreted on executable codecs.
  \<^item> \<open>Io_Stream\<close>: connections and pipes.

  \<^bold>\<open>Archives\<close> (\<open>nar.rs\<close>, \<open>nar_encode.rs\<close>).  \<open>Nar_Decode\<close> and \<open>Nar_Encode\<close> have every function of the two files.
  \<open>Nar_Tree\<close> is the specification: trees, their one encoding, the limits.  \<open>Nar_Decode_Correct\<close> proves by a calculus of relational specifications that
  the decoder accepts exactly the encodings of trees within the limits (C1); \<open>Nar_Reader\<close> that only the bytes of the reader
  matter (C2); \<open>Nar_Canonical\<close> that the encoding is prefix free, so the tree is unique and truncated or extended input is refused
  (C3 to C5).  \<open>Nar_Builder\<close> is an abstract machine that \<open>Nar_Encode_Correct\<close> shows the encoder to refine (C6);
  \<open>Nar_Roundtrip\<close> connects the two directions (C7, C8) and shows the \<open>unreachable!\<close> branches unreachable (C9).

  \<^bold>\<open>Names and metadata\<close> (\<open>object.rs\<close>, \<open>storage/ids.rs\<close>, \<open>narinfo.rs\<close>, \<open>narinfo/trust.rs\<close>, \<open>narinfo_signing.rs\<close>).
  \<open>Object\<close> and \<open>Store_Ids\<close> have digests, payload names and store names, each parser the exact inverse of its printer (C10, C12).
  \<open>NarInfo\<close> and \<open>NarInfo_Trust\<close> have the documents, the claims, the trust store and the states from an unverified document
  to one that is bound to an archive.  \<open>NarInfo_Correct\<close>, \<open>NarInfo_Serialize\<close> and \<open>NarInfo_Security\<close> show that a document is
  written completely or not at all and parses back (C13, C14), what a parsed document holds (C15), that the signed fingerprint determines the
  claims (C16), and what validation guarantees (C17 to C21).

  \<^bold>\<open>Collection\<close> (\<open>storage/collection.rs\<close>, \<open>storage/gc.rs\<close>, \<open>storage/gc/retention.rs\<close>, \<open>storage/advertisement.rs\<close>).
  \<open>Collection\<close> has the critical sections of the coordinator and \<open>Collection_Safety\<close> their interleavings: deletion excludes mutations
  and the readers of what is deleted, protected objects survive, waiting mutations are released (C22 to C24).  \<open>Retention\<close> has
  the policy and the thresholds with their hysteresis (C25).  \<open>Gc\<close> plans a collection; \<open>Gc_Protect\<close> shows that protection is the
  closure under references (C27), \<open>Gc_Accounting\<close> that predicted sizes are exact with shared payloads (C28), \<open>Gc_Select\<close>
  that selections are safe and reach their target (C29, C30).  \<open>Gc_Apply\<close> deletes, with faults and crashes (C37).
  \<open>Advertisement\<close> has the leases, and \<open>Gc_Run\<close> the whole flat collection, which honours them (C39) and retires dependents (C40).
  \<open>Publication_Record\<close> has the records of publications and their expiry (C38).

  \<^bold>\<open>Chunks\<close> (\<open>storage/chunked.rs\<close>, \<open>storage/chunk_store.rs\<close>).  \<open>Chunk_Manifest\<close> has the manifest reader, which accepts exactly
  the canonical manifests (C11).  \<open>Chunk_Store\<close> has storing a chunk and repairing a corrupt one, on a disk that says what a
  crash keeps; \<open>Chunk_Durability\<close> shows that no fault and no crash loses a chunk of a published archive (C26).

  \<^bold>\<open>Requests\<close> (\<open>token_file.rs\<close>, \<open>token.rs\<close>, \<open>auth.rs\<close>, \<open>http_server/request.rs\<close>, \<open>verified_stream.rs\<close>, \<open>read_through/state.rs\<close>).
  \<open>Token_File\<close> and \<open>Auth\<close>: which requests are let in, and what creating and revoking a token does (C31, C32).
  \<open>Http_Request\<close> and \<open>Http_Framing\<close>: the head is found however it arrives (C33), and a kept connection is at the start of the next request
  (C34).  \<open>Verified_Stream\<close>: the end of a stream is seen only after its digest was compared (C35).  \<open>Flight_Table\<close>: at
  most one leader per key, whatever the interleaving (C36).

  \<^bold>\<open>Parameters.\<close>  SHA-256, Ed25519, URL parsing, base-32, base-64 and hexadecimal codecs, substring search, the
  header parser and the lease serialisation are packages.  They are arguments of the definitions; what the code relies on is
  a locale or a named hypothesis, and each witness has a concrete instance.

  \<^bold>\<open>Bounds and termination.\<close>  There is no fuel.  Loops that read end because the list of reads or the remaining count
  shrinks; \<open>protect_loop\<close> because each round marks a node or shortens the stack; \<open>retiring_loop\<close> is a partial function
  and C40 shows that it returns on every graph.  \<open>usize\<close> has 64 bits.  The limits of the sources (\<open>MAX_RECORD_BYTES\<close>,
  \<open>MAX_CHUNK_MANIFEST_BYTES\<close>, 16 KiB for a head) are the constants of the model.

  \<^bold>\<open>Not modelled.\<close>  Of the chunk store: the chunking writer, the reader of archives, the sweep, the caches of proofs, and the
  lock-free path of readers.  Of the flat store: the publication transaction, ingest, egress, recompression, recovery and
  reconciliation, which are streams through libraries and scans of directories; the collector takes what the scans find as
  input.  The native store, the mesh, the peers, discovery, push, the operator commands, the control socket, metrics and
  configuration are networking, processes and terminal interfaces.  Permissions of files, time limits and memory are left out
  everywhere, except that the decoder's reservations may fail.
\<close>

end
